(* ===== verification/Prelude.thy ===== *)
theory Prelude
  imports Main "HOL-Library.Word"
begin

unbundle bit_operations_syntax

text \<open>
  Shared vocabulary of the development: the limits of the C types the compiler relies on,
  arena identities, the first-match search that every interning loop of the sources performs,
  slices of flat arrays, and bit lengths. An array together with its \<open>count\<close> field is a list
  whose length is the count; \<open>pigen_resize\<close> (src/src/util.c) exits the process when memory runs
  out, so a growing array never fails and its \<open>capacity\<close> is not represented (the one array whose
  capacity is observable, in src/src/output.c, keeps it).
\<close>

named_theorems arena_simps \<open>unfolding rules for arena accessors\<close>
named_theorems mag_simps \<open>values of limb sequences\<close>

section \<open>Limits of the C types\<close>

text \<open>
  Arena identities are \<open>uint32_t\<close> indices with \<open>UINT32_MAX\<close> as the invalid identity
  (src/include/pigen/ids.h); \<open>size_t\<close> and \<open>uint64_t\<close> are 64 bits wide.
\<close>

type_synonym id = nat

definition PIGEN_INVALID_ID :: id where
  "PIGEN_INVALID_ID = 4294967295"

definition SIZE_MAX :: nat where
  "SIZE_MAX = 18446744073709551615"

definition UINT64_MAX :: nat where
  "UINT64_MAX = 18446744073709551615"

text \<open>The cast \<open>(uint32_t)n\<close> of a size.\<close>

definition u32 :: "nat \<Rightarrow> id" where
  "u32 n = n mod 4294967296"

lemma u32_id [simp]: "n \<le> PIGEN_INVALID_ID \<Longrightarrow> u32 n = n"
  by (simp add: u32_def PIGEN_INVALID_ID_def)

text \<open>A \<open>size_t\<close> sum that no guard protects.\<close>

definition size_wrap :: "nat \<Rightarrow> nat" where
  "size_wrap n = n mod 18446744073709551616"

lemma size_wrap_id [simp]: "n \<le> SIZE_MAX \<Longrightarrow> size_wrap n = n"
  by (simp add: size_wrap_def SIZE_MAX_def)

lemma SIZE_MAX_eq: "SIZE_MAX = 2 ^ 64 - 1"
  by (simp add: SIZE_MAX_def)

lemma UINT64_MAX_eq: "UINT64_MAX = 2 ^ 64 - 1"
  by (simp add: UINT64_MAX_def)

section \<open>First match\<close>

text \<open>The loop \<open>for (i = 0; i < n; i++) if (P(xs[i])) return i;\<close>.\<close>

fun first_index :: "('a \<Rightarrow> bool) \<Rightarrow> 'a list \<Rightarrow> nat option" where
  "first_index P [] = None"
| "first_index P (x # xs) = (if P x then Some 0 else map_option Suc (first_index P xs))"

lemma first_index_None [simp]: "first_index P xs = None \<longleftrightarrow> (\<forall>x \<in> set xs. \<not> P x)"
  by (induction xs) auto

lemma first_index_Some:
  "first_index P xs = Some i \<Longrightarrow> i < length xs \<and> P (xs ! i) \<and> (\<forall>j < i. \<not> P (xs ! j))"
proof (induction xs arbitrary: i)
  case Nil
  then show ?case by simp
next
  case (Cons x xs)
  show ?case
  proof (cases "P x")
    case True
    with Cons.prems show ?thesis by simp
  next
    case False
    with Cons.prems obtain k where k: "first_index P xs = Some k" and i: "i = Suc k"
      by auto
    from Cons.IH [OF k] False i show ?thesis
      by (auto simp: nth_Cons split: nat.splits)
  qed
qed

lemma first_index_lt: "first_index P xs = Some i \<Longrightarrow> i < length xs"
  by (simp add: first_index_Some)

lemma first_index_sat: "first_index P xs = Some i \<Longrightarrow> P (xs ! i)"
  by (simp add: first_index_Some)

lemma first_index_append:
  "first_index P (xs @ ys) =
     (case first_index P xs of
        None \<Rightarrow> map_option (\<lambda>i. i + length xs) (first_index P ys)
      | Some i \<Rightarrow> Some i)"
  by (induction xs) (auto split: option.splits simp: option.map_comp comp_def option.map_ident
    simp del: first_index_None)

lemma first_index_cong:
  "(\<And>x. x \<in> set xs \<Longrightarrow> P x = Q x) \<Longrightarrow> first_index P xs = first_index Q xs"
  by (induction xs) auto

section \<open>Slices of flat arrays\<close>

text \<open>
  The records of an arena name their variable-length part by the half-open range
  \<open>[first, first + count)\<close> of a flat array.
\<close>

definition slice :: "nat \<Rightarrow> nat \<Rightarrow> 'a list \<Rightarrow> 'a list" where
  "slice first count xs = take count (drop first xs)"

lemma length_slice [simp]:
  "first + count \<le> length xs \<Longrightarrow> length (slice first count xs) = count"
  by (simp add: slice_def)

lemma slice_zero [simp]: "slice first 0 xs = []"
  by (simp add: slice_def)

lemma slice_append [simp]:
  "first + count \<le> length xs \<Longrightarrow> slice first count (xs @ ys) = slice first count xs"
  by (simp add: slice_def)

lemma slice_new [simp]: "slice (length xs) (length ys) (xs @ ys) = ys"
  by (simp add: slice_def)

lemma nth_slice: "i < count \<Longrightarrow> first + count \<le> length xs \<Longrightarrow> slice first count xs ! i = xs ! (first + i)"
  by (simp add: slice_def)

section \<open>Bit lengths\<close>

text \<open>\<open>bit_length n\<close> is the number of bits of the binary representation of \<open>n\<close>.\<close>

fun bit_length :: "nat \<Rightarrow> nat" where
  "bit_length n = (if n = 0 then 0 else Suc (bit_length (n div 2)))"

declare bit_length.simps [simp del]

lemma bit_length_0 [simp]: "bit_length 0 = 0"
  by (simp add: bit_length.simps)

lemma bit_length_pos: "0 < n \<Longrightarrow> bit_length n = Suc (bit_length (n div 2))"
  by (subst bit_length.simps) simp

lemma bit_length_1 [simp]: "bit_length (Suc 0) = 1"
  by (simp add: bit_length_pos)

lemma bit_length_le_iff: "bit_length n \<le> k \<longleftrightarrow> n < 2 ^ k"
proof (induction n arbitrary: k rule: bit_length.induct)
  case (1 n)
  show ?case
  proof (cases "n = 0")
    case True
    then show ?thesis by simp
  next
    case False
    then have eq: "bit_length n = Suc (bit_length (n div 2))"
      by (simp add: bit_length_pos)
    show ?thesis
    proof (cases k)
      case 0
      with False eq show ?thesis by simp
    next
      case (Suc j)
      from "1" [OF False, of j] have "bit_length (n div 2) \<le> j \<longleftrightarrow> n div 2 < 2 ^ j" .
      moreover have "n div 2 < 2 ^ j \<longleftrightarrow> n < 2 ^ Suc j"
        by (simp add: div_less_iff_less_mult mult.commute)
      ultimately show ?thesis using eq Suc by simp
    qed
  qed
qed

lemma bit_length_less_iff: "k < bit_length n \<longleftrightarrow> 2 ^ k \<le> n"
  using bit_length_le_iff [of n k] by auto

lemma less_exp_bit_length: "n < 2 ^ bit_length n"
  using bit_length_le_iff [of n "bit_length n"] by simp

lemma bit_length_eq_0 [simp]: "bit_length n = 0 \<longleftrightarrow> n = 0"
  using bit_length_le_iff [of n 0] by auto

lemma bit_length_eqI: "2 ^ k \<le> n \<Longrightarrow> n < 2 ^ Suc k \<Longrightarrow> bit_length n = Suc k"
  using bit_length_less_iff [of k n] bit_length_le_iff [of n "Suc k"] by auto

lemma bit_length_exp [simp]: "bit_length (2 ^ k) = Suc k"
  by (rule bit_length_eqI) auto

lemma bit_length_mono: "m \<le> n \<Longrightarrow> bit_length m \<le> bit_length n"
  using bit_length_le_iff [of m "bit_length n"] less_exp_bit_length [of n] by linarith

lemma exp_le_bit_length: "0 < n \<Longrightarrow> 2 ^ (bit_length n - 1) \<le> n"
  using bit_length_less_iff [of "bit_length n - 1" n] by (cases "bit_length n") auto

lemma bit_length_mult_exp: "0 < n \<Longrightarrow> bit_length (n * 2 ^ k) = bit_length n + k"
proof -
  assume n: "0 < n"
  then obtain b where b: "bit_length n = Suc b" by (cases "bit_length n") auto
  have "2 ^ b \<le> n" "n < 2 ^ Suc b"
    using b bit_length_less_iff [of b n] bit_length_le_iff [of n "Suc b"] by auto
  then have "2 ^ (b + k) \<le> n * 2 ^ k" "n * 2 ^ k < 2 ^ Suc (b + k)"
    by (simp_all add: power_add)
  then have "bit_length (n * 2 ^ k) = Suc (b + k)" by (rule bit_length_eqI)
  with b show ?thesis by simp
qed

end
