(* ===== verification/Magnitudes.thy ===== *)
theory Magnitudes
  imports Prelude
begin

text \<open>
  The limb arithmetic of src/src/integer.c: little-endian sequences of 32-bit limbs, computed
  with 64-bit intermediate products, sums and borrows exactly as the C loops do. A pair
  \<open>(limbs, count)\<close> of the source is the list of its first \<open>count\<close> limbs. Every
  routine is related to the natural number its limbs denote (\<open>mag\<close>), so no intermediate value
  wraps around and no carry is lost.
\<close>

type_synonym limb = "32 word"
type_synonym u64 = "64 word"

section \<open>The number a limb sequence denotes\<close>

fun mag :: "limb list \<Rightarrow> nat" where
  "mag [] = 0"
| "mag (x # xs) = unat x + 4294967296 * mag xs"

definition normalized :: "limb list \<Rightarrow> bool" where
  "normalized xs \<longleftrightarrow> xs = [] \<or> last xs \<noteq> 0"

text \<open>The C expressions \<open>(uint32_t)p\<close> and \<open>p >> LIMB_BITS\<close> on a \<open>uint64_t\<close>.\<close>

abbreviation low_limb :: "u64 \<Rightarrow> limb" where
  "low_limb p \<equiv> ucast p"

abbreviation high_limb :: "u64 \<Rightarrow> u64" where
  "high_limb p \<equiv> drop_bit 32 p"

abbreviation wide :: "limb \<Rightarrow> u64" where
  "wide x \<equiv> ucast x"

lemma unat_low [simp]: "unat (low_limb p) = unat p mod 4294967296"
  by (simp add: unsigned_ucast_eq take_bit_eq_mod)

lemma unat_high [simp]: "unat (high_limb p) = unat p div 4294967296"
  by (subst unat_drop_bit_eq) (simp add: drop_bit_eq_div)

lemma limb_lt: "unat (x :: limb) < 4294967296"
  using unsigned_less [of x, where ?'a = nat] by simp

lemma unat_wide [simp]: "unat (wide x) = unat x"
  by (simp add: unsigned_ucast_eq take_bit_nat_eq_self_iff order_less_trans [OF limb_lt])

lemma u64_lt: "unat (x :: u64) < 18446744073709551616"
  using unsigned_less [of x, where ?'a = nat] by simp

lemma low_wide [simp]: "low_limb (wide x) = x"
  using limb_lt [of x] by (simp add: word_unat_eq_iff)

lemma limb_split: "unat (low_limb p) + 4294967296 * unat (high_limb p) = unat p"
  by simp

lemma mag_append [simp]: "mag (xs @ ys) = mag xs + 2 ^ (32 * length xs) * mag ys"
  by (induction xs) (auto simp: algebra_simps power_add)

lemma mag_bound: "mag xs < 2 ^ (32 * length xs)"
proof (induction xs)
  case Nil
  then show ?case by simp
next
  case (Cons x xs)
  then have "Suc (mag xs) \<le> 2 ^ (32 * length xs)" by simp
  then have "4294967296 * Suc (mag xs) \<le> 4294967296 * 2 ^ (32 * length xs)"
    by (rule mult_le_mono2)
  then show ?case using limb_lt [of x] by (simp add: power_add)
qed

lemma mag_replicate_0 [simp]: "mag (replicate n 0) = 0"
  by (induction n) auto

lemma mag_eq_0_iff: "mag xs = 0 \<longleftrightarrow> (\<forall>x \<in> set xs. x = 0)"
  by (induction xs) (auto simp: unat_eq_zero)

lemma mag_inject: "length xs = length ys \<Longrightarrow> mag xs = mag ys \<Longrightarrow> xs = ys"
proof (induction xs ys rule: list_induct2)
  case Nil
  then show ?case by simp
next
  case (Cons x xs y ys)
  from Cons.prems have eq: "unat x + 4294967296 * mag xs = unat y + 4294967296 * mag ys"
    by simp
  then have "(unat x + 4294967296 * mag xs) mod 4294967296 =
      (unat y + 4294967296 * mag ys) mod 4294967296" by simp
  then have "unat x = unat y" using limb_lt [of x] limb_lt [of y] by simp
  with eq have "mag xs = mag ys" by simp
  with Cons.IH \<open>unat x = unat y\<close> show ?case by (simp add: word_unat_eq_iff)
qed

lemma normalized_Nil [simp]: "normalized []"
  by (simp add: normalized_def)

lemma normalized_snoc [simp]: "normalized (xs @ [x]) \<longleftrightarrow> x \<noteq> 0"
  by (simp add: normalized_def)

lemma normalized_lower:
  assumes "normalized xs" and "xs \<noteq> []"
  shows "2 ^ (32 * (length xs - 1)) \<le> mag xs"
proof -
  from assms(2) obtain ys y where xs: "xs = ys @ [y]" by (metis rev_exhaust)
  with assms(1) have "y \<noteq> 0" by simp
  then have "0 < unat y" by (simp add: unat_gt_0)
  then have "2 ^ (32 * length ys) * 1 \<le> 2 ^ (32 * length ys) * unat y"
    by (intro mult_le_mono2) simp
  with xs show ?thesis by (simp add: trans_le_add2)
qed

lemma normalized_mag_0: "normalized xs \<Longrightarrow> mag xs = 0 \<longleftrightarrow> xs = []"
  by (metis last_in_set mag.simps(1) mag_eq_0_iff normalized_def)

lemma normalized_length_mono:
  assumes "normalized xs" and "mag xs \<le> mag ys"
  shows "length xs \<le> length ys"
proof (rule ccontr)
  assume "\<not> length xs \<le> length ys"
  then have lt: "length ys \<le> length xs - 1" and ne: "xs \<noteq> []" by auto
  have "mag ys < 2 ^ (32 * length ys)" by (rule mag_bound)
  also have "\<dots> \<le> 2 ^ (32 * (length xs - 1))" using lt by simp
  also have "\<dots> \<le> mag xs" using assms(1) ne by (rule normalized_lower)
  finally show False using assms(2) by simp
qed

lemma normalized_inject: "normalized xs \<Longrightarrow> normalized ys \<Longrightarrow> mag xs = mag ys \<Longrightarrow> xs = ys"
  by (intro mag_inject antisym normalized_length_mono) simp_all

section \<open>Normalization\<close>

text \<open>\<open>while (count && !limbs[count - 1]) count--;\<close>\<close>

fun normalized_count :: "limb list \<Rightarrow> nat \<Rightarrow> nat" where
  "normalized_count limbs 0 = 0"
| "normalized_count limbs (Suc count) =
     (if limbs ! count = 0 then normalized_count limbs count else Suc count)"

definition normalize :: "limb list \<Rightarrow> limb list" where
  "normalize limbs = take (normalized_count limbs (length limbs)) limbs"

lemma normalized_count_le: "normalized_count limbs n \<le> n"
  by (induction n) auto

lemma normalized_count_zeros:
  "normalized_count limbs n \<le> i \<Longrightarrow> i < n \<Longrightarrow> limbs ! i = 0"
  by (induction n) (auto split: if_splits simp: less_Suc_eq)

lemma normalized_count_last:
  "normalized_count limbs n = Suc k \<Longrightarrow> limbs ! k \<noteq> 0"
  by (induction n) (auto split: if_splits)

lemma length_normalize: "length (normalize limbs) = normalized_count limbs (length limbs)"
  by (simp add: normalize_def normalized_count_le min_absorb2)

lemma normalize_normalized [simp, intro]: "normalized (normalize limbs)"
proof (cases "normalized_count limbs (length limbs)")
  case 0
  then show ?thesis by (simp add: normalize_def)
next
  case (Suc k)
  then have "k < length limbs" using normalized_count_le [of limbs "length limbs"] by simp
  with Suc show ?thesis
    using normalized_count_last [OF Suc]
    by (simp add: normalize_def take_Suc_conv_app_nth)
qed

lemma mag_normalize [simp]: "mag (normalize limbs) = mag limbs"
proof -
  let ?n = "normalized_count limbs (length limbs)"
  have "\<forall>x \<in> set (drop ?n limbs). x = 0"
    by (auto simp: in_set_conv_nth less_diff_conv add.commute
        intro!: normalized_count_zeros [of limbs "length limbs"])
  then have "mag (drop ?n limbs) = 0" by (simp add: mag_eq_0_iff)
  moreover have "mag limbs = mag (take ?n limbs @ drop ?n limbs)" by simp
  ultimately show ?thesis unfolding normalize_def by (simp only: mag_append mult_0_right add_0_right)
qed

lemma normalize_id: "normalized limbs \<Longrightarrow> normalize limbs = limbs"
  by (rule normalized_inject) auto

lemma length_normalize_le: "length (normalize limbs) \<le> length limbs"
  by (simp add: length_normalize normalized_count_le)


section \<open>Multiplying and adding a single limb\<close>

text \<open>
  \<open>magnitude_multiply_small\<close> and \<open>magnitude_add_small\<close> update the limbs in place from the
  least significant one and append a final carry.
\<close>

fun multiply_small_loop :: "limb list \<Rightarrow> limb \<Rightarrow> u64 \<Rightarrow> limb list \<times> u64" where
  "multiply_small_loop [] multiplier carry = ([], carry)"
| "multiply_small_loop (x # xs) multiplier carry =
     (let product = wide x * wide multiplier + carry;
          (rest, final) = multiply_small_loop xs multiplier (high_limb product)
      in (low_limb product # rest, final))"

definition append_carry :: "limb list \<times> u64 \<Rightarrow> limb list" where
  "append_carry r = (case r of (limbs, carry) \<Rightarrow>
     if carry \<noteq> 0 then limbs @ [low_limb carry] else limbs)"

definition magnitude_multiply_small :: "limb list \<Rightarrow> limb \<Rightarrow> limb list" where
  "magnitude_multiply_small limbs multiplier = append_carry (multiply_small_loop limbs multiplier 0)"

fun add_small_loop :: "limb list \<Rightarrow> u64 \<Rightarrow> limb list \<times> u64" where
  "add_small_loop [] carry = ([], carry)"
| "add_small_loop (x # xs) carry =
     (if carry = 0 then (x # xs, carry)
      else let sum = wide x + carry;
               (rest, final) = add_small_loop xs (high_limb sum)
           in (low_limb sum # rest, final))"

definition magnitude_add_small :: "limb list \<Rightarrow> limb \<Rightarrow> limb list" where
  "magnitude_add_small limbs addend = append_carry (add_small_loop limbs (wide addend))"

lemma carry_step:
  fixes a b f c q :: nat
  assumes "a + b * f = c + q div 4294967296"
  shows "q mod 4294967296 + 4294967296 * a + 4294967296 * b * f = 4294967296 * c + q"
proof -
  have "4294967296 * (a + b * f) = 4294967296 * (c + q div 4294967296)"
    using assms by simp
  then show ?thesis
    using mod_mult_div_eq [of q 4294967296] by (simp only: distrib_left mult.assoc)
qed

lemma unat_add_no_wrap:
  "unat (a :: u64) + unat b < 18446744073709551616 \<Longrightarrow> unat (a + b) = unat a + unat b"
  by (simp add: unat_word_ariths)

lemma unat_mult_limbs: "unat (wide x * wide y) = unat x * unat y"
proof -
  have "unat x * unat y \<le> 4294967295 * 4294967295"
    using limb_lt [of x] limb_lt [of y] by (intro mult_le_mono) auto
  then show ?thesis by (simp add: unat_word_ariths)
qed

lemma unat_product:
  assumes "unat c \<le> 8589934590"
  shows "unat (wide x * wide y + c) = unat x * unat y + unat c"
proof -
  have "unat x * unat y \<le> 4294967295 * 4294967295"
    using limb_lt [of x] limb_lt [of y] by (intro mult_le_mono) auto
  with assms show ?thesis by (simp add: unat_add_no_wrap unat_mult_limbs)
qed

lemma high_product_lt:
  assumes "unat c \<le> 8589934590"
  shows "unat (high_limb (wide x * wide y + c)) < 4294967296"
  using u64_lt [of "wide x * wide y + c"] by (simp add: div_less_iff_less_mult)

lemma mag_append_carry:
  assumes "unat carry < 4294967296"
  shows "mag (append_carry (limbs, carry)) = mag limbs + 2 ^ (32 * length limbs) * unat carry"
  using assms by (auto simp: append_carry_def unat_eq_zero)

lemma multiply_small_loop:
  assumes "multiply_small_loop limbs m carry = (r, final)" and "unat carry < 4294967296"
  shows "mag r + 2 ^ (32 * length r) * unat final = mag limbs * unat m + unat carry
    \<and> length r = length limbs \<and> unat final < 4294967296"
  using assms
proof (induction limbs arbitrary: carry r)
  case Nil
  then show ?case by simp
next
  case (Cons x xs)
  let ?p = "wide x * wide m + carry"
  obtain r' where r': "multiply_small_loop xs m (high_limb ?p) = (r', final)"
    and r: "r = low_limb ?p # r'"
    using Cons.prems(1) by (auto simp: Let_def split: prod.splits)
  have lt: "unat (high_limb ?p) < 4294967296"
    using Cons.prems(2) by (intro high_product_lt) simp
  have p: "unat ?p = unat x * unat m + unat carry"
    using Cons.prems(2) by (intro unat_product) simp
  from Cons.IH [OF r' lt] have "mag r' + 2 ^ (32 * length r') * unat final =
      mag xs * unat m + unat ?p div 4294967296" and len: "length r' = length xs"
    and f: "unat final < 4294967296"
    by auto
  then have "mag r + 2 ^ (32 * length r) * unat final =
      4294967296 * (mag xs * unat m) + unat ?p"
    using carry_step [of "mag r'" "2 ^ (32 * length r')" "unat final"] r by (simp add: power_add)
  with p len f r show ?case by (simp add: algebra_simps)
qed

lemma mag_multiply_small [simp, mag_simps]:
  "mag (magnitude_multiply_small limbs m) = mag limbs * unat m"
proof -
  obtain r final where eq: "multiply_small_loop limbs m 0 = (r, final)" by fastforce
  from multiply_small_loop [OF eq] show ?thesis
    by (auto simp: magnitude_multiply_small_def eq mag_append_carry)
qed

lemma add_small_loop:
  assumes "add_small_loop limbs carry = (r, final)" and "unat carry < 4294967296"
  shows "mag r + 2 ^ (32 * length r) * unat final = mag limbs + unat carry
    \<and> length r = length limbs \<and> unat final < 4294967296"
  using assms
proof (induction limbs arbitrary: carry r)
  case Nil
  then show ?case by simp
next
  case (Cons x xs)
  show ?case
  proof (cases "carry = 0")
    case True
    with Cons.prems show ?thesis by auto
  next
    case False
    let ?p = "wide x + carry"
    obtain r' where r': "add_small_loop xs (high_limb ?p) = (r', final)"
      and r: "r = low_limb ?p # r'"
      using Cons.prems(1) False by (auto simp: Let_def split: prod.splits)
    have p: "unat ?p = unat x + unat carry"
      using Cons.prems(2) limb_lt [of x] by (simp add: unat_add_no_wrap)
    have lt: "unat (high_limb ?p) < 4294967296"
      using u64_lt [of ?p] by (simp add: div_less_iff_less_mult)
    from Cons.IH [OF r' lt] have "mag r' + 2 ^ (32 * length r') * unat final =
        mag xs + unat ?p div 4294967296" and len: "length r' = length xs"
      and f: "unat final < 4294967296"
      by auto
    then have "mag r + 2 ^ (32 * length r) * unat final = 4294967296 * mag xs + unat ?p"
      using carry_step [of "mag r'" "2 ^ (32 * length r')" "unat final"] r by (simp add: power_add)
    with p len f r show ?thesis by simp
  qed
qed

lemma mag_add_small [simp, mag_simps]:
  "mag (magnitude_add_small limbs a) = mag limbs + unat a"
proof -
  obtain r final where eq: "add_small_loop limbs (wide a) = (r, final)" by fastforce
  from add_small_loop [OF eq] limb_lt [of a] show ?thesis
    by (auto simp: magnitude_add_small_def eq mag_append_carry)
qed


section \<open>Comparison\<close>

text \<open>The loop of \<open>magnitude_compare\<close> reads the limbs from the most significant one down.\<close>

fun compare_down :: "limb list \<Rightarrow> limb list \<Rightarrow> nat \<Rightarrow> int" where
  "compare_down left right 0 = 0"
| "compare_down left right (Suc n) =
     (if left ! n \<noteq> right ! n then (if left ! n < right ! n then - 1 else 1)
      else compare_down left right n)"

definition magnitude_compare :: "limb list \<Rightarrow> limb list \<Rightarrow> int" where
  "magnitude_compare left right =
     (if length left \<noteq> length right then (if length left < length right then - 1 else 1)
      else compare_down left right (length left))"

lemma mag_take_Suc:
  "n < length xs \<Longrightarrow> mag (take (Suc n) xs) = mag (take n xs) + 2 ^ (32 * n) * unat (xs ! n)"
  by (simp add: take_Suc_conv_app_nth)

lemma compare_top_limb:
  fixes a b K x y :: nat
  assumes "a < K" and "x < y"
  shows "a + K * x < b + K * y"
proof -
  have "a + K * x < K * Suc x" using assms(1) by simp
  also have "\<dots> \<le> K * y" using assms(2) by (intro mult_le_mono2) simp
  finally show ?thesis by simp
qed

lemma compare_down:
  "n \<le> length left \<Longrightarrow> n \<le> length right \<Longrightarrow>
   compare_down left right n = sgn (int (mag (take n left)) - int (mag (take n right)))"
proof (induction n)
  case 0
  then show ?case by simp
next
  case (Suc n)
  have bl: "mag (take n left) < 2 ^ (32 * n)" and br: "mag (take n right) < 2 ^ (32 * n)"
    using mag_bound [of "take n left"] mag_bound [of "take n right"] Suc.prems
    by (auto simp: min_absorb2)
  consider "left ! n = right ! n" | "left ! n < right ! n" | "right ! n < left ! n"
    by (rule linorder_cases)
  then show ?case
  proof cases
    case 1
    with Suc show ?thesis by (simp add: mag_take_Suc)
  next
    case 2
    then have "mag (take (Suc n) left) < mag (take (Suc n) right)"
      using compare_top_limb [OF bl] Suc.prems by (simp add: mag_take_Suc word_less_nat_alt)
    with 2 show ?thesis by auto
  next
    case 3
    then have "mag (take (Suc n) right) < mag (take (Suc n) left)"
      using compare_top_limb [OF br] Suc.prems by (simp add: mag_take_Suc word_less_nat_alt)
    with 3 show ?thesis by auto
  qed
qed

lemma magnitude_compare:
  assumes "normalized left" and "normalized right"
  shows "magnitude_compare left right = sgn (int (mag left) - int (mag right))"
proof -
  have less: "mag xs < mag ys"
    if "length xs < length ys" "normalized xs" "normalized ys" for xs ys
    using normalized_length_mono [of ys xs] that by (meson leD leI)
  show ?thesis
  proof (cases "length left = length right")
    case True
    then show ?thesis by (simp add: magnitude_compare_def compare_down)
  next
    case False
    then consider "length left < length right" | "length right < length left" by linarith
    then show ?thesis
      by cases (use less assms in \<open>auto simp: magnitude_compare_def\<close>)
  qed
qed

section \<open>Addition and subtraction\<close>

text \<open>
  \<open>magnitude_add\<close> adds limb by limb over the longer operand, reading a missing limb of the
  shorter one as absent, and appends the last carry.
\<close>

fun add_loop :: "limb list \<Rightarrow> limb list \<Rightarrow> u64 \<Rightarrow> limb list \<times> u64" where
  "add_loop [] [] carry = ([], carry)"
| "add_loop (x # xs) [] carry =
     (let sum = carry + wide x; (rest, final) = add_loop xs [] (high_limb sum)
      in (low_limb sum # rest, final))"
| "add_loop [] (y # ys) carry =
     (let sum = carry + wide y; (rest, final) = add_loop [] ys (high_limb sum)
      in (low_limb sum # rest, final))"
| "add_loop (x # xs) (y # ys) carry =
     (let sum = carry + wide x + wide y; (rest, final) = add_loop xs ys (high_limb sum)
      in (low_limb sum # rest, final))"

definition magnitude_add :: "limb list \<Rightarrow> limb list \<Rightarrow> limb list" where
  "magnitude_add left right = append_carry (add_loop left right 0)"

lemma add_loop_step:
  assumes IH: "mag r + 2 ^ (32 * length r) * unat final = C + unat (high_limb (w :: u64))
      \<and> length r = n \<and> unat final \<le> 1"
  shows "mag (low_limb w # r) + 2 ^ (32 * length (low_limb w # r)) * unat final =
      4294967296 * C + unat w
      \<and> length (low_limb w # r) = Suc n \<and> unat final \<le> 1"
  using IH carry_step [of "mag r" "2 ^ (32 * length r)" "unat final" C "unat w"]
  by (auto simp: power_add)

lemma add_loop:
  "add_loop xs ys carry = (r, final) \<Longrightarrow> unat carry \<le> 1 \<Longrightarrow>
   mag r + 2 ^ (32 * length r) * unat final = mag xs + mag ys + unat carry
     \<and> length r = max (length xs) (length ys) \<and> unat final \<le> 1"
proof (induction xs ys carry arbitrary: r rule: add_loop.induct)
  case (1 carry)
  then show ?case by simp
next
  case (2 x xs carry)
  let ?s = "carry + wide x"
  have s: "unat ?s = unat carry + unat x"
    using 2(3) limb_lt [of x] by (simp add: unat_add_no_wrap)
  obtain r' where r': "add_loop xs [] (high_limb ?s) = (r', final)" and r: "r = low_limb ?s # r'"
    using 2(2) by (auto simp: Let_def split: prod.splits)
  have "unat (high_limb ?s) \<le> 1" using s 2(3) limb_lt [of x] by simp
  from 2(1) [OF refl r' this]
  have "mag r' + 2 ^ (32 * length r') * unat final = mag xs + unat (high_limb ?s)
      \<and> length r' = length xs \<and> unat final \<le> 1" by auto
  from add_loop_step [OF this] show ?case using r s by auto
next
  case (3 y ys carry)
  let ?s = "carry + wide y"
  have s: "unat ?s = unat carry + unat y"
    using 3(3) limb_lt [of y] by (simp add: unat_add_no_wrap)
  obtain r' where r': "add_loop [] ys (high_limb ?s) = (r', final)" and r: "r = low_limb ?s # r'"
    using 3(2) by (auto simp: Let_def split: prod.splits)
  have "unat (high_limb ?s) \<le> 1" using s 3(3) limb_lt [of y] by simp
  from 3(1) [OF refl r' this]
  have "mag r' + 2 ^ (32 * length r') * unat final = mag ys + unat (high_limb ?s)
      \<and> length r' = length ys \<and> unat final \<le> 1" by auto
  from add_loop_step [OF this] show ?case using r s by auto
next
  case (4 x xs y ys carry)
  let ?s = "carry + wide x + wide y"
  have s: "unat ?s = unat carry + unat x + unat y"
    using 4(3) limb_lt [of x] limb_lt [of y] by (simp add: unat_add_no_wrap)
  obtain r' where r': "add_loop xs ys (high_limb ?s) = (r', final)" and r: "r = low_limb ?s # r'"
    using 4(2) by (auto simp: Let_def split: prod.splits)
  have "unat (high_limb ?s) \<le> 1" using s 4(3) limb_lt [of x] limb_lt [of y] by simp
  from 4(1) [OF refl r' this]
  have "mag r' + 2 ^ (32 * length r') * unat final = (mag xs + mag ys) + unat (high_limb ?s)
      \<and> length r' = max (length xs) (length ys) \<and> unat final \<le> 1" by auto
  from add_loop_step [OF this] show ?case using r s by auto
qed

lemma mag_add [simp, mag_simps]: "mag (magnitude_add xs ys) = mag xs + mag ys"
proof -
  obtain r final where eq: "add_loop xs ys 0 = (r, final)" by fastforce
  from add_loop [OF eq] show ?thesis
    by (auto simp: magnitude_add_def eq mag_append_carry)
qed

lemma length_append_carry: "length (append_carry (r, c)) \<le> Suc (length r)"
  by (simp add: append_carry_def)

lemma length_magnitude_add: "length (magnitude_add xs ys) \<le> Suc (max (length xs) (length ys))"
proof -
  obtain r final where eq: "add_loop xs ys 0 = (r, final)" by fastforce
  from add_loop [OF eq] length_append_carry [of r final] show ?thesis
    by (auto simp: magnitude_add_def eq)
qed

text \<open>
  \<open>magnitude_subtract\<close> walks the limbs of the larger operand with a borrow; the difference
  \<open>value - subtrahend\<close> is taken modulo \<open>2 ^ 64\<close> and truncated to a limb.
\<close>

fun subtract_loop :: "limb list \<Rightarrow> limb list \<Rightarrow> u64 \<Rightarrow> limb list" where
  "subtract_loop [] ys borrow = []"
| "subtract_loop (x # xs) ys borrow =
     (let subtrahend = wide (case ys of [] \<Rightarrow> 0 | y # _ \<Rightarrow> y) + borrow;
          val = wide x
      in low_limb (val - subtrahend) #
         subtract_loop xs (drop 1 ys) (if val < subtrahend then 1 else 0))"

definition magnitude_subtract :: "limb list \<Rightarrow> limb list \<Rightarrow> limb list" where
  "magnitude_subtract larger smaller = normalize (subtract_loop larger smaller 0)"

lemma unat_low_diff:
  fixes v s :: u64
  assumes "unat v < 4294967296" and "unat s \<le> 4294967296"
  shows "unat (low_limb (v - s)) + unat s = unat v + (if v < s then 4294967296 else 0)"
proof (cases "v < s")
  case True
  then have lt: "unat v < unat s" by (simp add: word_less_nat_alt)
  then have "unat (v - s) = unat v + 18446744073709551616 - unat s"
    by (subst unat_sub_if_size) (simp add: word_size)
  also have "\<dots> = (unat v + 4294967296 - unat s) + 4294967295 * 4294967296"
    using assms lt by linarith
  finally have "unat (low_limb (v - s)) = (unat v + 4294967296 - unat s) mod 4294967296"
    by (simp only: unat_low mod_mult_self1)
  also have "\<dots> = unat v + 4294967296 - unat s" using lt assms by simp
  finally show ?thesis using assms lt True by simp
next
  case False
  then have ge: "unat s \<le> unat v" by (simp add: word_less_nat_alt not_less)
  then have "unat (v - s) = unat v - unat s" by (subst unat_sub_if_size) simp
  with ge assms False show ?thesis by simp
qed

lemma subtract_loop:
  "mag ys + unat b \<le> mag xs \<Longrightarrow> unat b \<le> 1 \<Longrightarrow> length ys \<le> length xs \<Longrightarrow>
   mag (subtract_loop xs ys b) + mag ys + unat b = mag xs"
proof (induction xs arbitrary: ys b)
  case Nil
  then show ?case by simp
next
  case (Cons x xs)
  define y where "y = (case ys of [] \<Rightarrow> 0 | y # _ \<Rightarrow> y)"
  have ys: "mag ys = unat y + 4294967296 * mag (drop 1 ys)"
    by (cases ys) (auto simp: y_def)
  let ?s = "wide y + b"
  let ?b = "(if wide x < ?s then 1 else 0) :: u64"
  have s: "unat ?s = unat y + unat b"
    using Cons.prems(2) limb_lt [of y] by (simp add: unat_add_no_wrap)
  have low: "unat (low_limb (wide x - ?s)) + (unat y + unat b) =
      unat x + 4294967296 * unat ?b"
    using unat_low_diff [of "wide x" ?s] limb_lt [of x] limb_lt [of y] Cons.prems(2)
    by (simp add: s)
  have "unat x + 4294967296 * unat ?b < 4294967296 + (unat y + unat b)"
    using low limb_lt [of "low_limb (wide x - ?s)"] by linarith
  then have le: "mag (drop 1 ys) + unat ?b \<le> mag xs"
    using Cons.prems(1) ys by simp
  have "mag (subtract_loop xs (drop 1 ys) ?b) + mag (drop 1 ys) + unat ?b = mag xs"
    using Cons.prems(3) by (intro Cons.IH [OF le]) auto
  moreover have "mag (subtract_loop (x # xs) ys b) = unat (low_limb (wide x - ?s)) +
      4294967296 * mag (subtract_loop xs (drop 1 ys) ?b)"
    by (simp only: subtract_loop.simps Let_def y_def mag.simps)
  ultimately show ?case using low ys unfolding mag.simps by linarith
qed

lemma length_subtract_loop: "length (subtract_loop xs ys b) = length xs"
  by (induction xs arbitrary: ys b) (auto simp: Let_def)

lemma mag_subtract [simp, mag_simps]:
  "mag ys \<le> mag xs \<Longrightarrow> length ys \<le> length xs \<Longrightarrow>
   mag (magnitude_subtract xs ys) = mag xs - mag ys"
  using subtract_loop [of ys 0 xs] by (simp add: magnitude_subtract_def eq_diff_iff)

lemma length_magnitude_subtract: "length (magnitude_subtract xs ys) \<le> length xs"
  using length_normalize_le [of "subtract_loop xs ys 0"]
  by (simp add: magnitude_subtract_def length_subtract_loop)


section \<open>Multiplication\<close>

text \<open>
  \<open>magnitude_multiply\<close> zeroes \<open>left_count + right_count\<close> limbs and accumulates one row per
  left limb: the inner loop adds \<open>left[i] * right[j]\<close> into \<open>result[i + j]\<close>, and the row's last
  carry is stored at \<open>result[i + right_count]\<close>. Index \<open>k\<close> below is \<open>i + j\<close>.
\<close>

fun multiply_row :: "limb \<Rightarrow> limb list \<Rightarrow> nat \<Rightarrow> u64 \<Rightarrow> limb list \<Rightarrow> limb list" where
  "multiply_row x [] k carry result = result[k := low_limb carry]"
| "multiply_row x (y # right) k carry result =
     (let product = wide x * wide y + wide (result ! k) + carry
      in multiply_row x right (Suc k) (high_limb product) (result[k := low_limb product]))"

fun multiply_rows :: "limb list \<Rightarrow> limb list \<Rightarrow> nat \<Rightarrow> limb list \<Rightarrow> limb list" where
  "multiply_rows [] right i result = result"
| "multiply_rows (x # left) right i result =
     multiply_rows left right (Suc i) (multiply_row x right i 0 result)"

text \<open>
  The null result of the source (one operand empty, or a count whose size in bytes overflows) is
  \<open>None\<close>; in the former case the source also sets the count to zero.
\<close>

definition magnitude_multiply :: "limb list \<Rightarrow> limb list \<Rightarrow> limb list option" where
  "magnitude_multiply left right =
     (if left = [] \<or> right = [] then None
      else if length left > SIZE_MAX - length right \<or>
        length left + length right > SIZE_MAX div 4 then None
      else Some (normalize
        (multiply_rows left right 0 (replicate (length left + length right) 0))))"

text \<open>The same row on the limbs it touches only.\<close>

fun row_limbs :: "limb \<Rightarrow> limb list \<Rightarrow> u64 \<Rightarrow> limb list \<Rightarrow> limb list" where
  "row_limbs x [] carry ds = [low_limb carry]"
| "row_limbs x (y # right) carry ds =
     (let product = wide x * wide y + wide (hd ds) + carry
      in low_limb product # row_limbs x right (high_limb product) (tl ds))"

lemma length_row_limbs [simp]: "length (row_limbs x ys c ds) = Suc (length ys)"
  by (induction ys arbitrary: c ds) (auto simp: Let_def)

lemma multiply_row_limbs:
  "length ds = length ys \<Longrightarrow>
   multiply_row x ys (length pre) c (pre @ ds @ e # post) = pre @ row_limbs x ys c ds @ post"
proof (induction ys arbitrary: pre c ds)
  case Nil
  then show ?case by simp
next
  case (Cons y ys)
  then obtain d ds' where ds: "ds = d # ds'" by (cases ds) auto
  let ?p = "wide x * wide y + wide d + c"
  have "multiply_row x ys (length (pre @ [low_limb ?p])) (high_limb ?p)
      ((pre @ [low_limb ?p]) @ ds' @ e # post) =
      (pre @ [low_limb ?p]) @ row_limbs x ys (high_limb ?p) ds' @ post"
    using Cons.prems ds by (intro Cons.IH) simp
  with ds show ?case by (simp add: Let_def nth_append)
qed

lemma row_limbs:
  "length ds = length ys \<Longrightarrow> unat c < 4294967296 \<Longrightarrow>
   mag (row_limbs x ys c ds) = unat x * mag ys + mag ds + unat c"
proof (induction ys arbitrary: c ds)
  case Nil
  then show ?case by simp
next
  case (Cons y ys)
  then obtain d ds' where ds: "ds = d # ds'" by (cases ds) auto
  let ?c = "wide d + c"
  let ?p = "wide x * wide y + wide d + c"
  have c: "unat ?c = unat d + unat c"
    using Cons.prems(2) limb_lt [of d] by (simp add: unat_add_no_wrap)
  then have le: "unat ?c \<le> 8589934590" using Cons.prems(2) limb_lt [of d] by simp
  have p: "unat ?p = unat x * unat y + unat d + unat c"
    using unat_product [OF le, of x y] c by (simp add: add.assoc)
  have "unat (high_limb ?p) < 4294967296"
    using high_product_lt [OF le, of x y] by (simp add: add.assoc)
  then have "mag (row_limbs x ys (high_limb ?p) ds') =
      unat x * mag ys + mag ds' + unat ?p div 4294967296"
    using Cons ds by simp
  then have "mag (row_limbs x (y # ys) c ds) =
      4294967296 * (unat x * mag ys + mag ds') + unat ?p"
    using carry_step [of "mag (row_limbs x ys (high_limb ?p) ds')" 0 0
      "unat x * mag ys + mag ds'" "unat ?p"] ds by (simp add: Let_def)
  with p ds show ?case by (simp add: algebra_simps)
qed

text \<open>
  Before row \<open>i\<close> the limbs at \<open>i + right_count\<close> and above are still zero, so storing the row's
  carry there loses nothing.
\<close>

lemma multiply_row_step:
  assumes len: "length result = i + length right + Suc n"
    and zero: "mag (drop (i + length right) result) = 0"
  shows "mag (multiply_row x right i 0 result) = mag result + 2 ^ (32 * i) * (unat x * mag right)
    \<and> length (multiply_row x right i 0 result) = length result
    \<and> mag (drop (Suc i + length right) (multiply_row x right i 0 result)) = 0"
proof -
  define pre where "pre = take i result"
  define ds where "ds = take (length right) (drop i result)"
  obtain e post where ep: "drop (i + length right) result = e # post"
    using len by (cases "drop (i + length right) result") auto
  have res: "result = pre @ ds @ e # post"
    using append_take_drop_id [of i result] append_take_drop_id [of "length right" "drop i result"] ep
    by (simp add: pre_def ds_def add.commute)
  have lp: "length pre = i" and ld: "length ds = length right"
    using len by (auto simp: pre_def ds_def)
  have e0: "unat e = 0" and p0: "mag post = 0"
    using zero ep by auto
  have row: "multiply_row x right i 0 result = pre @ row_limbs x right 0 ds @ post"
    using multiply_row_limbs [OF ld, of x pre 0 e post] res lp by simp
  have "mag (row_limbs x right 0 ds) = unat x * mag right + mag ds"
    using row_limbs [OF ld, of 0 x] by simp
  then have "mag (multiply_row x right i 0 result) =
      mag result + 2 ^ (32 * i) * (unat x * mag right)"
    unfolding row using e0 p0 res lp by (simp add: algebra_simps)
  moreover have "drop (Suc i + length right) (multiply_row x right i 0 result) = post"
    unfolding row using lp by simp
  ultimately show ?thesis using p0 lp ld res row by simp
qed

lemma multiply_rows:
  "length result = i + length left + length right \<Longrightarrow>
   mag (drop (i + length right) result) = 0 \<Longrightarrow>
   mag (multiply_rows left right i result) = mag result + 2 ^ (32 * i) * (mag left * mag right)
   \<and> length (multiply_rows left right i result) = length result"
proof (induction left arbitrary: i result)
  case Nil
  then show ?case by simp
next
  case (Cons x left)
  let ?r = "multiply_row x right i 0 result"
  have len: "length result = i + length right + Suc (length left)"
    using Cons.prems(1) by simp
  note row = multiply_row_step [OF len Cons.prems(2), of x]
  have "mag (multiply_rows left right (Suc i) ?r) =
      mag ?r + 2 ^ (32 * Suc i) * (mag left * mag right)
      \<and> length (multiply_rows left right (Suc i) ?r) = length ?r"
    using row len by (intro Cons.IH) auto
  with row show ?case by (simp add: power_add algebra_simps)
qed

lemma magnitude_multiply:
  assumes "magnitude_multiply xs ys = Some zs"
  shows "mag zs = mag xs * mag ys" and "normalized zs" and "length zs \<le> length xs + length ys"
proof -
  let ?r = "multiply_rows xs ys 0 (replicate (length xs + length ys) 0)"
  have zs: "zs = normalize ?r" using assms by (auto simp: magnitude_multiply_def split: if_splits)
  have "mag ?r = mag xs * mag ys \<and> length ?r = length xs + length ys"
    using multiply_rows [of "replicate (length xs + length ys) 0" 0 xs ys] by simp
  then show "mag zs = mag xs * mag ys" "normalized zs" "length zs \<le> length xs + length ys"
    using zs length_normalize_le [of ?r] by auto
qed

lemma magnitude_multiply_Some:
  "xs \<noteq> [] \<Longrightarrow> ys \<noteq> [] \<Longrightarrow> length xs + length ys \<le> SIZE_MAX div 4 \<Longrightarrow>
   \<exists>zs. magnitude_multiply xs ys = Some zs"
  by (simp add: magnitude_multiply_def SIZE_MAX_def)


section \<open>Widths\<close>

text \<open>The compiler builtin \<open>__builtin_clz\<close> on a nonzero 32-bit value.\<close>

definition builtin_clz :: "limb \<Rightarrow> nat" where
  "builtin_clz x = 32 - bit_length (unat x)"

definition magnitude_width :: "limb list \<Rightarrow> nat" where
  "magnitude_width limbs =
     (if limbs = [] then 0
      else if length limbs - 1 > (SIZE_MAX - 32) div 32 then SIZE_MAX
      else (length limbs - 1) * 32 + (32 - builtin_clz (last limbs)))"

lemma bit_length_limb: "bit_length (unat (x :: limb)) \<le> 32"
  using limb_lt [of x] by (simp add: bit_length_le_iff)

lemma clz_width: "32 - builtin_clz x = bit_length (unat x)"
  using bit_length_limb [of x] by (simp add: builtin_clz_def)

lemma bit_length_top:
  assumes "a < 2 ^ k" and "0 < x"
  shows "bit_length (a + 2 ^ k * x) = k + bit_length x"
proof -
  obtain b where b: "bit_length x = Suc b" using assms(2) by (cases "bit_length x") auto
  then have lo: "2 ^ b \<le> x" and hi: "x < 2 ^ Suc b"
    using bit_length_less_iff [of b x] bit_length_le_iff [of x "Suc b"] by auto
  have "2 ^ (k + b) \<le> a + 2 ^ k * x"
    using lo by (simp add: power_add trans_le_add2)
  moreover have "a + 2 ^ k * x < 2 ^ Suc (k + b)"
    using compare_top_limb [OF assms(1) hi, of 0] by (simp add: power_add algebra_simps)
  ultimately have "bit_length (a + 2 ^ k * x) = Suc (k + b)" by (rule bit_length_eqI)
  with b show ?thesis by simp
qed

lemma bit_length_mag:
  assumes "normalized xs" and "xs \<noteq> []"
  shows "bit_length (mag xs) = (length xs - 1) * 32 + bit_length (unat (last xs))"
proof -
  from assms(2) obtain ys y where xs: "xs = ys @ [y]" by (metis rev_exhaust)
  with assms(1) have "0 < unat y" by (simp add: unat_gt_0)
  with mag_bound [of ys] xs show ?thesis by (simp add: bit_length_top)
qed

lemma magnitude_width:
  assumes "normalized xs" and "length xs \<le> SIZE_MAX div 32"
  shows "magnitude_width xs = bit_length (mag xs)"
  using assms by (auto simp: magnitude_width_def bit_length_mag clz_width SIZE_MAX_def)

text \<open>Any width short of \<open>SIZE_MAX\<close> is exact.\<close>

lemma magnitude_width_exact:
  "normalized xs \<Longrightarrow> magnitude_width xs \<noteq> SIZE_MAX \<Longrightarrow> magnitude_width xs = bit_length (mag xs)"
  by (auto simp: magnitude_width_def bit_length_mag clz_width split: if_splits)

fun power_of_two_scan :: "limb list \<Rightarrow> bool \<Rightarrow> bool" where
  "power_of_two_scan [] found = found"
| "power_of_two_scan (v # vs) found =
     (if v = 0 then power_of_two_scan vs found
      else if found \<or> v AND (v - 1) \<noteq> 0 then False
      else power_of_two_scan vs True)"

definition magnitude_is_power_of_two :: "limb list \<Rightarrow> bool" where
  "magnitude_is_power_of_two limbs = power_of_two_scan limbs False"

lemma nat_and_pred: "0 < n \<Longrightarrow> n AND (n - 1) = 0 \<longleftrightarrow> (\<exists>k. n = 2 ^ k)" for n :: nat
proof (induction n rule: bit_length.induct)
  case (1 n)
  show ?case
  proof (cases "even n")
    case True
    then obtain m where n: "n = 2 * m" by blast
    with "1.prems" have m: "0 < m" "m < n" by auto
    have "n AND (n - 1) = 2 * (m AND (m - 1))"
    proof -
      have "(n - 1) div 2 = m - 1" using n m by linarith
      then show ?thesis using n m by (subst and_rec) simp
    qed
    moreover have "m AND (m - 1) = 0 \<longleftrightarrow> (\<exists>k. m = 2 ^ k)"
      using "1.IH" m n by auto
    moreover have "(\<exists>k. n = 2 ^ k) \<longleftrightarrow> (\<exists>k. m = 2 ^ k)"
    proof
      assume "\<exists>k. n = 2 ^ k"
      then obtain k where k: "n = 2 ^ k" by blast
      with True have "k \<noteq> 0" by (intro notI) simp
      then obtain j where "k = Suc j" by (cases k) auto
      with k n show "\<exists>k. m = 2 ^ k" by auto
    next
      assume "\<exists>k. m = 2 ^ k"
      with n show "\<exists>k. n = 2 ^ k" by (metis power_Suc)
    qed
    ultimately show ?thesis by simp
  next
    case False
    then obtain m where n: "n = Suc (2 * m)" by (auto elim: oddE)
    have "n AND (n - 1) = 2 * m" using n by (subst and_rec) simp
    moreover have "(\<exists>k. n = 2 ^ k) \<longleftrightarrow> m = 0"
    proof
      assume "\<exists>k. n = 2 ^ k"
      then obtain k where "n = 2 ^ k" by blast
      with False have "k = 0" by (metis even_power even_numeral neq0_conv)
      with \<open>n = 2 ^ k\<close> n show "m = 0" by simp
    next
      assume "m = 0"
      with n show "\<exists>k. n = 2 ^ k" by (intro exI [of _ 0]) simp
    qed
    ultimately show ?thesis by simp
  qed
qed

lemma limb_and_pred: "v \<noteq> 0 \<Longrightarrow> v AND (v - 1) = 0 \<longleftrightarrow> (\<exists>k. unat v = 2 ^ k)" for v :: limb
proof -
  assume v: "v \<noteq> 0"
  then have pos: "0 < unat v" by (simp add: unat_gt_0)
  then have "unat (v - 1) = unat v - 1" by (subst unat_sub_if_size) simp
  then have "unat (v AND (v - 1)) = unat v AND (unat v - 1)" by (simp add: unsigned_and_eq)
  then have "v AND (v - 1) = 0 \<longleftrightarrow> unat v AND (unat v - 1) = 0"
    by (metis unat_eq_zero)
  then show ?thesis using nat_and_pred [OF pos] by simp
qed

lemma power_of_two_scan_True: "power_of_two_scan vs True \<longleftrightarrow> mag vs = 0"
  by (induction vs) (auto simp: unat_eq_zero)

lemma power_of_two_scan_False: "power_of_two_scan vs False \<longleftrightarrow> (\<exists>k. mag vs = 2 ^ k)"
proof (induction vs)
  case Nil
  then show ?case by simp
next
  case (Cons v vs)
  show ?case
  proof (cases "v = 0")
    case True
    have "(\<exists>k. mag vs = 2 ^ k) \<longleftrightarrow> (\<exists>k. 4294967296 * mag vs = 2 ^ k)"
    proof
      assume "\<exists>k. mag vs = 2 ^ k"
      then obtain k where "mag vs = 2 ^ k" by blast
      then have "4294967296 * mag vs = 2 ^ (32 + k)" by (simp add: power_add)
      then show "\<exists>k. 4294967296 * mag vs = 2 ^ k" by blast
    next
      assume "\<exists>k. 4294967296 * mag vs = 2 ^ k"
      then obtain k where k: "4294967296 * mag vs = 2 ^ k" by blast
      then have "mag vs \<noteq> 0" by (intro notI) simp
      then have "2 ^ 32 \<le> (2::nat) ^ k" using k by simp
      then have "32 \<le> k" by (simp only: power_increasing_iff)
      then obtain j where "k = 32 + j" by (metis le_Suc_ex)
      with k show "\<exists>k. mag vs = 2 ^ k" by (auto simp: power_add)
    qed
    with True Cons show ?thesis by simp
  next
    case False
    have "(\<exists>k. unat v + 4294967296 * mag vs = 2 ^ k) \<longleftrightarrow> mag vs = 0 \<and> (\<exists>k. unat v = 2 ^ k)"
    proof
      assume "\<exists>k. unat v + 4294967296 * mag vs = 2 ^ k"
      then obtain k where k: "unat v + 4294967296 * mag vs = 2 ^ k" by blast
      have "k < 32"
      proof (rule ccontr)
        assume "\<not> k < 32"
        then obtain j where "k = 32 + j" by (metis le_Suc_ex not_less)
        then have "(unat v + 4294967296 * mag vs) mod 4294967296 = 0"
          using k by (simp add: power_add)
        then show False using limb_lt [of v] False by (simp add: unat_eq_zero)
      qed
      then have "(2::nat) ^ k < 2 ^ 32" by (simp only: power_strict_increasing_iff)
      with k have "mag vs = 0" by simp
      with k show "mag vs = 0 \<and> (\<exists>k. unat v = 2 ^ k)" by auto
    qed auto
    with False show ?thesis by (auto simp: power_of_two_scan_True limb_and_pred)
  qed
qed

lemma magnitude_is_power_of_two: "magnitude_is_power_of_two xs \<longleftrightarrow> (\<exists>k. mag xs = 2 ^ k)"
  by (simp add: magnitude_is_power_of_two_def power_of_two_scan_False)


section \<open>Shifts\<close>

text \<open>
  \<open>pigen_integer_shift_left\<close> ORs each limb, shifted by the bit part of the amount, into two
  adjacent limbs of a zeroed result.
\<close>

fun shift_left_loop :: "limb list \<Rightarrow> nat \<Rightarrow> nat \<Rightarrow> limb list \<Rightarrow> limb list" where
  "shift_left_loop [] bit_shift k result = result"
| "shift_left_loop (x # source) bit_shift k result =
     (let shifted = push_bit bit_shift (wide x);
          result1 = result[k := result ! k OR low_limb shifted];
          result2 = (if bit_shift \<noteq> 0
            then result1[Suc k := result1 ! Suc k OR low_limb (high_limb shifted)] else result1)
      in shift_left_loop source bit_shift (Suc k) result2)"

definition magnitude_shift_left :: "limb list \<Rightarrow> nat \<Rightarrow> limb list" where
  "magnitude_shift_left source amount =
     (let word_shift = amount div 32; bit_shift = amount mod 32;
          count = length source + word_shift + (if bit_shift \<noteq> 0 then 1 else 0)
      in shift_left_loop source bit_shift word_shift (replicate count 0))"

lemma nat_or_disjoint:
  fixes a b :: nat
  assumes "a < 2 ^ k" and "2 ^ k dvd b"
  shows "a OR b = a + b"
proof -
  from assms(2) obtain c where b: "b = push_bit k c" by (auto simp: push_bit_eq_mult mult.commute)
  have a: "a = take_bit k a" using take_bit_nat_eq_self [OF assms(1)] by simp
  have "a + b = a OR b"
  proof (rule disjunctive_add_eq_or)
    show "a AND b = 0"
      by (subst a, rule bit_eqI) (auto simp: b bit_simps)
  qed
  then show ?thesis by simp
qed

lemma unat_or_disjoint:
  fixes a b :: "'a::len word"
  assumes "unat a < 2 ^ k" and "2 ^ k dvd unat b"
  shows "unat (a OR b) = unat a + unat b"
  by (simp add: unsigned_or_eq nat_or_disjoint [OF assms])

lemma unat_push_limb:
  assumes "k < 32"
  shows "unat (push_bit k (wide x)) = unat x * 2 ^ k"
proof -
  have "unat x * 2 ^ k < 4294967296 * 2 ^ k" using limb_lt [of x] by simp
  also have "\<dots> \<le> 4294967296 * 2 ^ 31" using assms by (intro mult_le_mono2 power_increasing) auto
  finally have "unat x * 2 ^ k < 18446744073709551616" by simp
  then show ?thesis
    by (subst unsigned_push_bit_eq) (simp add: push_bit_eq_mult take_bit_nat_eq_self_iff)
qed

lemma low_push_dvd:
  assumes "k < 32"
  shows "2 ^ k dvd unat (low_limb (push_bit k (wide x)))"
proof -
  have "(2::nat) ^ k dvd 2 ^ 32" using assms by (intro le_imp_power_dvd) simp
  then have "2 ^ k dvd (unat x * 2 ^ k) mod 4294967296" by (intro dvd_mod) auto
  then show ?thesis using assms by (simp add: unat_push_limb)
qed

lemma high_push_lt:
  assumes "k < 32"
  shows "unat (high_limb (push_bit k (wide x))) < 2 ^ k"
  using assms limb_lt [of x] by (simp add: unat_push_limb div_less_iff_less_mult)

lemma shift_left_bits:
  assumes "0 < k" and "k < 32"
  shows "unat e < 2 ^ k \<Longrightarrow>
    mag (shift_left_loop xs k (length pre) (pre @ e # replicate (length xs) 0)) =
    mag pre + 2 ^ (32 * length pre) * (unat e + 2 ^ k * mag xs)"
proof (induction xs arbitrary: pre e)
  case Nil
  then show ?case by simp
next
  case (Cons x xs)
  let ?s = "push_bit k (wide x)"
  let ?lo = "e OR low_limb ?s" and ?hi = "low_limb (high_limb ?s)"
  have lo: "unat ?lo = unat e + unat (low_limb ?s)"
    using Cons.prems low_push_dvd [OF assms(2)] by (rule unat_or_disjoint)
  have "(2::nat) ^ k < 4294967296"
    using power_strict_increasing [of k 32 "2::nat"] assms(2) by simp
  then have hi: "unat ?hi = unat (high_limb ?s)" and hlt: "unat ?hi < 2 ^ k"
    using high_push_lt [OF assms(2), of x] unat_low [of "high_limb ?s"] by simp_all
  have step: "shift_left_loop (x # xs) k (length pre) (pre @ e # replicate (length (x # xs)) 0) =
      shift_left_loop xs k (length (pre @ [?lo])) ((pre @ [?lo]) @ ?hi # replicate (length xs) 0)"
    using assms(1) by (simp add: Let_def nth_append list_update_append)
  have "unat e + unat (low_limb ?s) + 4294967296 * unat ?hi = unat e + 2 ^ k * unat x"
    using limb_split [of ?s] hi unat_push_limb [OF assms(2), of x] by (simp add: mult.commute)
  then have "mag pre + 2 ^ (32 * length pre) *
      (unat e + unat (low_limb ?s) + 4294967296 * unat ?hi + 4294967296 * (2 ^ k * mag xs)) =
      mag pre + 2 ^ (32 * length pre) * (unat e + 2 ^ k * mag (x # xs))"
    by (simp add: algebra_simps)
  with Cons.IH [OF hlt, of "pre @ [?lo]"] lo show ?case
    unfolding step by (simp add: power_add algebra_simps)
qed

lemma shift_left_words:
  "shift_left_loop xs 0 (length pre) (pre @ replicate (length xs) 0) = pre @ xs"
proof (induction xs arbitrary: pre)
  case Nil
  then show ?case by simp
next
  case (Cons x xs)
  have "shift_left_loop xs 0 (length (pre @ [x])) ((pre @ [x]) @ replicate (length xs) 0) =
      (pre @ [x]) @ xs" by (rule Cons.IH)
  then show ?case by (simp add: Let_def nth_append)
qed

lemma mag_shift_left [simp, mag_simps]:
  "mag (magnitude_shift_left xs amount) = mag xs * 2 ^ amount"
proof -
  let ?w = "amount div 32" and ?b = "amount mod 32"
  have am: "2 ^ (32 * ?w) * (2 ^ ?b :: nat) = 2 ^ amount"
    by (simp add: power_add [symmetric])
  show ?thesis
  proof (cases "?b = 0")
    case True
    have "mag (magnitude_shift_left xs amount) = 2 ^ (32 * ?w) * mag xs"
      using shift_left_words [of xs "replicate ?w 0"] True
      by (simp add: magnitude_shift_left_def replicate_add add.commute)
    with am True show ?thesis by (simp add: mult.commute)
  next
    case False
    have "replicate (length xs + ?w + 1) (0 :: limb) = replicate ?w 0 @ 0 # replicate (length xs) 0"
      by (simp add: replicate_add [symmetric] replicate_app_Cons_same add.commute)
    then have "mag (magnitude_shift_left xs amount) = 2 ^ (32 * ?w) * (2 ^ ?b * mag xs)"
      using shift_left_bits [of ?b 0 xs "replicate ?w 0"] False
      by (simp add: magnitude_shift_left_def Let_def)
    then have "mag (magnitude_shift_left xs amount) = 2 ^ amount * mag xs"
      by (simp only: am [symmetric] mult.assoc)
    then show ?thesis by (simp only: mult.commute)
  qed
qed

lemma length_shift_left_loop [simp]: "length (shift_left_loop xs b k r) = length r"
  by (induction xs arbitrary: k r) (auto simp: Let_def)

lemma length_shift_left:
  "length (magnitude_shift_left xs amount) =
     length xs + amount div 32 + (if amount mod 32 \<noteq> 0 then 1 else 0)"
  by (simp add: magnitude_shift_left_def Let_def)


text \<open>
  \<open>magnitude_shift_right\<close> drops the low bits in place, remembers whether a nonzero bit was
  discarded and, when asked to round up, adds one with the carry loop of
  \<open>magnitude_add_small\<close>. Limb \<open>i\<close> is written after limbs \<open>i + word_shift\<close> and
  \<open>i + word_shift + 1\<close> have been read.
\<close>

definition shifted_limb :: "nat \<Rightarrow> nat \<Rightarrow> limb list \<Rightarrow> nat \<Rightarrow> limb" where
  "shifted_limb word_shift bit_shift limbs i =
     (let val = wide (limbs ! (i + word_shift));
          val' = (if bit_shift \<noteq> 0 \<and> i + word_shift + 1 < length limbs
            then val OR push_bit 32 (wide (limbs ! (i + word_shift + 1))) else val)
      in low_limb (drop_bit bit_shift val'))"

fun shift_right_loop :: "nat \<Rightarrow> nat \<Rightarrow> nat \<Rightarrow> nat \<Rightarrow> limb list \<Rightarrow> limb list" where
  "shift_right_loop 0 i word_shift bit_shift limbs = limbs"
| "shift_right_loop (Suc n) i word_shift bit_shift limbs =
     shift_right_loop n (Suc i) word_shift bit_shift
       (limbs[i := shifted_limb word_shift bit_shift limbs i])"

definition discarded_bits :: "limb list \<Rightarrow> nat \<Rightarrow> bool" where
  "discarded_bits limbs amount =
     (let word_shift = amount div 32; bit_shift = amount mod 32
      in (\<exists>x \<in> set (take word_shift limbs). x \<noteq> 0) \<or>
         (bit_shift \<noteq> 0 \<and> word_shift < length limbs \<and>
          limbs ! word_shift AND (push_bit bit_shift 1 - 1) \<noteq> 0))"

definition magnitude_shift_right :: "limb list \<Rightarrow> nat \<Rightarrow> bool \<Rightarrow> limb list" where
  "magnitude_shift_right limbs amount round_up =
     (let word_shift = amount div 32; bit_shift = amount mod 32;
          discarded = discarded_bits limbs amount;
          shifted = (if word_shift \<ge> length limbs then []
            else let result_count = length limbs - word_shift
              in normalize (take result_count
                (shift_right_loop result_count 0 word_shift bit_shift limbs)))
      in if round_up \<and> discarded
         then let rounded = append_carry (add_small_loop shifted 1)
              in (if rounded = [] then [1] else rounded)
         else shifted)"

lemma length_shift_right_loop [simp]: "length (shift_right_loop n i w b limbs) = length limbs"
  by (induction n arbitrary: i limbs) auto

lemma nth_shift_right_loop_other:
  "j < i \<Longrightarrow> shift_right_loop n i w b limbs ! j = limbs ! j"
  by (induction n arbitrary: i limbs) auto

lemma shifted_limb_later:
  "i < j \<Longrightarrow> shifted_limb w b (limbs[i := v]) j = shifted_limb w b limbs j"
  by (simp add: shifted_limb_def Let_def)

lemma nth_shift_right_loop:
  "i + n \<le> length limbs \<Longrightarrow> i \<le> j \<Longrightarrow> j < i + n \<Longrightarrow>
   shift_right_loop n i w b limbs ! j = shifted_limb w b limbs j"
proof (induction n arbitrary: i limbs)
  case 0
  then show ?case by simp
next
  case (Suc n)
  show ?case
  proof (cases "j = i")
    case True
    with Suc.prems show ?thesis by (simp add: nth_shift_right_loop_other)
  next
    case False
    with Suc.prems Suc.IH [of "Suc i" "limbs[i := shifted_limb w b limbs i]"] show ?thesis
      by (simp add: shifted_limb_later)
  qed
qed

lemma take_shift_right_loop:
  assumes "n \<le> length limbs"
  shows "take n (shift_right_loop n 0 w b limbs) = map (shifted_limb w b limbs) [0..<n]"
  by (rule nth_equalityI) (use assms in \<open>auto simp: nth_shift_right_loop\<close>)

text \<open>The window of two limbs, as a number.\<close>

lemma unat_window:
  "unat (wide x OR push_bit 32 (wide y)) = unat x + 4294967296 * unat y"
proof -
  have "unat y * 4294967296 < 18446744073709551616" using limb_lt [of y] by simp
  then have y: "unat (push_bit 32 (wide y)) = unat y * 4294967296"
    by (subst unsigned_push_bit_eq) (simp add: push_bit_eq_mult take_bit_nat_eq_self_iff)
  have "unat (wide x OR push_bit 32 (wide y)) = unat (wide x) + unat (push_bit 32 (wide y))"
    by (rule unat_or_disjoint [of _ 32]) (use limb_lt [of x] y in auto)
  with y show ?thesis by simp
qed

lemma unat_drop_bits: "unat (drop_bit k (p :: u64)) = unat p div 2 ^ k"
  by (subst unat_drop_bit_eq) (simp add: drop_bit_eq_div)

fun shift_bits :: "nat \<Rightarrow> limb list \<Rightarrow> limb list" where
  "shift_bits b [] = []"
| "shift_bits b (x # xs) = low_limb (drop_bit b (case xs of
      [] \<Rightarrow> wide x | y # _ \<Rightarrow> if b \<noteq> 0 then wide x OR push_bit 32 (wide y) else wide x))
      # shift_bits b xs"

lemma shift_bits_map:
  "shift_bits b xs = map (shifted_limb 0 b xs) [0..<length xs]"
proof (induction xs)
  case Nil
  then show ?case by simp
next
  case (Cons x xs)
  have "map (shifted_limb 0 b (x # xs)) [0..<length (x # xs)] =
      shifted_limb 0 b (x # xs) 0 # map (\<lambda>i. shifted_limb 0 b (x # xs) (Suc i)) [0..<length xs]"
    by (simp add: upt_conv_Cons map_Suc_upt [symmetric] comp_def del: upt_Suc)
  also have "map (\<lambda>i. shifted_limb 0 b (x # xs) (Suc i)) [0..<length xs] =
      map (shifted_limb 0 b xs) [0..<length xs]"
    by (auto simp: shifted_limb_def Let_def)
  finally show ?case
    using Cons by (cases xs) (auto simp: shifted_limb_def Let_def)
qed

lemma shifted_limb_drop:
  "i + w < length limbs \<Longrightarrow> shifted_limb w b limbs i = shifted_limb 0 b (drop w limbs) i"
  by (simp add: shifted_limb_def Let_def add.commute less_diff_conv)

lemma mag_div_exp:
  assumes "b < 32"
  shows "mag (shift_bits b xs) = mag xs div 2 ^ b"
proof (induction xs)
  case Nil
  then show ?case by simp
next
  case (Cons x xs)
  define w where "w = unat x + 4294967296 * (case xs of [] \<Rightarrow> 0 | y # _ \<Rightarrow> unat y)"
  let ?N = "mag (x # xs)"
  obtain m where m: "?N = w + 2 ^ 64 * m"
    by (cases xs) (auto simp: w_def intro: that [of 0] that)
  have two: "(2::nat) ^ 64 = 2 ^ b * (4294967296 * 2 ^ (32 - b))"
  proof -
    have "(2::nat) ^ 64 = 2 ^ (b + (32 + (32 - b)))" using assms by simp
    then show ?thesis by (simp only: power_add) simp
  qed
  have hd: "unat (hd (shift_bits b (x # xs))) = w div 2 ^ b mod 4294967296"
    by (cases xs) (auto simp: w_def unat_drop_bits unat_window)
  have "?N div 2 ^ b mod 4294967296 = w div 2 ^ b mod 4294967296"
    unfolding m two by (simp add: mult.assoc)
  moreover have "?N div 2 ^ b div 4294967296 = mag xs div 2 ^ b"
  proof -
    have "?N div 2 ^ b div 4294967296 = ?N div (2 ^ b * 4294967296)"
      by (simp only: div_mult2_eq)
    also have "\<dots> = ?N div (4294967296 * 2 ^ b)" by (simp only: mult.commute)
    also have "\<dots> = ?N div 4294967296 div 2 ^ b" by (simp only: div_mult2_eq)
    finally show ?thesis using limb_lt [of x] by simp
  qed
  ultimately have "?N div 2 ^ b = unat (hd (shift_bits b (x # xs))) + 4294967296 * (mag xs div 2 ^ b)"
    using hd mod_mult_div_eq [of "?N div 2 ^ b" 4294967296] by simp
  with Cons show ?case by simp
qed

lemma shift_right_value:
  assumes "w < length limbs" and "b < 32"
  shows "mag (take (length limbs - w) (shift_right_loop (length limbs - w) 0 w b limbs)) =
    mag limbs div 2 ^ (32 * w + b)"
proof -
  have "take (length limbs - w) (shift_right_loop (length limbs - w) 0 w b limbs) =
      map (shifted_limb w b limbs) [0..<length limbs - w]"
    by (rule take_shift_right_loop) simp
  also have "\<dots> = shift_bits b (drop w limbs)"
    by (simp only: shift_bits_map length_drop) (auto intro!: map_cong shifted_limb_drop)
  finally have "mag (take (length limbs - w) (shift_right_loop (length limbs - w) 0 w b limbs)) =
      mag (drop w limbs) div 2 ^ b"
    using mag_div_exp [OF assms(2)] by simp
  moreover have "mag limbs div 2 ^ (32 * w) = mag (drop w limbs)"
  proof -
    have "mag limbs = mag (take w limbs) + 2 ^ (32 * w) * mag (drop w limbs)"
      using mag_append [of "take w limbs" "drop w limbs"] assms(1) by (simp add: min_absorb2)
    moreover have "mag (take w limbs) < 2 ^ (32 * w)"
      using mag_bound [of "take w limbs"] assms(1) by (simp add: min_absorb2)
    ultimately show ?thesis by simp
  qed
  ultimately show ?thesis by (simp add: power_add div_mult2_eq)
qed

lemma discarded_bits:
  "discarded_bits limbs amount \<longleftrightarrow> mag limbs mod 2 ^ amount \<noteq> 0"
proof -
  let ?w = "amount div 32" and ?b = "amount mod 32"
  have am: "(2::nat) ^ amount = 2 ^ (32 * ?w) * 2 ^ ?b" by (simp add: power_add [symmetric])
  show ?thesis
  proof (cases "?w < length limbs")
    case False
    then have "mag limbs < 2 ^ (32 * ?w)"
      by (intro order_less_le_trans [OF mag_bound] power_increasing) auto
    also have "\<dots> \<le> 2 ^ amount" by (simp add: power_increasing)
    finally show ?thesis using False
      by (auto simp: discarded_bits_def Let_def mag_eq_0_iff)
  next
    case True
    define x where "x = limbs ! ?w"
    have dr: "drop ?w limbs = x # drop (Suc ?w) limbs"
      using True by (simp add: x_def Cons_nth_drop_Suc)
    have tl: "mag limbs = mag (take ?w limbs) + 2 ^ (32 * ?w) * (unat x + 4294967296 * mag (drop (Suc ?w) limbs))"
    proof -
      have "mag limbs = mag (take ?w limbs @ x # drop (Suc ?w) limbs)"
        by (simp only: dr [symmetric] append_take_drop_id)
      then show ?thesis using True by (simp add: min_absorb2)
    qed
    have lt: "mag (take ?w limbs) < 2 ^ (32 * ?w)"
      using mag_bound [of "take ?w limbs"] True by (simp add: min_absorb2)
    have two: "(4294967296::nat) = 2 ^ ?b * 2 ^ (32 - ?b)"
      by (simp add: power_add [symmetric])
    have "(unat x + 4294967296 * mag (drop (Suc ?w) limbs)) mod 2 ^ ?b = unat x mod 2 ^ ?b"
      by (subst two) (simp add: mult.assoc)
    then have "mag limbs mod 2 ^ amount = mag (take ?w limbs) + 2 ^ (32 * ?w) * (unat x mod 2 ^ ?b)"
      unfolding am using tl lt by (simp add: mod_mult2_eq)
    moreover have "x AND (push_bit ?b 1 - 1) = 0 \<longleftrightarrow> unat x mod 2 ^ ?b = 0"
    proof -
      have "x AND (push_bit ?b 1 - 1) = take_bit ?b x"
        by (simp add: take_bit_eq_mask mask_eq_decr_exp push_bit_eq_mult)
      then show ?thesis
        by (metis take_bit_eq_mod unat_eq_zero unsigned_take_bit_eq)
    qed
    ultimately show ?thesis
      using True by (auto simp: discarded_bits_def Let_def x_def mag_eq_0_iff)
  qed
qed

lemma add_one_nonempty: "append_carry (add_small_loop limbs 1) \<noteq> []"
proof -
  obtain r final where eq: "add_small_loop limbs 1 = (r, final)" by fastforce
  from add_small_loop [OF eq] show ?thesis
    by (auto simp: append_carry_def eq)
qed

lemma normalized_add_small:
  assumes "normalized limbs" and "unat c < 4294967296"
  shows "normalized (append_carry (add_small_loop limbs c))"
proof -
  obtain r final where eq: "add_small_loop limbs c = (r, final)" by fastforce
  note res = add_small_loop [OF eq assms(2)]
  show ?thesis
  proof (cases "final = 0")
    case False
    then have "low_limb final \<noteq> 0"
      using res by (metis limb_split mod_less mult_0_right unat_eq_zero unat_low add.right_neutral
          mod_mult_div_eq div_less)
    with False show ?thesis by (simp add: append_carry_def eq)
  next
    case True
    show ?thesis
    proof (cases "limbs = []")
      case True
      with eq \<open>final = 0\<close> show ?thesis by (simp add: append_carry_def)
    next
      case ne: False
      have "2 ^ (32 * (length limbs - 1)) \<le> mag r"
        using normalized_lower [OF assms(1) ne] res True by simp
      moreover have len: "length r = length limbs" using res by simp
      moreover obtain q z where q: "r = q @ [z]" using len ne by (cases r rule: rev_cases) auto
      moreover have "length limbs - 1 = length q" using len q by simp
      ultimately have "z \<noteq> 0" using mag_bound [of q] by auto
      with q True show ?thesis by (simp add: append_carry_def eq)
    qed
  qed
qed

lemma ceil_div:
  fixes n d :: nat
  assumes "0 < d"
  shows "(n + (d - 1)) div d = n div d + (if n mod d \<noteq> 0 then 1 else 0)"
proof -
  have n: "n + (d - 1) = (n mod d + (d - 1)) + d * (n div d)"
    using mod_mult_div_eq [of n d] by simp
  have "(n + (d - 1)) div d = (n mod d + (d - 1)) div d + n div d"
  proof -
    have "(n + (d - 1)) div d = ((n mod d + (d - 1)) + d * (n div d)) div d"
      by (simp only: n [symmetric])
    also have "\<dots> = n div d + (n mod d + (d - 1)) div d"
      by (rule div_mult_self2) (use assms in simp)
    finally show ?thesis by (simp only: add.commute)
  qed
  moreover have "(n mod d + (d - 1)) div d = (if n mod d \<noteq> 0 then 1 else 0)"
  proof (cases "n mod d = 0")
    case True
    with assms show ?thesis by simp
  next
    case False
    then have "n mod d + (d - 1) = (n mod d - 1) + d" using assms by simp
    moreover have "(n mod d - 1 + d) div d = 1"
    proof -
      have "n mod d - 1 < d" using mod_less_divisor [OF assms, of n] by linarith
      then have "(n mod d - 1) div d = 0" by (rule div_less)
      then show ?thesis using assms by (simp only: div_add_self2)
    qed
    ultimately show ?thesis using False by (simp only: not_False_eq_True if_True)
  qed
  ultimately show ?thesis by simp
qed

lemma magnitude_shift_right_shifted:
  fixes limbs amount
  defines "q \<equiv> magnitude_shift_right limbs amount False"
  shows "mag q = mag limbs div 2 ^ amount" and "normalized q"
proof -
  let ?w = "amount div 32" and ?b = "amount mod 32"
  show "mag q = mag limbs div 2 ^ amount"
  proof (cases "?w < length limbs")
    case True
    then show ?thesis
      using shift_right_value [OF True, of ?b] by (simp add: q_def magnitude_shift_right_def Let_def)
  next
    case False
    then have "mag limbs < 2 ^ amount"
      by (intro order_less_le_trans [OF mag_bound] power_increasing) auto
    with False show ?thesis by (simp add: q_def magnitude_shift_right_def Let_def)
  qed
  show "normalized q" by (simp add: q_def magnitude_shift_right_def Let_def)
qed

lemma magnitude_shift_right_up:
  "magnitude_shift_right limbs amount True =
     (if discarded_bits limbs amount
      then append_carry (add_small_loop (magnitude_shift_right limbs amount False) 1)
      else magnitude_shift_right limbs amount False)"
  unfolding magnitude_shift_right_def Let_def by (simp only: add_one_nonempty if_False simp_thms)

lemma mag_shift_right [mag_simps]:
  "mag (magnitude_shift_right limbs amount round_up) =
     (if round_up then (mag limbs + (2 ^ amount - 1)) div 2 ^ amount else mag limbs div 2 ^ amount)"
  "normalized (magnitude_shift_right limbs amount round_up)"
proof -
  let ?q = "magnitude_shift_right limbs amount False"
  have one: "mag (append_carry (add_small_loop ?q 1)) = mag ?q + 1"
    using mag_add_small [of ?q 1] by (simp add: magnitude_add_small_def)
  show "mag (magnitude_shift_right limbs amount round_up) =
      (if round_up then (mag limbs + (2 ^ amount - 1)) div 2 ^ amount else mag limbs div 2 ^ amount)"
    using one magnitude_shift_right_shifted(1) [of limbs amount] ceil_div [of "2 ^ amount" "mag limbs"]
    by (cases round_up) (auto simp: magnitude_shift_right_up discarded_bits)
  show "normalized (magnitude_shift_right limbs amount round_up)"
    using magnitude_shift_right_shifted(2) [of limbs amount] normalized_add_small [of ?q 1]
    by (cases round_up) (auto simp: magnitude_shift_right_up)
qed

end
