(* ===== verification/Interning.thy ===== *)
theory Interning
  imports Prelude
begin

text \<open>
  The contract every canonical arena of the semantic model keeps (integers, predicates, shapes,
  clock domains, data types, constant expressions): a value is stored once, its identity is the
  index it was stored at, identities never change meaning, and interning a known value gives the
  known identity back. Clients compare identities instead of values; the lemmas of the locale
  say why that is sound. Each arena interprets the locale in its own theory.
\<close>

text \<open>
  \<open>known m v\<close> says which values are well formed in state \<open>m\<close>, and \<open>open_for m\<close> that the arena's
  up-front checks let a search for an existing record take place.
\<close>

locale interning =
  fixes inv :: "'m \<Rightarrow> bool"
    and size_of :: "'m \<Rightarrow> nat"
    and content :: "'m \<Rightarrow> id \<Rightarrow> 'v"
    and wellformed :: "'m \<Rightarrow> 'v \<Rightarrow> bool"
    and open_for :: "'m \<Rightarrow> bool"
    and intern :: "'m \<Rightarrow> 'v \<Rightarrow> id \<times> 'm"
  assumes size_le: "inv m \<Longrightarrow> size_of m \<le> PIGEN_INVALID_ID"
    and canonical: "inv m \<Longrightarrow> i < size_of m \<Longrightarrow> j < size_of m \<Longrightarrow> content m i = content m j \<Longrightarrow> i = j"
    and intern_inv: "inv m \<Longrightarrow> wellformed m v \<Longrightarrow> intern m v = (i, m') \<Longrightarrow> inv m'"
    and intern_content: "inv m \<Longrightarrow> wellformed m v \<Longrightarrow> intern m v = (i, m') \<Longrightarrow> i \<noteq> PIGEN_INVALID_ID \<Longrightarrow>
      i < size_of m' \<and> content m' i = v"
    and intern_frame: "inv m \<Longrightarrow> wellformed m v \<Longrightarrow> intern m v = (i, m') \<Longrightarrow>
      size_of m \<le> size_of m' \<and> (\<forall>j < size_of m. content m' j = content m j)"
    and intern_known: "inv m \<Longrightarrow> open_for m \<Longrightarrow> i < size_of m \<Longrightarrow> intern m (content m i) = (i, m)"
begin

text \<open>Identity comparison decides equality of the stored values.\<close>

lemma identity_iff: "inv m \<Longrightarrow> i < size_of m \<Longrightarrow> j < size_of m \<Longrightarrow> i = j \<longleftrightarrow> content m i = content m j"
  using canonical by blast

lemma valid_not_invalid: "inv m \<Longrightarrow> i < size_of m \<Longrightarrow> i \<noteq> PIGEN_INVALID_ID"
  using size_le by fastforce

text \<open>Interning again changes nothing.\<close>

lemma intern_again:
  assumes "inv m" and "wellformed m v" and "intern m v = (i, m')" and "i \<noteq> PIGEN_INVALID_ID"
    and "open_for m'"
  shows "intern m' v = (i, m')"
proof -
  have "inv m'" by (rule intern_inv [OF assms(1-3)])
  moreover have "i < size_of m'" "content m' i = v"
    using intern_content [OF assms(1-4)] by auto
  ultimately show ?thesis using intern_known [of m' i] assms(5) by simp
qed

text \<open>An identity handed out earlier keeps its meaning, and a later intern agrees with it.\<close>

lemma intern_stable:
  assumes "inv m" and "wellformed m v" and "intern m v = (i, m')" and "j < size_of m"
  shows "j < size_of m' \<and> content m' j = content m j"
  using intern_frame [OF assms(1-3)] assms(4) by fastforce

lemma intern_eq_iff:
  assumes "inv m" and "wellformed m v" and "intern m v = (i, m')" and "i \<noteq> PIGEN_INVALID_ID"
    and "j < size_of m"
  shows "i = j \<longleftrightarrow> content m j = v"
proof -
  have inv': "inv m'" by (rule intern_inv [OF assms(1-3)])
  have i: "i < size_of m'" "content m' i = v" using intern_content [OF assms(1-4)] by auto
  have j: "j < size_of m'" "content m' j = content m j" using intern_stable [OF assms(1-3,5)] by auto
  show ?thesis using identity_iff [OF inv' i(1) j(1)] i(2) j(2) by auto
qed

end

end
