(* ===== verification/Integers.thy ===== *)
theory Integers
  imports Magnitudes Interning
begin

text \<open>
  The arena of canonical arbitrary-precision integers of src/src/integer.c: signed magnitudes
  stored as ranges of one flat limb array, each value stored once. The state is the first two
  arrays of \<open>pigen_semantic_model\<close>; the full model record extends it, so every operation here is
  stated for any extension. Operations return the identity (\<open>PIGEN_INVALID_ID\<close> on failure) and the
  new state. Null-model guards have no counterpart.
\<close>

record pigen_integer =
  negative :: bool
  first_limb :: nat
  limb_count :: nat

record integer_arena =
  integers :: "pigen_integer list"
  integer_limbs :: "limb list"

section \<open>Access\<close>

definition integer_get :: "'a integer_arena_scheme \<Rightarrow> id \<Rightarrow> pigen_integer option" where
  "integer_get model integer =
     (if integer = PIGEN_INVALID_ID \<or> integer \<ge> length (integers model) then None
      else Some (integers model ! integer))"

definition limbs_of :: "'a integer_arena_scheme \<Rightarrow> pigen_integer \<Rightarrow> limb list option" where
  "limbs_of model integer =
     (if limb_count integer = 0 then None
      else if first_limb integer > length (integer_limbs model) \<or>
        limb_count integer > length (integer_limbs model) - first_limb integer then None
      else Some (slice (first_limb integer) (limb_count integer) (integer_limbs model)))"

definition limbs_equal :: "'a integer_arena_scheme \<Rightarrow> pigen_integer \<Rightarrow> limb list \<Rightarrow> bool" where
  "limbs_equal model integer limbs \<longleftrightarrow>
     limb_count integer = length limbs \<and>
     (limbs = [] \<or> limbs_of model integer = Some limbs)"

text \<open>
  The pointer returned by \<open>integer_limbs\<close> is null for zero; the callers treat that as an empty
  sequence and fail when a nonzero integer has no limbs.
\<close>

definition limbs_or_empty :: "'a integer_arena_scheme \<Rightarrow> pigen_integer \<Rightarrow> limb list" where
  "limbs_or_empty model integer = (case limbs_of model integer of None \<Rightarrow> [] | Some limbs \<Rightarrow> limbs)"

definition limbs_missing :: "'a integer_arena_scheme \<Rightarrow> pigen_integer \<Rightarrow> bool" where
  "limbs_missing model integer \<longleftrightarrow> limb_count integer \<noteq> 0 \<and> limbs_of model integer = None"

section \<open>Interning\<close>

definition integer_intern ::
    "'a integer_arena_scheme \<Rightarrow> bool \<Rightarrow> limb list \<Rightarrow> id \<times> 'a integer_arena_scheme" where
  "integer_intern model neg raw =
     (let limbs = normalize raw;
          neg' = (limbs \<noteq> [] \<and> neg)
      in case first_index (\<lambda>known. negative known = neg' \<and> limbs_equal model known limbs)
            (integers model) of
           Some i \<Rightarrow> (u32 i, model)
         | None \<Rightarrow>
             if length (integers model) \<ge> PIGEN_INVALID_ID \<or>
                length limbs > SIZE_MAX - length (integer_limbs model)
             then (PIGEN_INVALID_ID, model)
             else (u32 (length (integers model)),
               model\<lparr>integers := integers model @
                   [\<lparr>negative = neg', first_limb = length (integer_limbs model),
                     limb_count = length limbs\<rparr>],
                 integer_limbs := integer_limbs model @ limbs\<rparr>))"

section \<open>Meaning and invariant\<close>

definition stored :: "'a integer_arena_scheme \<Rightarrow> pigen_integer \<Rightarrow> bool \<times> limb list" where
  "stored model integer =
     (negative integer, slice (first_limb integer) (limb_count integer) (integer_limbs model))"

definition signed_mag :: "bool \<times> limb list \<Rightarrow> int" where
  "signed_mag s = (if fst s then - int (mag (snd s)) else int (mag (snd s)))"

definition integer_valid :: "'a integer_arena_scheme \<Rightarrow> id \<Rightarrow> bool" where
  "integer_valid model i \<longleftrightarrow> i < length (integers model)"

definition integer_value :: "'a integer_arena_scheme \<Rightarrow> id \<Rightarrow> int" where
  "integer_value model i = signed_mag (stored model (integers model ! i))"

definition canonical_sign :: "bool \<times> limb list \<Rightarrow> bool" where
  "canonical_sign s \<longleftrightarrow> normalized (snd s) \<and> (fst s \<longrightarrow> snd s \<noteq> [])"

definition integer_inv :: "'a integer_arena_scheme \<Rightarrow> bool" where
  "integer_inv model \<longleftrightarrow>
     length (integers model) \<le> PIGEN_INVALID_ID \<and>
     length (integer_limbs model) \<le> SIZE_MAX \<and>
     (\<forall>k \<in> set (integers model).
        first_limb k + limb_count k \<le> length (integer_limbs model) \<and>
        canonical_sign (stored model k)) \<and>
     distinct (map (stored model) (integers model))"

text \<open>Growth: both arrays keep their prefix, and the rest of the model is untouched.\<close>

definition integer_extends :: "'a integer_arena_scheme \<Rightarrow> 'a integer_arena_scheme \<Rightarrow> bool" where
  "integer_extends model model' \<longleftrightarrow>
     take (length (integers model)) (integers model') = integers model \<and>
     take (length (integer_limbs model)) (integer_limbs model') = integer_limbs model \<and>
     integer_arena.more model' = integer_arena.more model"

text \<open>No room for one more integer of \<open>n\<close> limbs.\<close>

definition integers_exhausted :: "'a integer_arena_scheme \<Rightarrow> nat \<Rightarrow> bool" where
  "integers_exhausted model n \<longleftrightarrow>
     length (integers model) \<ge> PIGEN_INVALID_ID \<or> n > SIZE_MAX - length (integer_limbs model)"

text \<open>
  What an arena operation delivers: the state grows and keeps its invariant, and the identity
  denotes \<open>x\<close> unless the arena has no room for \<open>n\<close> more limbs.
\<close>

definition yields ::
    "'a integer_arena_scheme \<Rightarrow> id \<times> 'a integer_arena_scheme \<Rightarrow> int \<Rightarrow> nat \<Rightarrow> bool" where
  "yields model r x n \<longleftrightarrow>
     integer_inv (snd r) \<and> integer_extends model (snd r) \<and>
     (if fst r = PIGEN_INVALID_ID then integers_exhausted (snd r) n
      else integer_valid (snd r) (fst r) \<and> integer_value (snd r) (fst r) = x)"

lemma canonical_sign_inject:
  assumes "canonical_sign s" and "canonical_sign t" and "signed_mag s = signed_mag t"
  shows "s = t"
proof -
  have pos: "0 < mag (snd s)" if "fst s" "canonical_sign s" for s
    using that normalized_mag_0 [of "snd s"] by (auto simp: canonical_sign_def)
  have "fst s = fst t" and "mag (snd s) = mag (snd t)"
    using assms(3) pos [of s] pos [of t] assms(1,2)
    by (auto simp: signed_mag_def split: if_splits)
  then show ?thesis
    using assms(1,2) by (auto simp: canonical_sign_def prod_eq_iff intro: normalized_inject)
qed

lemma integer_extends_refl [simp, intro]: "integer_extends m m"
  by (simp add: integer_extends_def)

lemma take_prefix_trans:
  "take (length xs) ys = xs \<Longrightarrow> take (length ys) zs = ys \<Longrightarrow> take (length xs) zs = xs"
  by (metis take_take min.absorb1 length_take min.cobounded2)

lemma integer_extends_trans [trans]:
  "integer_extends a b \<Longrightarrow> integer_extends b c \<Longrightarrow> integer_extends a c"
  by (auto simp: integer_extends_def intro: take_prefix_trans)

lemma prefix_nth: "take (length xs) ys = xs \<Longrightarrow> i < length xs \<Longrightarrow> i < length ys \<and> ys ! i = xs ! i"
  by (metis length_take min_less_iff_conj nth_take)

lemma prefix_length: "take (length xs) ys = xs \<Longrightarrow> length xs \<le> length ys"
  by (metis length_take min.cobounded1)

lemma prefix_slice:
  "take (length xs) ys = xs \<Longrightarrow> a + n \<le> length xs \<Longrightarrow> slice a n ys = slice a n xs"
  by (metis append_take_drop_id slice_append)

lemma extends_valid: "integer_extends m m' \<Longrightarrow> integer_valid m i \<Longrightarrow> integer_valid m' i"
  using prefix_length [of "integers m" "integers m'"]
  by (auto simp: integer_extends_def integer_valid_def)

lemma extends_stored:
  assumes "integer_inv m" and "integer_extends m m'" and "integer_valid m i"
  shows "stored m' (integers m' ! i) = stored m (integers m ! i)"
proof -
  have k: "integers m' ! i = integers m ! i"
    using assms(2,3) prefix_nth [of "integers m" "integers m'" i]
    by (auto simp: integer_extends_def integer_valid_def)
  have "integers m ! i \<in> set (integers m)" using assms(3) by (simp add: integer_valid_def)
  then have "first_limb (integers m ! i) + limb_count (integers m ! i) \<le> length (integer_limbs m)"
    using assms(1) by (auto simp: integer_inv_def)
  moreover have "take (length (integer_limbs m)) (integer_limbs m') = integer_limbs m"
    using assms(2) by (simp add: integer_extends_def)
  ultimately show ?thesis by (simp only: stored_def k prefix_slice)
qed

lemma extends_value:
  "integer_inv m \<Longrightarrow> integer_extends m m' \<Longrightarrow> integer_valid m i \<Longrightarrow>
   integer_value m' i = integer_value m i"
  using extends_stored [of m m' i] by (simp add: integer_value_def)

lemma exhausted_mono: "integers_exhausted m n \<Longrightarrow> n \<le> k \<Longrightarrow> integers_exhausted m k"
  by (auto simp: integers_exhausted_def)

lemma exhausted_extends:
  "integer_extends m m' \<Longrightarrow> integers_exhausted m n \<Longrightarrow> integers_exhausted m' n"
  using prefix_length [of "integers m" "integers m'"]
    prefix_length [of "integer_limbs m" "integer_limbs m'"]
  by (auto simp: integer_extends_def integers_exhausted_def)

text \<open>The scan of \<open>integer_intern\<close> compares exactly the stored values.\<close>

lemma matches_iff:
  assumes "integer_inv m" and "k \<in> set (integers m)"
  shows "negative k = n \<and> limbs_equal m k limbs \<longleftrightarrow> stored m k = (n, limbs)"
proof -
  have "first_limb k + limb_count k \<le> length (integer_limbs m)"
    using assms by (auto simp: integer_inv_def)
  then show ?thesis
    by (cases "limb_count k = 0")
      (auto simp: limbs_equal_def limbs_of_def stored_def split: if_splits)
qed

lemma stored_append:
  assumes "first_limb k + limb_count k \<le> length (integer_limbs m)"
  shows "stored (m\<lparr>integers := xs, integer_limbs := integer_limbs m @ ys\<rparr>) k = stored m k"
  using assms by (simp add: stored_def)

lemma integer_valid_not_invalid: "integer_inv m \<Longrightarrow> integer_valid m i \<Longrightarrow> i < PIGEN_INVALID_ID"
  by (auto simp: integer_inv_def integer_valid_def)

lemma integer_get_valid [simp]:
  "integer_inv m \<Longrightarrow> integer_valid m i \<Longrightarrow> integer_get m i = Some (integers m ! i)"
  using integer_valid_not_invalid [of m i] by (auto simp: integer_get_def integer_valid_def)

lemma integer_get_Some:
  "integer_get m i = Some k \<Longrightarrow> integer_valid m i \<and> k = integers m ! i"
  by (auto simp: integer_get_def integer_valid_def split: if_splits)

lemma integer_get_None:
  "integer_inv m \<Longrightarrow> integer_get m i = None \<longleftrightarrow> \<not> integer_valid m i"
  by (auto simp: integer_get_def integer_valid_def integer_inv_def)

lemma inv_member:
  assumes "integer_inv m" and "integer_valid m i"
  shows "first_limb (integers m ! i) + limb_count (integers m ! i) \<le> length (integer_limbs m)"
    and "canonical_sign (stored m (integers m ! i))"
  using assms by (auto simp: integer_inv_def integer_valid_def)

lemma integer_inv_unique:
  assumes "integer_inv m" and "integer_valid m i" and "integer_valid m j"
    and "stored m (integers m ! i) = stored m (integers m ! j)"
  shows "i = j"
  using assms nth_eq_iff_index_eq [of "map (stored m) (integers m)" i j]
  by (auto simp: integer_inv_def integer_valid_def)

lemma integer_append_inv:
  assumes inv: "integer_inv m" and new: "canonical_sign (n, limbs)"
    and fresh: "\<forall>k \<in> set (integers m). stored m k \<noteq> (n, limbs)"
    and room: "length (integers m) < PIGEN_INVALID_ID" "length limbs \<le> SIZE_MAX - length (integer_limbs m)"
  defines "m' \<equiv> m\<lparr>integers := integers m @
      [\<lparr>negative = n, first_limb = length (integer_limbs m), limb_count = length limbs\<rparr>],
    integer_limbs := integer_limbs m @ limbs\<rparr>"
  shows "integer_inv m'" and "stored m' (integers m' ! length (integers m)) = (n, limbs)"
    and "integer_extends m m'"
proof -
  have old: "stored m' k = stored m k" if "k \<in> set (integers m)" for k
    using inv that unfolding m'_def by (intro stored_append) (auto simp: integer_inv_def)
  show at: "stored m' (integers m' ! length (integers m)) = (n, limbs)"
    by (simp add: m'_def stored_def)
  have stored': "map (stored m') (integers m') = map (stored m) (integers m) @ [(n, limbs)]"
  proof -
    have "map (stored m') (integers m) = map (stored m) (integers m)"
      using old by simp
    moreover have "integers m' = integers m @ [integers m' ! length (integers m)]"
      by (simp add: m'_def)
    ultimately show ?thesis using at by (metis list.simps(8,9) map_append)
  qed
  have dist: "distinct (map (stored m') (integers m'))"
    unfolding stored' using inv fresh by (auto simp: integer_inv_def)
  have limbs': "integer_limbs m' = integer_limbs m @ limbs" by (simp add: m'_def)
  have ints': "integers m' = integers m @ [\<lparr>negative = n, first_limb = length (integer_limbs m),
      limb_count = length limbs\<rparr>]" by (simp add: m'_def)
  have members: "first_limb k + limb_count k \<le> length (integer_limbs m') \<and> canonical_sign (stored m' k)"
    if "k \<in> set (integers m')" for k
  proof (cases "k \<in> set (integers m)")
    case True
    then have "first_limb k + limb_count k \<le> length (integer_limbs m)" "canonical_sign (stored m k)"
      using inv by (auto simp: integer_inv_def)
    then show ?thesis using old [OF True] by (simp add: limbs')
  next
    case False
    then have k: "k = integers m' ! length (integers m)" using that by (simp add: ints')
    then show ?thesis using at new by (simp add: ints' limbs')
  qed
  have lens: "length (integers m') \<le> PIGEN_INVALID_ID" "length (integer_limbs m') \<le> SIZE_MAX"
    using room inv by (auto simp: ints' limbs' integer_inv_def)
  show "integer_inv m'" unfolding integer_inv_def using lens members dist by blast
  show "integer_extends m m'" by (simp add: integer_extends_def m'_def)
qed

lemma integer_intern:
  assumes inv: "integer_inv m"
  shows "yields m (integer_intern m neg raw) (if neg then - int (mag raw) else int (mag raw))
    (length (normalize raw))"
proof -
  let ?limbs = "normalize raw" and ?neg = "normalize raw \<noteq> [] \<and> neg"
  have new: "canonical_sign (?neg, ?limbs)" by (auto simp: canonical_sign_def)
  have val: "signed_mag (?neg, ?limbs) = (if neg then - int (mag raw) else int (mag raw))"
    using mag_normalize [of raw] by (cases "normalize raw = []") (auto simp: signed_mag_def)
  let ?P = "\<lambda>known. negative known = ?neg \<and> limbs_equal m known ?limbs"
  show ?thesis
  proof (cases "first_index ?P (integers m)")
    case (Some i)
    have i: "integer_valid m i" using first_index_lt [OF Some] by (simp add: integer_valid_def)
    then have "stored m (integers m ! i) = (?neg, ?limbs)"
      using first_index_sat [OF Some] matches_iff [OF inv, of "integers m ! i" ?neg ?limbs]
      by (auto simp: integer_valid_def)
    moreover have "i < PIGEN_INVALID_ID" by (rule integer_valid_not_invalid [OF inv i])
    moreover have "integer_intern m neg raw = (u32 i, m)"
      using Some by (simp add: integer_intern_def Let_def)
    ultimately show ?thesis
      using inv i val by (simp add: yields_def integer_value_def)
  next
    case None
    then have fresh: "\<forall>k \<in> set (integers m). stored m k \<noteq> (?neg, ?limbs)"
      using matches_iff [OF inv, of _ ?neg ?limbs] unfolding first_index_None by blast
    show ?thesis
    proof (cases "length (integers m) \<ge> PIGEN_INVALID_ID \<or>
        length ?limbs > SIZE_MAX - length (integer_limbs m)")
      case True
      then have "integer_intern m neg raw = (PIGEN_INVALID_ID, m)"
        by (simp only: integer_intern_def Let_def None option.case if_True)
      with True show ?thesis using inv by (simp add: yields_def integers_exhausted_def)
    next
      case False
      define m' where "m' = m\<lparr>integers := integers m @
          [\<lparr>negative = ?neg, first_limb = length (integer_limbs m), limb_count = length ?limbs\<rparr>],
        integer_limbs := integer_limbs m @ ?limbs\<rparr>"
      have r: "integer_intern m neg raw = (length (integers m), m')"
        using False by (simp only: integer_intern_def Let_def None option.case if_False m'_def u32_id)
          simp
      have room: "length (integers m) < PIGEN_INVALID_ID"
        "length ?limbs \<le> SIZE_MAX - length (integer_limbs m)" using False by auto
      note facts = integer_append_inv [OF inv new fresh room, folded m'_def]
      have "integer_valid m' (length (integers m))" by (simp add: m'_def integer_valid_def)
      moreover have "integer_value m' (length (integers m)) = (if neg then - int (mag raw) else int (mag raw))"
        using facts(2) val by (simp add: integer_value_def)
      ultimately show ?thesis using facts(1,3) room by (auto simp: yields_def r)
    qed
  qed
qed

text \<open>Interning the stored form of a known identity returns it and leaves the state alone.\<close>

lemma integer_intern_stored:
  assumes inv: "integer_inv m" and i: "integer_valid m i"
    and s: "stored m (integers m ! i) = (neg, limbs)"
  shows "integer_intern m neg limbs = (i, m)"
proof -
  have can: "canonical_sign (neg, limbs)" using inv_member(2) [OF inv i] s by simp
  then have norm: "normalize limbs = limbs" and neg: "(limbs \<noteq> [] \<and> neg) = neg"
    by (auto simp: canonical_sign_def normalize_id)
  let ?P = "\<lambda>known. negative known = neg \<and> limbs_equal m known limbs"
  have "?P (integers m ! i)"
    using matches_iff [OF inv, of "integers m ! i" neg limbs] i s by (auto simp: integer_valid_def)
  then obtain j where j: "first_index ?P (integers m) = Some j"
    using i first_index_None [of ?P "integers m"]
    by (metis integer_valid_def not_None_eq nth_mem)
  have jv: "integer_valid m j" using first_index_lt [OF j] by (simp add: integer_valid_def)
  have "stored m (integers m ! j) = (neg, limbs)"
    using first_index_sat [OF j] matches_iff [OF inv, of "integers m ! j" neg limbs] jv
    by (auto simp: integer_valid_def)
  then have "j = i" using integer_inv_unique [OF inv jv i] s by simp
  moreover have "j < PIGEN_INVALID_ID" by (rule integer_valid_not_invalid [OF inv jv])
  ultimately show ?thesis
    using j by (simp add: integer_intern_def Let_def norm neg)
qed

interpretation integer_arena: interning
  "integer_inv :: 'a integer_arena_scheme \<Rightarrow> bool" "\<lambda>m. length (integers m)"
  "\<lambda>m i. stored m (integers m ! i)" "\<lambda>_. canonical_sign" "\<lambda>_. True"
  "\<lambda>m s. integer_intern m (fst s) (snd s)"
proof
  fix m :: "'a integer_arena_scheme" and i j
  assume "integer_inv m"
  then show "length (integers m) \<le> PIGEN_INVALID_ID" by (simp add: integer_inv_def)
  assume "i < length (integers m)" "j < length (integers m)"
    "stored m (integers m ! i) = stored m (integers m ! j)"
  with \<open>integer_inv m\<close> show "i = j" by (intro integer_inv_unique) (auto simp: integer_valid_def)
next
  fix m m' :: "'a integer_arena_scheme" and i s
  assume inv: "integer_inv m" and wf: "canonical_sign s"
    and r: "integer_intern m (fst s) (snd s) = (i, m')"
  have y: "yields m (i, m') (signed_mag s) (length (snd s))"
    using integer_intern [OF inv, of "fst s" "snd s"] wf r
    by (simp add: signed_mag_def canonical_sign_def normalize_id)
  then show inv': "integer_inv m'" by (simp add: yields_def)
  have ext: "integer_extends m m'" using y by (simp add: yields_def)
  show "length (integers m) \<le> length (integers m') \<and>
      (\<forall>j < length (integers m). stored m' (integers m' ! j) = stored m (integers m ! j))"
    using prefix_length [of "integers m" "integers m'"] ext extends_stored [OF inv ext]
    by (auto simp: integer_extends_def integer_valid_def)
  assume "i \<noteq> PIGEN_INVALID_ID"
  then have "integer_valid m' i" and "integer_value m' i = signed_mag s"
    using y by (auto simp: yields_def)
  then show "i < length (integers m') \<and> stored m' (integers m' ! i) = s"
    using canonical_sign_inject [of "stored m' (integers m' ! i)" s] wf inv_member(2) [OF inv']
    by (auto simp: integer_value_def integer_valid_def)
next
  fix m :: "'a integer_arena_scheme" and i
  assume "integer_inv m" "i < length (integers m)"
  then show "integer_intern m (fst (stored m (integers m ! i))) (snd (stored m (integers m ! i))) = (i, m)"
    by (intro integer_intern_stored) (auto simp: integer_valid_def)
qed

end
