(* ===== verification/IntegerOps.thy ===== *)
theory IntegerOps
  imports Integers
begin

text \<open>
  The operations of src/src/integer.c on the integer arena: decimal and machine-word
  interning, sign, comparison, sums, products, widths, shifts and conversions. Each is shown to
  compute the mathematical operation on the values of its operands. \<open>Powers\<close> holds the
  exponentiation routines.
\<close>

section \<open>Decimal and machine-word interning\<close>

text \<open>
  The digit loop of \<open>pigen_integer_intern_decimal\<close>; \<open>any\<close> records that a digit was seen. A
  \<open>char\<close> outside the digits fails whether the implementation's \<open>char\<close> is signed or not.
\<close>

fun decimal_loop :: "string \<Rightarrow> limb list \<Rightarrow> bool \<Rightarrow> (limb list \<times> bool) option" where
  "decimal_loop [] limbs seen = Some (limbs, seen)"
| "decimal_loop (c # cs) limbs seen =
     (if c = CHR ''_'' then decimal_loop cs limbs seen
      else if (of_char c :: nat) < of_char (CHR ''0'') \<or> (of_char c :: nat) > of_char (CHR ''9'') then None
      else decimal_loop cs
        (magnitude_add_small (magnitude_multiply_small limbs 10) (of_nat (of_char c - of_char (CHR ''0''))))
        True)"

definition pigen_integer_intern_decimal ::
    "'a integer_arena_scheme \<Rightarrow> string \<Rightarrow> id \<times> 'a integer_arena_scheme" where
  "pigen_integer_intern_decimal model digits =
     (if digits = [] then (PIGEN_INVALID_ID, model)
      else case decimal_loop digits [] False of
        None \<Rightarrow> (PIGEN_INVALID_ID, model)
      | Some (limbs, seen) \<Rightarrow>
          if \<not> seen then (PIGEN_INVALID_ID, model) else integer_intern model False limbs)"

definition pigen_integer_intern_u64 ::
    "'a integer_arena_scheme \<Rightarrow> u64 \<Rightarrow> id \<times> 'a integer_arena_scheme" where
  "pigen_integer_intern_u64 model v =
     integer_intern model False
       (take (if high_limb v \<noteq> 0 then 2 else if v \<noteq> 0 then 1 else 0)
         [low_limb v, low_limb (high_limb v)])"

section \<open>Sign and comparison\<close>

definition pigen_integer_negate ::
    "'a integer_arena_scheme \<Rightarrow> id \<Rightarrow> id \<times> 'a integer_arena_scheme" where
  "pigen_integer_negate model i =
     (case integer_get model i of
        None \<Rightarrow> (PIGEN_INVALID_ID, model)
      | Some known \<Rightarrow>
          if limb_count known = 0 then (i, model)
          else case limbs_of model known of
            None \<Rightarrow> (PIGEN_INVALID_ID, model)
          | Some limbs \<Rightarrow> integer_intern model (\<not> negative known) limbs)"

definition pigen_integer_compare :: "'a integer_arena_scheme \<Rightarrow> id \<Rightarrow> id \<Rightarrow> int" where
  "pigen_integer_compare model left_id right_id =
     (case (integer_get model left_id, integer_get model right_id) of
        (Some left, Some right) \<Rightarrow>
          if negative left \<noteq> negative right then (if negative left then -1 else 1)
          else if limbs_missing model left \<or> limbs_missing model right then 0
          else let comparison = magnitude_compare (limbs_or_empty model left) (limbs_or_empty model right)
            in (if negative left then - comparison else comparison)
      | _ \<Rightarrow> 0)"

definition pigen_integer_is_zero :: "'a integer_arena_scheme \<Rightarrow> id \<Rightarrow> bool" where
  "pigen_integer_is_zero model i \<longleftrightarrow>
     (case integer_get model i of None \<Rightarrow> False | Some known \<Rightarrow> limb_count known = 0)"

definition pigen_integer_is_negative :: "'a integer_arena_scheme \<Rightarrow> id \<Rightarrow> bool" where
  "pigen_integer_is_negative model i \<longleftrightarrow>
     (case integer_get model i of None \<Rightarrow> False | Some known \<Rightarrow> negative known)"

definition pigen_integer_is_odd :: "'a integer_arena_scheme \<Rightarrow> id \<Rightarrow> bool" where
  "pigen_integer_is_odd model i \<longleftrightarrow>
     (case integer_get model i of None \<Rightarrow> False
      | Some known \<Rightarrow> limb_count known \<noteq> 0 \<and>
          (case limbs_of model known of None \<Rightarrow> False | Some limbs \<Rightarrow> limbs ! 0 AND 1 \<noteq> 0))"

section \<open>Sums\<close>

definition pigen_integer_add ::
    "'a integer_arena_scheme \<Rightarrow> id \<Rightarrow> id \<Rightarrow> id \<times> 'a integer_arena_scheme" where
  "pigen_integer_add model left_id right_id =
     (case (integer_get model left_id, integer_get model right_id) of
        (Some left, Some right) \<Rightarrow>
          if limbs_missing model left \<or> limbs_missing model right then (PIGEN_INVALID_ID, model)
          else
            let left_limbs = limbs_or_empty model left;
                right_limbs = limbs_or_empty model right
            in if negative left = negative right
               then integer_intern model (negative left) (magnitude_add left_limbs right_limbs)
               else
                 let comparison = magnitude_compare left_limbs right_limbs
                 in if comparison = 0 then pigen_integer_intern_u64 model 0
                    else if comparison > 0
                    then integer_intern model (negative left) (magnitude_subtract left_limbs right_limbs)
                    else integer_intern model (negative right) (magnitude_subtract right_limbs left_limbs)
      | _ \<Rightarrow> (PIGEN_INVALID_ID, model))"

definition pigen_integer_subtract ::
    "'a integer_arena_scheme \<Rightarrow> id \<Rightarrow> id \<Rightarrow> id \<times> 'a integer_arena_scheme" where
  "pigen_integer_subtract model left right =
     (let (negative_right, model1) = pigen_integer_negate model right
      in if negative_right = PIGEN_INVALID_ID then (PIGEN_INVALID_ID, model1)
         else pigen_integer_add model1 left negative_right)"

section \<open>Products\<close>

text \<open>The sum inside the width test is a \<open>size_t\<close>.\<close>

definition integer_multiply_bounded ::
    "'a integer_arena_scheme \<Rightarrow> id \<Rightarrow> id \<Rightarrow> nat \<Rightarrow> id \<times> 'a integer_arena_scheme" where
  "integer_multiply_bounded model left_id right_id maximum_bits =
     (case (integer_get model left_id, integer_get model right_id) of
        (Some left, Some right) \<Rightarrow>
          if maximum_bits = 0 then (PIGEN_INVALID_ID, model)
          else if limb_count left = 0 \<or> limb_count right = 0 then pigen_integer_intern_u64 model 0
          else if limb_count left > SIZE_MAX - limb_count right then (PIGEN_INVALID_ID, model)
          else (case (limbs_of model left, limbs_of model right) of
            (Some left_limbs, Some right_limbs) \<Rightarrow>
              (case magnitude_multiply left_limbs right_limbs of
                 None \<Rightarrow> (PIGEN_INVALID_ID, model)
               | Some limbs \<Rightarrow>
                   if limbs \<noteq> [] \<and>
                     (length limbs - 1 > (maximum_bits - 1) div 32 \<or>
                      size_wrap ((length limbs - 1) * 32 + (32 - builtin_clz (last limbs))) > maximum_bits)
                   then (PIGEN_INVALID_ID, model)
                   else integer_intern model (negative left \<noteq> negative right) limbs)
          | _ \<Rightarrow> (PIGEN_INVALID_ID, model))
      | _ \<Rightarrow> (PIGEN_INVALID_ID, model))"

definition pigen_integer_multiply ::
    "'a integer_arena_scheme \<Rightarrow> id \<Rightarrow> id \<Rightarrow> id \<times> 'a integer_arena_scheme" where
  "pigen_integer_multiply model left right = integer_multiply_bounded model left right SIZE_MAX"

section \<open>Widths and shifts\<close>

definition pigen_integer_unsigned_width :: "'a integer_arena_scheme \<Rightarrow> id \<Rightarrow> nat" where
  "pigen_integer_unsigned_width model i =
     (case integer_get model i of
        None \<Rightarrow> 0
      | Some known \<Rightarrow>
          if negative known then 0
          else if limb_count known = 0 then 1
          else (case limbs_of model known of None \<Rightarrow> 0 | Some limbs \<Rightarrow> magnitude_width limbs))"

definition pigen_integer_signed_width :: "'a integer_arena_scheme \<Rightarrow> id \<Rightarrow> nat" where
  "pigen_integer_signed_width model i =
     (case integer_get model i of
        None \<Rightarrow> 0
      | Some known \<Rightarrow>
          if limb_count known = 0 then 1
          else (case limbs_of model known of
              None \<Rightarrow> 0
            | Some limbs \<Rightarrow>
                let width = magnitude_width limbs
                in if width = SIZE_MAX then 0
                   else if negative known \<and> magnitude_is_power_of_two limbs then width
                   else width + 1))"

definition pigen_integer_shift_left ::
    "'a integer_arena_scheme \<Rightarrow> id \<Rightarrow> nat \<Rightarrow> nat \<Rightarrow> id \<times> 'a integer_arena_scheme" where
  "pigen_integer_shift_left model value_id amount maximum_bits =
     (case integer_get model value_id of
        None \<Rightarrow> (PIGEN_INVALID_ID, model)
      | Some known \<Rightarrow>
          if maximum_bits = 0 then (PIGEN_INVALID_ID, model)
          else if limb_count known = 0 then (value_id, model)
          else (case limbs_of model known of
              None \<Rightarrow> (PIGEN_INVALID_ID, model)
            | Some source \<Rightarrow>
                let source_width = magnitude_width source
                in if source_width > maximum_bits \<or> amount > maximum_bits - source_width
                   then (PIGEN_INVALID_ID, model)
                   else if limb_count known > SIZE_MAX - amount div 32 - 1
                   then (PIGEN_INVALID_ID, model)
                   else integer_intern model (negative known) (magnitude_shift_left source amount)))"

section \<open>Conversions\<close>

text \<open>Both accumulators are 64-bit words; the limbs are read from the most significant one down.\<close>

fun to_size_loop :: "limb list \<Rightarrow> u64 \<Rightarrow> u64 option" where
  "to_size_loop [] result = Some result"
| "to_size_loop (x # xs) result =
     (if result > drop_bit 32 (- 1) then None
      else to_size_loop xs (push_bit 32 result OR wide x))"

definition pigen_integer_to_size :: "'a integer_arena_scheme \<Rightarrow> id \<Rightarrow> u64 option" where
  "pigen_integer_to_size model i =
     (case integer_get model i of
        None \<Rightarrow> None
      | Some known \<Rightarrow>
          if negative known \<or> limbs_missing model known then None
          else if limb_count known > (8 * 8 + 32 - 1) div 32 then None
          else to_size_loop (rev (limbs_or_empty model known)) 0)"

definition pigen_integer_to_u64 :: "'a integer_arena_scheme \<Rightarrow> id \<Rightarrow> u64 option" where
  "pigen_integer_to_u64 model i =
     (case integer_get model i of
        None \<Rightarrow> None
      | Some known \<Rightarrow>
          if negative known \<or> limbs_missing model known then None
          else if limb_count known > 2 then None
          else Some (foldl (\<lambda>result x. push_bit 32 result OR wide x) 0
            (rev (limbs_or_empty model known))))"

section \<open>Reading a known integer\<close>

lemma known_limbs:
  assumes "integer_inv m" and "integer_valid m i" and "k = integers m ! i"
  shows "\<not> limbs_missing m k" and "normalized (limbs_or_empty m k)"
    and "length (limbs_or_empty m k) = limb_count k"
    and "limb_count k \<noteq> 0 \<Longrightarrow> limbs_of m k = Some (limbs_or_empty m k)"
    and "integer_value m i = (if negative k then - int (mag (limbs_or_empty m k))
      else int (mag (limbs_or_empty m k)))"
    and "negative k \<Longrightarrow> limb_count k \<noteq> 0"
    and "mag (limbs_or_empty m k) = 0 \<longleftrightarrow> limb_count k = 0"
proof -
  note in_range = inv_member(1) [OF assms(1,2), folded assms(3)]
  note can = inv_member(2) [OF assms(1,2), folded assms(3)]
  have l: "limbs_or_empty m k = snd (stored m k)"
    using in_range by (auto simp: limbs_or_empty_def limbs_of_def stored_def)
  show "\<not> limbs_missing m k" using in_range by (simp add: limbs_missing_def limbs_of_def)
  show n: "normalized (limbs_or_empty m k)" using can by (simp add: l canonical_sign_def)
  show len: "length (limbs_or_empty m k) = limb_count k"
    using in_range by (simp add: l stored_def)
  show "limb_count k \<noteq> 0 \<Longrightarrow> limbs_of m k = Some (limbs_or_empty m k)"
    using in_range by (simp add: limbs_or_empty_def limbs_of_def)
  show "integer_value m i = (if negative k then - int (mag (limbs_or_empty m k))
      else int (mag (limbs_or_empty m k)))"
    by (simp add: l integer_value_def signed_mag_def assms(3) [symmetric]) (simp add: stored_def)
  show "negative k \<Longrightarrow> limb_count k \<noteq> 0"
    using can by (cases "limb_count k = 0") (auto simp: canonical_sign_def stored_def)
  show "mag (limbs_or_empty m k) = 0 \<longleftrightarrow> limb_count k = 0"
    using normalized_mag_0 [OF n] len by auto
qed

text \<open>Composition of results.\<close>

lemma yields_mono: "yields m r x n \<Longrightarrow> n \<le> k \<Longrightarrow> yields m r x k"
  by (auto simp: yields_def intro: exhausted_mono)

lemma yields_inv: "yields m r x n \<Longrightarrow> integer_inv (snd r)"
  and yields_extends: "yields m r x n \<Longrightarrow> integer_extends m (snd r)"
  and yields_exhausted: "yields m r x n \<Longrightarrow> fst r = PIGEN_INVALID_ID \<Longrightarrow> integers_exhausted (snd r) n"
  and yields_valid: "yields m r x n \<Longrightarrow> fst r \<noteq> PIGEN_INVALID_ID \<Longrightarrow> integer_valid (snd r) (fst r)"
  and yields_value: "yields m r x n \<Longrightarrow> fst r \<noteq> PIGEN_INVALID_ID \<Longrightarrow> integer_value (snd r) (fst r) = x"
  by (auto simp: yields_def)

lemmas yields_parts = yields_inv yields_extends yields_exhausted yields_valid yields_value

lemma yields_then:
  assumes "integer_extends m m1" and "yields m1 r x n"
  shows "yields m r x n"
  using assms by (auto simp: yields_def intro: integer_extends_trans)

lemma yields_same: "integer_inv m \<Longrightarrow> integer_valid m i \<Longrightarrow> yields m (i, m) (integer_value m i) n"
  using integer_valid_not_invalid [of m i] by (simp add: yields_def)

text \<open>The number of limbs a value takes.\<close>

definition limbs_of_value :: "int \<Rightarrow> nat" where
  "limbs_of_value x = (bit_length (nat \<bar>x\<bar>) + 31) div 32"

lemma limbs_of_value_minus [simp]: "limbs_of_value (- x) = limbs_of_value x"
  by (simp add: limbs_of_value_def)

lemma length_limbs_of_value:
  assumes "normalized xs"
  shows "length xs = limbs_of_value (int (mag xs))"
proof (cases "xs = []")
  case False
  define t where "t = bit_length (unat (last xs))"
  have "t \<le> 32" unfolding t_def by (rule bit_length_limb)
  moreover have "0 < t" using assms False by (auto simp: t_def normalized_def unat_eq_0 intro!: Nat.gr0I)
  moreover have "bit_length (mag xs) = (length xs - 1) * 32 + t"
    unfolding t_def by (rule bit_length_mag [OF assms False])
  moreover obtain k where "length xs = Suc k" using False by (cases xs) auto
  ultimately show ?thesis by (simp add: limbs_of_value_def)
qed (simp add: limbs_of_value_def)

lemma limb_count_value:
  assumes "integer_inv m" and "integer_valid m i"
  shows "limb_count (integers m ! i) = limbs_of_value (integer_value m i)"
  using length_limbs_of_value [OF known_limbs(2) [OF assms refl]] known_limbs(3,5) [OF assms refl]
  by auto

lemma integer_intern_value:
  assumes "integer_inv m" and "x = (if neg then - int (mag raw) else int (mag raw))"
  shows "yields m (integer_intern m neg raw) x (limbs_of_value x)"
  using integer_intern [OF assms(1), of neg raw] length_limbs_of_value [of "normalize raw"] assms(2)
  by (cases neg) auto

section \<open>Decimal and machine-word interning\<close>

definition decimal_char :: "char \<Rightarrow> bool" where
  "decimal_char c \<longleftrightarrow> 48 \<le> (of_char c :: nat) \<and> (of_char c :: nat) \<le> 57"

definition decimal_literal :: "string \<Rightarrow> bool" where
  "decimal_literal cs \<longleftrightarrow>
     (\<forall>c \<in> set cs. decimal_char c \<or> c = CHR ''_'') \<and> (\<exists>c \<in> set cs. decimal_char c)"

definition decimal_value :: "string \<Rightarrow> nat" where
  "decimal_value cs = foldl (\<lambda>n c. 10 * n + (of_char c - 48)) 0 (filter decimal_char cs)"

lemma decimal_char_underscore [simp]: "\<not> decimal_char (CHR ''_'')"
  by (simp add: decimal_char_def)

lemma decimal_loop:
  "case decimal_loop cs limbs seen of
     None \<Rightarrow> \<exists>c \<in> set cs. \<not> decimal_char c \<and> c \<noteq> CHR ''_''
   | Some (limbs', seen') \<Rightarrow>
       (\<forall>c \<in> set cs. decimal_char c \<or> c = CHR ''_'') \<and>
       mag limbs' = foldl (\<lambda>n c. 10 * n + (of_char c - 48)) (mag limbs) (filter decimal_char cs) \<and>
       seen' = (seen \<or> (\<exists>c \<in> set cs. decimal_char c))"
proof (induction cs arbitrary: limbs seen)
  case (Cons c cs)
  show ?case
  proof (cases "c = CHR ''_''")
    case True
    with Cons.IH [of limbs seen] show ?thesis by (auto split: option.splits)
  next
    case False
    show ?thesis
    proof (cases "decimal_char c")
      case True
      define limbs1 where "limbs1 = magnitude_add_small (magnitude_multiply_small limbs 10)
        (of_nat (of_char c - of_char (CHR ''0'')))"
      have d: "(of_char c :: nat) - 48 < 2 ^ 32"
        using True unfolding decimal_char_def by simp linarith
      have "mag limbs1 = mag limbs * 10 + (of_char c - 48)"
        using d by (simp add: limbs1_def unat_of_nat take_bit_nat_eq_self)
      moreover have "decimal_loop (c # cs) limbs seen = decimal_loop cs limbs1 True"
        using True False by (simp add: decimal_char_def limbs1_def)
      ultimately show ?thesis
        using Cons.IH [of limbs1 True] True by (auto split: option.splits simp: mult.commute)
    next
      case False
      then have "decimal_loop (c # cs) limbs seen = None"
        using \<open>c \<noteq> CHR ''_''\<close> by (auto simp: decimal_char_def)
      with False \<open>c \<noteq> CHR ''_''\<close> show ?thesis by auto
    qed
  qed
qed simp

lemma integer_intern_decimal:
  assumes inv: "integer_inv m"
  shows "if decimal_literal cs
    then yields m (pigen_integer_intern_decimal m cs) (int (decimal_value cs))
      (limbs_of_value (int (decimal_value cs)))
    else pigen_integer_intern_decimal m cs = (PIGEN_INVALID_ID, m)"
proof (cases "decimal_loop cs [] False")
  case None
  then show ?thesis
    using decimal_loop [of cs "[]" False]
    by (auto simp: pigen_integer_intern_decimal_def decimal_literal_def)
next
  case (Some p)
  obtain limbs seen where p: "p = (limbs, seen)" by (cases p)
  have l: "\<forall>c \<in> set cs. decimal_char c \<or> c = CHR ''_''" "mag limbs = decimal_value cs"
    "seen = (\<exists>c \<in> set cs. decimal_char c)"
    using decimal_loop [of cs "[]" False] Some p by (auto simp: decimal_value_def)
  show ?thesis
  proof (cases "decimal_literal cs")
    case False
    then have "\<not> seen" using l by (auto simp: decimal_literal_def)
    then show ?thesis using Some p False by (simp add: pigen_integer_intern_decimal_def)
  next
    case True
    then have "seen" "cs \<noteq> []" using l by (auto simp: decimal_literal_def)
    then have r: "pigen_integer_intern_decimal m cs = integer_intern m False limbs"
      using Some p by (simp add: pigen_integer_intern_decimal_def)
    with True l(2) integer_intern_value [OF inv, of "int (decimal_value cs)" False limbs]
    show ?thesis by simp
  qed
qed

lemma integer_intern_u64:
  assumes inv: "integer_inv m"
  shows "yields m (pigen_integer_intern_u64 m v) (int (unat v)) (limbs_of_value (int (unat v)))"
proof -
  let ?raw = "take (if high_limb v \<noteq> 0 then 2 else if v \<noteq> 0 then 1 else 0)
    [low_limb v, low_limb (high_limb v)]"
  have lt: "unat v < 4294967296 * 4294967296" using u64_lt [of v] by simp
  have "mag ?raw = unat v"
  proof (cases "high_limb v = 0")
    case True
    then have "unat v div 4294967296 = 0" by (metis unat_high unat_0)
    with True show ?thesis by auto
  next
    case False
    have "unat (high_limb v) < 4294967296" using lt by (simp add: less_mult_imp_div_less)
    then have "unat (low_limb (high_limb v)) = unat (high_limb v)" by (simp only: unat_low mod_less)
    with False limb_split [of v] show ?thesis by (simp del: unat_low unat_high)
  qed
  then show ?thesis
    using integer_intern_value [OF inv, of "int (unat v)" False ?raw]
    by (simp only: pigen_integer_intern_u64_def if_False)
qed

section \<open>Sign and comparison\<close>

lemma integer_negate:
  assumes inv: "integer_inv m" and i: "integer_valid m i"
  shows "yields m (pigen_integer_negate m i) (- integer_value m i) (limbs_of_value (integer_value m i))"
proof -
  note k = known_limbs [OF inv i refl]
  let ?k = "integers m ! i"
  show ?thesis
  proof (cases "limb_count ?k = 0")
    case True
    then have "integer_value m i = 0" using k(5,7) by auto
    with True yields_same [OF inv i] show ?thesis
      using inv i by (simp add: pigen_integer_negate_def)
  next
    case False
    then have "pigen_integer_negate m i = integer_intern m (\<not> negative ?k) (limbs_or_empty m ?k)"
      using k(4) inv i by (simp add: pigen_integer_negate_def)
    then show ?thesis
      using integer_intern_value [OF inv, of "- integer_value m i" "\<not> negative ?k"
        "limbs_or_empty m ?k"] k(5) by auto
  qed
qed

lemma integer_compare:
  assumes inv: "integer_inv m" and i: "integer_valid m i" and j: "integer_valid m j"
  shows "pigen_integer_compare m i j = sgn (integer_value m i - integer_value m j)"
proof -
  note k = known_limbs [OF inv i refl] and l = known_limbs [OF inv j refl]
  have c: "magnitude_compare (limbs_or_empty m (integers m ! i)) (limbs_or_empty m (integers m ! j)) =
      sgn (int (mag (limbs_or_empty m (integers m ! i))) - int (mag (limbs_or_empty m (integers m ! j))))"
    by (rule magnitude_compare [OF k(2) l(2)])
  show ?thesis
    using inv i j k(1,5,6,7) l(1,5,6,7) c
    by (auto simp: pigen_integer_compare_def Let_def sgn_if)
qed

lemma integer_is_zero:
  "integer_inv m \<Longrightarrow> integer_valid m i \<Longrightarrow> pigen_integer_is_zero m i \<longleftrightarrow> integer_value m i = 0"
  using known_limbs(5,7) [of m i "integers m ! i"] by (auto simp: pigen_integer_is_zero_def)

lemma integer_is_negative:
  "integer_inv m \<Longrightarrow> integer_valid m i \<Longrightarrow> pigen_integer_is_negative m i \<longleftrightarrow> integer_value m i < 0"
  using known_limbs(5,6,7) [of m i "integers m ! i"] by (auto simp: pigen_integer_is_negative_def)

lemma mag_mod_2: "mag xs mod 2 = (case xs of [] \<Rightarrow> 0 | x # _ \<Rightarrow> unat x mod 2)"
proof (cases xs)
  case (Cons x ys)
  have "mag xs = unat x + 2 * (2147483648 * mag ys)" by (simp add: Cons)
  then show ?thesis unfolding Cons by (metis list.simps(5) mod_mult_self2)
qed simp

lemma integer_is_odd:
  assumes "integer_inv m" and "integer_valid m i"
  shows "pigen_integer_is_odd m i \<longleftrightarrow> odd (integer_value m i)"
proof -
  let ?l = "limbs_or_empty m (integers m ! i)"
  note k = known_limbs [OF assms refl]
  have "odd (integer_value m i) \<longleftrightarrow> odd (mag ?l)" using k(5) by simp
  then have odd: "odd (integer_value m i) \<longleftrightarrow> mag ?l mod 2 = 1"
    by (simp only: odd_iff_mod_2_eq_one)
  show ?thesis
  proof (cases ?l)
    case Nil
    then show ?thesis using assms k(3,5) by (simp add: pigen_integer_is_odd_def)
  next
    case (Cons x xs)
    then have "limb_count (integers m ! i) \<noteq> 0" using k(3) by auto
    with k(4) have "pigen_integer_is_odd m i \<longleftrightarrow> x AND 1 \<noteq> 0"
      using assms Cons by (simp add: pigen_integer_is_odd_def)
    also have "\<dots> \<longleftrightarrow> odd x" by (simp add: and_one_eq mod2_eq_if)
    also have "\<dots> \<longleftrightarrow> odd (unat x)" by transfer (simp add: even_nat_iff)
    finally show ?thesis using odd mag_mod_2 [of ?l] Cons by (simp add: odd_iff_mod_2_eq_one)
  qed
qed

section \<open>Sums\<close>

lemma integer_add:
  assumes inv: "integer_inv m" and i: "integer_valid m i" and j: "integer_valid m j"
  defines "x \<equiv> integer_value m i + integer_value m j"
  shows "yields m (pigen_integer_add m i j) x (limbs_of_value x)"
proof -
  let ?a = "integers m ! i" and ?b = "integers m ! j"
  let ?as = "limbs_or_empty m ?a" and ?bs = "limbs_or_empty m ?b"
  note a = known_limbs [OF inv i refl] and b = known_limbs [OF inv j refl]
  have get: "integer_get m i = Some ?a" "integer_get m j = Some ?b" using inv i j by auto
  note unfolded = pigen_integer_add_def get prod.case option.case a(1) b(1) simp_thms if_False Let_def
  have c: "magnitude_compare ?as ?bs = sgn (int (mag ?as) - int (mag ?bs))"
    by (rule magnitude_compare [OF a(2) b(2)])
  consider (same) "negative ?a = negative ?b"
    | (equal) "negative ?a \<noteq> negative ?b" "mag ?as = mag ?bs"
    | (left) "negative ?a \<noteq> negative ?b" "mag ?bs < mag ?as"
    | (right) "negative ?a \<noteq> negative ?b" "mag ?as < mag ?bs" by linarith
  then show ?thesis
  proof cases
    case same
    have x: "x = (if negative ?a then - int (mag (magnitude_add ?as ?bs))
        else int (mag (magnitude_add ?as ?bs)))"
      using same a(5) b(5) by (simp add: x_def)
    from same have "pigen_integer_add m i j = integer_intern m (negative ?a) (magnitude_add ?as ?bs)"
      by (simp only: unfolded if_True)
    then show ?thesis
      using integer_intern_value [OF inv x] by simp
  next
    case equal
    then have "pigen_integer_add m i j = pigen_integer_intern_u64 m 0"
      using c by (simp add: unfolded)
    moreover have "x = 0" using equal a(5) b(5) by (auto simp: x_def)
    ultimately show ?thesis using integer_intern_u64 [OF inv, of 0] by simp
  next
    case left
    then have "pigen_integer_add m i j = integer_intern m (negative ?a) (magnitude_subtract ?as ?bs)"
      using c by (simp add: unfolded)
    moreover have "length ?bs \<le> length ?as" using normalized_length_mono [OF b(2)] left by simp
    then have x: "x = (if negative ?a then - int (mag (magnitude_subtract ?as ?bs)) else int (mag (magnitude_subtract ?as ?bs)))"
      using left a(5) b(5) by (simp add: x_def of_nat_diff)
    ultimately show ?thesis
      using integer_intern_value [OF inv x] by simp
  next
    case right
    then have "pigen_integer_add m i j = integer_intern m (negative ?b) (magnitude_subtract ?bs ?as)"
      using c by (simp add: unfolded)
    moreover have "length ?as \<le> length ?bs" using normalized_length_mono [OF a(2)] right by simp
    then have x: "x = (if negative ?b then - int (mag (magnitude_subtract ?bs ?as)) else int (mag (magnitude_subtract ?bs ?as)))"
      using right a(5) b(5) by (simp add: x_def of_nat_diff)
    ultimately show ?thesis
      using integer_intern_value [OF inv x] by simp
  qed
qed

lemma integer_subtract:
  assumes inv: "integer_inv m" and i: "integer_valid m i" and j: "integer_valid m j"
  defines "x \<equiv> integer_value m i - integer_value m j"
  shows "yields m (pigen_integer_subtract m i j) x
    (max (limbs_of_value (integer_value m j)) (limbs_of_value x))"
proof -
  obtain n m1 where n: "pigen_integer_negate m j = (n, m1)" by (cases "pigen_integer_negate m j")
  note y = integer_negate [OF inv j, unfolded n]
  have ext: "integer_extends m m1" and inv1: "integer_inv m1" using y by (auto simp: yields_def)
  show ?thesis
  proof (cases "n = PIGEN_INVALID_ID")
    case True
    then have "pigen_integer_subtract m i j = (n, m1)" by (simp add: pigen_integer_subtract_def n)
    with y True show ?thesis by (auto simp: yields_def intro: exhausted_mono)
  next
    case False
    have "yields m1 (pigen_integer_add m1 i n) x (limbs_of_value x)"
    proof -
      have "integer_valid m1 n" "integer_value m1 n = - integer_value m j"
        using y False by (auto simp: yields_def)
      then show ?thesis
        using integer_add [OF inv1 extends_valid [OF ext i], of n] extends_value [OF inv ext i]
        by (simp add: x_def)
    qed
    then have "yields m (pigen_integer_add m1 i n) x (limbs_of_value x)" by (rule yields_then [OF ext])
    with False show ?thesis
      by (auto simp: pigen_integer_subtract_def n intro: yields_mono)
  qed
qed

section \<open>Products\<close>

text \<open>
  No operand is wide enough for the \<open>size_t\<close> arithmetic on widths to overflow: a limb array of
  this size would not fit in the address space.
\<close>

definition moderate :: "int \<Rightarrow> bool" where
  "moderate x \<longleftrightarrow> bit_length (nat \<bar>x\<bar>) \<le> 2 ^ 58"

lemma moderate_limbs: "moderate x \<Longrightarrow> limbs_of_value x \<le> 2 ^ 53 + 1"
  by (simp add: moderate_def limbs_of_value_def)

text \<open>The width test of \<open>integer_multiply_bounded\<close> is exact.\<close>

lemma product_too_wide:
  assumes n: "normalized limbs" and ne: "limbs \<noteq> []" and len: "length limbs \<le> 2 ^ 55"
    and m: "0 < maximum_bits"
  shows "(length limbs - 1 > (maximum_bits - 1) div 32 \<or>
      size_wrap ((length limbs - 1) * 32 + (32 - builtin_clz (last limbs))) > maximum_bits) \<longleftrightarrow>
     maximum_bits < bit_length (mag limbs)"
proof -
  let ?t = "bit_length (unat (last limbs))"
  have b: "bit_length (mag limbs) = (length limbs - 1) * 32 + ?t" by (rule bit_length_mag [OF n ne])
  have t: "0 < ?t" "?t \<le> 32"
    using bit_length_limb n ne by (auto simp: normalized_def unat_eq_0 intro!: Nat.gr0I)
  have w: "size_wrap ((length limbs - 1) * 32 + ?t) = (length limbs - 1) * 32 + ?t"
    using len t(2) by (intro size_wrap_id) (simp add: SIZE_MAX_def)
  have "length limbs - 1 > (maximum_bits - 1) div 32 \<Longrightarrow> maximum_bits < bit_length (mag limbs)"
    using b t m by linarith
  then show ?thesis unfolding clz_width b w by blast
qed

lemma integer_multiply_bounded:
  assumes inv: "integer_inv m" and i: "integer_valid m i" and j: "integer_valid m j"
    and mod: "moderate (integer_value m i)" "moderate (integer_value m j)"
    and bits: "0 < maximum_bits"
  defines "x \<equiv> integer_value m i * integer_value m j"
  shows "if bit_length (nat \<bar>x\<bar>) \<le> maximum_bits
    then yields m (integer_multiply_bounded m i j maximum_bits) x (limbs_of_value x)
    else integer_multiply_bounded m i j maximum_bits = (PIGEN_INVALID_ID, m)"
proof -
  let ?a = "integers m ! i" and ?b = "integers m ! j"
  let ?as = "limbs_or_empty m ?a" and ?bs = "limbs_or_empty m ?b"
  note a = known_limbs [OF inv i refl] and b = known_limbs [OF inv j refl]
  have get: "integer_get m i = Some ?a" "integer_get m j = Some ?b" using inv i j by auto
  have lens: "limb_count ?a \<le> 2 ^ 53 + 1" "limb_count ?b \<le> 2 ^ 53 + 1"
    using mod moderate_limbs limb_count_value [OF inv] i j by auto
  show ?thesis
  proof (cases "limb_count ?a = 0 \<or> limb_count ?b = 0")
    case True
    then have "x = 0" using a(5,7) b(5,7) by (auto simp: x_def)
    moreover have "integer_multiply_bounded m i j maximum_bits = pigen_integer_intern_u64 m 0"
      using True bits by (simp add: integer_multiply_bounded_def get)
    ultimately show ?thesis using integer_intern_u64 [OF inv, of 0] by simp
  next
    case False
    then have ne: "?as \<noteq> []" "?bs \<noteq> []" using a(3) b(3) by auto
    have "length ?as + length ?bs \<le> SIZE_MAX div 4" using a(3) b(3) lens by (simp add: SIZE_MAX_def)
    then obtain limbs where limbs: "magnitude_multiply ?as ?bs = Some limbs"
      using magnitude_multiply_Some [OF ne] by blast
    note p = magnitude_multiply [OF limbs]
    have x: "x = (if negative ?a \<noteq> negative ?b then - int (mag limbs) else int (mag limbs))"
      using a(5) b(5) p(1) by (auto simp: x_def)
    then have absx: "nat \<bar>x\<bar> = mag limbs" by auto
    have "0 < mag limbs" using p(1) a(7) b(7) False by simp
    then have lne: "limbs \<noteq> []" by auto
    have "length limbs \<le> 2 ^ 55" using p(3) a(3) b(3) lens by simp
    note wide = product_too_wide [OF p(2) lne this bits]
    have room: "\<not> limb_count ?a > SIZE_MAX - limb_count ?b" using lens by (simp add: SIZE_MAX_def)
    have body: "integer_multiply_bounded m i j maximum_bits =
      (if maximum_bits < bit_length (mag limbs) then (PIGEN_INVALID_ID, m)
       else integer_intern m (negative ?a \<noteq> negative ?b) limbs)"
      unfolding integer_multiply_bounded_def get prod.case option.case wide [symmetric]
      using bits False a(4) b(4) limbs lne room by simp
    show ?thesis
      using integer_intern_value [OF inv x] by (auto simp: body absx not_le)
  qed
qed

section \<open>Widths and shifts\<close>

text \<open>The widths of \<open>data_type.c\<close> are the least widths of these ranges.\<close>

definition fits_unsigned :: "nat \<Rightarrow> int \<Rightarrow> bool" where
  "fits_unsigned w x \<longleftrightarrow> 0 \<le> x \<and> x < 2 ^ w"

definition fits_signed :: "nat \<Rightarrow> int \<Rightarrow> bool" where
  "fits_signed w x \<longleftrightarrow> - (2 ^ (w - 1)) \<le> x \<and> x < 2 ^ (w - 1)"

lemma moderate_width:
  assumes "normalized limbs" and "length limbs \<le> 2 ^ 53 + 1"
  shows "magnitude_width limbs = bit_length (mag limbs)"
  using assms by (intro magnitude_width) (auto simp: SIZE_MAX_def)

lemma nat_less_exp_int: "n < 2 ^ k \<longleftrightarrow> int n < 2 ^ k"
  by (metis of_nat_less_numeral_power_cancel_iff of_nat_numeral)

lemma integer_unsigned_width:
  assumes inv: "integer_inv m" and i: "integer_valid m i" and mod: "moderate (integer_value m i)"
    and nonneg: "0 \<le> integer_value m i" and w: "0 < w"
  shows "pigen_integer_unsigned_width m i \<le> w \<longleftrightarrow> fits_unsigned w (integer_value m i)"
proof -
  let ?k = "integers m ! i"
  note k = known_limbs [OF inv i refl]
  have len: "length (limbs_or_empty m ?k) \<le> 2 ^ 53 + 1"
    using moderate_limbs [OF mod] limb_count_value [OF inv i] k(3) by simp
  have pos: "\<not> negative ?k" using nonneg k(5,6,7) by auto
  show ?thesis
  proof (cases "limb_count ?k = 0")
    case True
    then show ?thesis
      using inv i w pos k(5,7) by (simp add: pigen_integer_unsigned_width_def fits_unsigned_def)
  next
    case False
    then have "pigen_integer_unsigned_width m i = bit_length (mag (limbs_or_empty m ?k))"
      using inv i pos k(4) moderate_width [OF k(2) len] by (simp add: pigen_integer_unsigned_width_def)
    then show ?thesis
      using k(5) pos by (simp add: bit_length_le_iff fits_unsigned_def)
  qed
qed

lemma integer_unsigned_width_negative:
  "integer_inv m \<Longrightarrow> integer_valid m i \<Longrightarrow> integer_value m i < 0 \<Longrightarrow> pigen_integer_unsigned_width m i = 0"
  using known_limbs(5) [of m i, OF _ _ refl] by (auto simp: pigen_integer_unsigned_width_def split: if_splits)

lemma signed_magnitude_width:
  assumes "0 < w"
  shows "n \<le> 2 ^ (w - 1) \<longleftrightarrow> (if \<exists>k. n = 2 ^ k then bit_length n else bit_length n + 1) \<le> w"
proof -
  obtain v where w: "w = Suc v" using assms by (cases w) auto
  show ?thesis
  proof (cases "\<exists>k. n = 2 ^ k")
    case True
    then show ?thesis by (auto simp: w)
  next
    case False
    then have "n \<le> 2 ^ v \<longleftrightarrow> n < 2 ^ v" using le_neq_implies_less by fastforce
    with False show ?thesis by (simp add: w bit_length_le_iff)
  qed
qed

lemma integer_signed_width:
  assumes inv: "integer_inv m" and i: "integer_valid m i" and mod: "moderate (integer_value m i)"
    and w: "0 < w"
  shows "pigen_integer_signed_width m i \<le> w \<longleftrightarrow> fits_signed w (integer_value m i)"
proof -
  let ?k = "integers m ! i"
  let ?n = "mag (limbs_or_empty m ?k)"
  note k = known_limbs [OF inv i refl]
  have len: "length (limbs_or_empty m ?k) \<le> 2 ^ 53 + 1"
    using moderate_limbs [OF mod] limb_count_value [OF inv i] k(3) by simp
  obtain v where v: "w = Suc v" using w by (cases w) auto
  show ?thesis
  proof (cases "limb_count ?k = 0")
    case True
    then show ?thesis
      using inv i w k(5,7) by (auto simp: pigen_integer_signed_width_def fits_signed_def)
  next
    case False
    have "?n < 2 ^ (32 * length (limbs_or_empty m ?k))" by (rule mag_bound)
    then have "bit_length ?n \<le> 32 * length (limbs_or_empty m ?k)" by (simp only: bit_length_le_iff)
    also have "\<dots> < SIZE_MAX" using len by (simp add: SIZE_MAX_def)
    finally have "bit_length ?n \<noteq> SIZE_MAX" by simp
    with False have width: "pigen_integer_signed_width m i =
      (if negative ?k \<and> (\<exists>e. ?n = 2 ^ e) then bit_length ?n else bit_length ?n + 1)"
      using inv i k(4) moderate_width [OF k(2) len]
      by (simp add: pigen_integer_signed_width_def Let_def magnitude_is_power_of_two)
    show ?thesis
    proof (cases "negative ?k")
      case True
      have "0 < ?n" using k(7) False by simp
      moreover have "int ?n \<le> 2 ^ v \<longleftrightarrow> ?n \<le> 2 ^ v"
        by (metis of_nat_le_numeral_power_cancel_iff of_nat_numeral)
      ultimately have "fits_signed w (integer_value m i) \<longleftrightarrow> ?n \<le> 2 ^ (w - 1)"
        using True k(5) by (auto simp: fits_signed_def v minus_less_iff intro: less_le_trans [of _ 0])
      then show ?thesis
        using signed_magnitude_width [OF w, of ?n] True unfolding width by simp
    next
      case False
      then show ?thesis
        using k(5) unfolding width by (simp add: fits_signed_def v bit_length_le_iff [symmetric]
            nat_less_exp_int [symmetric] order_trans [of _ 0])
    qed
  qed
qed

lemma integer_shift_left:
  fixes m :: "'a integer_arena_scheme" and amount :: nat
  assumes inv: "integer_inv m" and i: "integer_valid m i" and mod: "moderate (integer_value m i)"
    and bits: "0 < maximum_bits" and size: "maximum_bits \<le> SIZE_MAX"
  defines "x \<equiv> integer_value m i * 2 ^ amount"
  shows "if bit_length (nat \<bar>x\<bar>) \<le> maximum_bits
    then yields m (pigen_integer_shift_left m i amount maximum_bits) x (limbs_of_value x)
    else pigen_integer_shift_left m i amount maximum_bits = (PIGEN_INVALID_ID, m)"
proof -
  let ?k = "integers m ! i"
  let ?xs = "limbs_or_empty m ?k"
  note k = known_limbs [OF inv i refl]
  have len: "length ?xs \<le> 2 ^ 53 + 1"
    using moderate_limbs [OF mod] limb_count_value [OF inv i] k(3) by simp
  show ?thesis
  proof (cases "limb_count ?k = 0")
    case True
    then have "integer_value m i = 0" using k(5,7) by auto
    moreover have "pigen_integer_shift_left m i amount maximum_bits = (i, m)"
      using True bits inv i by (simp add: pigen_integer_shift_left_def)
    ultimately show ?thesis using yields_same [OF inv i, of "limbs_of_value x"] by (simp add: x_def)
  next
    case False
    then have pos: "0 < mag ?xs" using k(7) by simp
    have "nat \<bar>x\<bar> = mag ?xs * 2 ^ amount"
      using k(5) by (auto simp: x_def nat_mult_distrib nat_power_eq abs_mult)
    then have L: "bit_length (nat \<bar>x\<bar>) = bit_length (mag ?xs) + amount"
      using pos by (simp add: bit_length_mult_exp)
    have x: "x = (if negative ?k then - int (mag (magnitude_shift_left ?xs amount))
        else int (mag (magnitude_shift_left ?xs amount)))"
      using k(5) by (simp add: x_def)
    have body: "pigen_integer_shift_left m i amount maximum_bits =
      (if bit_length (mag ?xs) > maximum_bits \<or> amount > maximum_bits - bit_length (mag ?xs)
         \<or> limb_count ?k > SIZE_MAX - amount div 32 - 1
       then (PIGEN_INVALID_ID, m)
       else integer_intern m (negative ?k) (magnitude_shift_left ?xs amount))"
      using False bits inv i k(4) moderate_width [OF k(2) len]
      by (simp add: pigen_integer_shift_left_def Let_def)
    show ?thesis
    proof (cases "bit_length (nat \<bar>x\<bar>) \<le> maximum_bits")
      case True
      then have "amount div 32 \<le> SIZE_MAX div 32" using L size by (intro div_le_mono) simp
      then have "\<not> limb_count ?k > SIZE_MAX - amount div 32 - 1"
        using len k(3) by (simp add: SIZE_MAX_def)
      with True L have "pigen_integer_shift_left m i amount maximum_bits =
          integer_intern m (negative ?k) (magnitude_shift_left ?xs amount)"
        by (auto simp: body)
      with True integer_intern_value [OF inv x] show ?thesis by simp
    next
      case False
      with L show ?thesis by (auto simp: body)
    qed
  qed
qed

section \<open>Conversions\<close>

lemma unat_push_or:
  assumes "unat (r :: u64) < 4294967296"
  shows "unat (push_bit 32 r OR wide x) = unat r * 4294967296 + unat x"
proof -
  have p: "unat (push_bit 32 r) = unat r * 4294967296"
  proof -
    have "unat (push_bit 32 r) = (unat r * 4294967296) mod 2 ^ 64"
      by (subst unsigned_push_bit_eq) (simp add: push_bit_eq_mult take_bit_eq_mod)
    also have "\<dots> = unat r * 4294967296" using assms by (intro mod_less) simp
    finally show ?thesis .
  qed
  have "push_bit 32 r OR wide x = wide x OR push_bit 32 r" by (rule or.commute)
  also have "unat (wide x OR push_bit 32 r) = unat (wide x) + unat (push_bit 32 r)"
    by (rule unat_or_disjoint [where k = 32]) (use p limb_lt [of x] in simp_all)
  finally show ?thesis using p by simp
qed

text \<open>At most two limbs are read, so neither accumulator can overflow.\<close>

lemma read_limbs:
  assumes "length limbs \<le> 2"
  shows "to_size_loop (rev limbs) 0 = Some (foldl (\<lambda>r x. push_bit 32 r OR wide x) 0 (rev limbs))"
    and "unat (foldl (\<lambda>r x. push_bit 32 r OR wide x) 0 (rev limbs)) = mag limbs"
proof -
  consider "limbs = []" | x where "limbs = [x]" | x y where "limbs = [x, y]"
    using assms by (cases limbs; cases "tl limbs") auto
  then have "to_size_loop (rev limbs) 0 = Some (foldl (\<lambda>r x. push_bit 32 r OR wide x) 0 (rev limbs)) \<and>
    unat (foldl (\<lambda>r x. push_bit 32 r OR wide x) 0 (rev limbs)) = mag limbs"
  proof cases
    case (3 x y)
    have "\<not> wide y > drop_bit 32 (- 1)"
      using limb_lt [of y] by (simp add: word_less_nat_alt mask_eq_exp_minus_1)
    moreover have "unat (push_bit 32 (wide y) OR wide x) = unat (wide y) * 4294967296 + unat x"
      by (rule unat_push_or) (use limb_lt [of y] in simp)
    ultimately show ?thesis using 3 by simp
  qed simp_all
  then show "to_size_loop (rev limbs) 0 = Some (foldl (\<lambda>r x. push_bit 32 r OR wide x) 0 (rev limbs))"
    "unat (foldl (\<lambda>r x. push_bit 32 r OR wide x) 0 (rev limbs)) = mag limbs" by auto
qed

lemma two_limbs_iff:
  "normalized xs \<Longrightarrow> length xs \<le> 2 \<longleftrightarrow> mag xs \<le> UINT64_MAX"
proof -
  assume n: "normalized xs"
  show ?thesis
  proof
    assume "length xs \<le> 2"
    then have "(2 :: nat) ^ (32 * length xs) \<le> 2 ^ 64" by (intro power_increasing) auto
    with mag_bound [of xs] show "mag xs \<le> UINT64_MAX" by (simp add: UINT64_MAX_def)
  next
    assume m: "mag xs \<le> UINT64_MAX"
    show "length xs \<le> 2"
    proof (rule ccontr)
      assume "\<not> length xs \<le> 2"
      then have "64 \<le> 32 * (length xs - 1)" and "xs \<noteq> []" by auto
      then have "(2 :: nat) ^ 64 \<le> 2 ^ (32 * (length xs - 1))"
        by (intro power_increasing) auto
      with \<open>xs \<noteq> []\<close> normalized_lower [OF n] m show False by (simp add: UINT64_MAX_def)
    qed
  qed
qed

lemma integer_to_u64:
  assumes inv: "integer_inv m" and i: "integer_valid m i"
  shows "case pigen_integer_to_u64 m i of
      None \<Rightarrow> \<not> (0 \<le> integer_value m i \<and> integer_value m i \<le> int UINT64_MAX)
    | Some v \<Rightarrow> integer_value m i = int (unat v)"
    and "pigen_integer_to_size m i = pigen_integer_to_u64 m i"
proof -
  note k = known_limbs [OF inv i refl]
  note two = two_limbs_iff [OF k(2)] and rd = read_limbs [of "limbs_or_empty m (integers m ! i)"]
  have uint: "limb_count (integers m ! i) \<le> 2 \<Longrightarrow>
    uint (foldl (\<lambda>r x. push_bit 32 r OR wide x) 0 (rev (limbs_or_empty m (integers m ! i)))) =
    int (mag (limbs_or_empty m (integers m ! i)))"
    using rd(2) k(3) by (metis uint_nat)
  show "case pigen_integer_to_u64 m i of
      None \<Rightarrow> \<not> (0 \<le> integer_value m i \<and> integer_value m i \<le> int UINT64_MAX)
    | Some v \<Rightarrow> integer_value m i = int (unat v)"
    using inv i k(1,3,5,6,7) two uint by (auto simp: pigen_integer_to_u64_def)
  show "pigen_integer_to_size m i = pigen_integer_to_u64 m i"
    using inv i k(1,3) rd(1) by (simp add: pigen_integer_to_u64_def pigen_integer_to_size_def)
qed

section \<open>Growth without conditions\<close>

text \<open>
  Whatever its operands, an operation leaves a grown canonical arena and returns either the
  failed identity or a valid one.
\<close>

definition grows :: "'a integer_arena_scheme \<Rightarrow> id \<times> 'a integer_arena_scheme \<Rightarrow> bool" where
  "grows m r \<longleftrightarrow> integer_inv (snd r) \<and> integer_extends m (snd r) \<and>
     (fst r = PIGEN_INVALID_ID \<or> integer_valid (snd r) (fst r))"

lemma yields_grows: "yields m r x n \<Longrightarrow> grows m r"
  by (auto simp: yields_def grows_def split: if_splits)

lemma grows_invalid [simp]: "integer_inv m \<Longrightarrow> grows m (PIGEN_INVALID_ID, m)"
  by (simp add: grows_def)

lemma grows_get: "integer_inv m \<Longrightarrow> integer_get m i = Some k \<Longrightarrow> grows m (i, m)"
  using integer_get_Some by (auto simp: grows_def)

lemma grows_intern [simp]: "integer_inv m \<Longrightarrow> grows m (integer_intern m neg raw)"
  by (rule yields_grows [OF integer_intern])

lemma grows_u64 [simp]: "integer_inv m \<Longrightarrow> grows m (pigen_integer_intern_u64 m v)"
  by (rule yields_grows [OF integer_intern_u64])

lemma grows_negate [simp]: "integer_inv m \<Longrightarrow> grows m (pigen_integer_negate m i)"
  by (auto simp: pigen_integer_negate_def grows_get split: option.splits)

lemma grows_add [simp]: "integer_inv m \<Longrightarrow> grows m (pigen_integer_add m i j)"
  by (auto simp: pigen_integer_add_def Let_def split: option.splits)

lemma grows_subtract [simp]: "integer_inv m \<Longrightarrow> grows m (pigen_integer_subtract m i j)"
proof -
  assume inv: "integer_inv m"
  obtain n m1 where n: "pigen_integer_negate m j = (n, m1)" by fastforce
  have g: "integer_inv m1" "integer_extends m m1" using grows_negate [OF inv, of j] n by (auto simp: grows_def)
  have "grows m1 (pigen_integer_add m1 i n)" using g by simp
  then show ?thesis
    using g n by (auto simp: pigen_integer_subtract_def grows_def intro: integer_extends_trans)
qed

lemma grows_multiply_bounded [simp]: "integer_inv m \<Longrightarrow> grows m (integer_multiply_bounded m i j k)"
  by (auto simp: integer_multiply_bounded_def split: option.splits)

lemma grows_shift_left [simp]: "integer_inv m \<Longrightarrow> grows m (pigen_integer_shift_left m i a k)"
  by (auto simp: pigen_integer_shift_left_def Let_def grows_get split: option.splits)

lemma grows_parts:
  assumes "grows m (i, m1)"
  shows "integer_inv m1" and "integer_extends m m1" and "i \<noteq> PIGEN_INVALID_ID \<Longrightarrow> integer_valid m1 i"
  using assms by (auto simp: grows_def)

end
