(* ===== verification/Powers.thy ===== *)
theory Powers
  imports IntegerOps
begin

text \<open>
  Exponentiation in src/src/integer.c. \<open>pigen_integer_power\<close> squares and multiplies interned
  values under a bound on the width of every product. \<open>pigen_integer_power_width_u64\<close> finds the
  width of a power without computing it: it squares and multiplies dyadic intervals whose
  magnitudes are cut to a working precision, and doubles the precision until both ends of the
  interval have the same width. It is shown to be sound, and complete for every power of at
  most \<open>2 ^ 63\<close> bits: the rounding errors stay below half the interval's end, so no precision
  fails, and at precision \<open>2 ^ 63\<close> nothing is cut.
\<close>

section \<open>Interval arithmetic\<close>

record magnitude_interval =
  lower :: "limb list"
  upper :: "limb list"
  shift :: nat

definition magnitude_interval_u64 :: "u64 \<Rightarrow> magnitude_interval" where
  "magnitude_interval_u64 v =
     (let limbs = [low_limb v, low_limb (high_limb v)];
          count = (if limbs ! 1 \<noteq> 0 then 2 else if v \<noteq> 0 then 1 else 0)
      in \<lparr>lower = take count limbs, upper = take count limbs, shift = 0\<rparr>)"

definition magnitude_interval_multiply ::
    "magnitude_interval \<Rightarrow> magnitude_interval \<Rightarrow> nat \<Rightarrow> magnitude_interval option" where
  "magnitude_interval_multiply left right precision =
     (if shift left > UINT64_MAX - shift right then None
      else case (magnitude_multiply (lower left) (lower right),
          magnitude_multiply (upper left) (upper right)) of
        (Some l, Some u) \<Rightarrow>
          let upper_width = magnitude_width u;
              drop_bits = (if upper_width > precision then upper_width - precision else 0);
              shift1 = shift left + shift right
          in if drop_bits \<noteq> 0 then
               (if shift1 > UINT64_MAX - drop_bits then None
                else Some \<lparr>lower = magnitude_shift_right l drop_bits False,
                  upper = magnitude_shift_right u drop_bits True, shift = shift1 + drop_bits\<rparr>)
             else Some \<lparr>lower = l, upper = u, shift = shift1\<rparr>
      | _ \<Rightarrow> None)"

lemma unat_drop_1: "unat (drop_bit 1 (p :: u64)) = unat p div 2"
  by (simp add: unat_drop_bits)

text \<open>The inner loop: square and multiply while exponent bits remain.\<close>

function power_interval_loop ::
    "magnitude_interval \<Rightarrow> magnitude_interval \<Rightarrow> u64 \<Rightarrow> nat \<Rightarrow> magnitude_interval option" where
  "power_interval_loop result factor power1 precision =
     (if power1 = 0 then Some result
      else case (if power1 AND 1 \<noteq> 0 then magnitude_interval_multiply result factor precision
          else Some result) of
        None \<Rightarrow> None
      | Some result1 \<Rightarrow>
          if drop_bit 1 power1 = 0 then Some result1
          else (case magnitude_interval_multiply factor factor precision of
            None \<Rightarrow> None
          | Some factor1 \<Rightarrow> power_interval_loop result1 factor1 (drop_bit 1 power1) precision))"
  by auto

termination
  by (relation "measure (\<lambda>(_, _, power1, _). unat power1)")
    (auto simp: unat_drop_1 [simplified] unat_gt_0)

declare power_interval_loop.simps [simp del]

text \<open>
  The outer loop. The guard \<open>precision = 0\<close> is not in the code, which starts at 128: it only
  makes the recursion end on an argument the code never has.
\<close>

function precision_loop :: "u64 \<Rightarrow> u64 \<Rightarrow> nat \<Rightarrow> nat option" where
  "precision_loop base exponent precision =
     (case power_interval_loop (magnitude_interval_u64 1) (magnitude_interval_u64 base) exponent precision of
        None \<Rightarrow> None
      | Some result \<Rightarrow>
          let lower_magnitude_width = magnitude_width (lower result);
              upper_magnitude_width = magnitude_width (upper result)
          in if shift result > UINT64_MAX - lower_magnitude_width then None
             else if shift result \<le> UINT64_MAX - upper_magnitude_width \<and>
               shift result + lower_magnitude_width = shift result + upper_magnitude_width
             then Some (shift result + lower_magnitude_width)
             else if precision = 0 \<or> precision > SIZE_MAX div 2 then None
             else precision_loop base exponent (precision * 2))"
  by auto
termination
  by (relation "measure (\<lambda>(_, _, precision). SIZE_MAX - precision)") (auto simp: SIZE_MAX_def)

declare precision_loop.simps [simp del]

definition builtin_clzll :: "u64 \<Rightarrow> nat" where
  "builtin_clzll x = 64 - bit_length (unat x)"

definition pigen_integer_power_width_u64 :: "u64 \<Rightarrow> u64 \<Rightarrow> nat option" where
  "pigen_integer_power_width_u64 base exponent =
     (if exponent = 0 \<or> base \<le> 1 then Some 1
      else if base AND (base - 1) = 0 then
        let base_log = 63 - builtin_clzll base
        in if unat exponent > (UINT64_MAX - 1) div base_log then None
           else Some (unat exponent * base_log + 1)
      else precision_loop base exponent 128)"

section \<open>Soundness\<close>

definition encloses :: "magnitude_interval \<Rightarrow> nat \<Rightarrow> bool" where
  "encloses I v \<longleftrightarrow> normalized (lower I) \<and> normalized (upper I) \<and>
     mag (lower I) * 2 ^ shift I \<le> v \<and> v \<le> mag (upper I) * 2 ^ shift I"

lemma magnitude_interval_u64:
  "encloses (magnitude_interval_u64 v) (unat v)"
  "lower (magnitude_interval_u64 v) = upper (magnitude_interval_u64 v)"
  "shift (magnitude_interval_u64 v) = 0"
  "mag (upper (magnitude_interval_u64 v)) = unat v"
proof -
  let ?l = "low_limb v" and ?h = "low_limb (high_limb v)"
  have "unat (high_limb v) < 4294967296"
    using u64_lt [of v] by (simp add: less_mult_imp_div_less)
  then have h: "unat ?h = unat (high_limb v)" by (simp only: unat_low mod_less)
  have sp: "unat ?l + 4294967296 * unat ?h = unat v" unfolding h by (rule limb_split)
  show m: "mag (upper (magnitude_interval_u64 v)) = unat v"
    using sp by (cases "?h = 0") (auto simp: magnitude_interval_u64_def Let_def simp del: unat_low unat_high)
  show "lower (magnitude_interval_u64 v) = upper (magnitude_interval_u64 v)"
    "shift (magnitude_interval_u64 v) = 0" by (auto simp: magnitude_interval_u64_def Let_def)
  moreover have "normalized (upper (magnitude_interval_u64 v))"
  proof (cases "?h = 0")
    case True
    then have "unat ?l = unat v" using sp by (simp del: unat_low unat_high)
    then have "v \<noteq> 0 \<Longrightarrow> ?l \<noteq> 0" by (metis unat_eq_0)
    with True show ?thesis by (auto simp: magnitude_interval_u64_def normalized_def)
  next
    case False
    then show ?thesis by (simp add: magnitude_interval_u64_def Let_def normalized_def)
  qed
  ultimately show "encloses (magnitude_interval_u64 v) (unat v)" using m by (simp add: encloses_def)
qed

lemma floor_shift: "n div 2 ^ d * 2 ^ d \<le> (n :: nat)"
  by (metis div_times_less_eq_dividend)

lemma ceil_shift: "(n :: nat) \<le> (n + (2 ^ d - 1)) div 2 ^ d * 2 ^ d"
proof -
  have "(n + (2 ^ d - 1)) mod 2 ^ d < 2 ^ d" by simp
  then show ?thesis
    using div_mult_mod_eq [of "n + (2 ^ d - 1)" "2 ^ d"] by linarith
qed

lemma magnitude_interval_multiply_sound:
  assumes "encloses A a" and "encloses B b" and "magnitude_interval_multiply A B p = Some C"
  shows "encloses C (a * b)"
proof -
  obtain l u where l: "magnitude_multiply (lower A) (lower B) = Some l"
    and u: "magnitude_multiply (upper A) (upper B) = Some u"
    using assms(3) by (auto simp: magnitude_interval_multiply_def split: if_splits option.splits)
  note lf = magnitude_multiply [OF l] and uf = magnitude_multiply [OF u]
  let ?s = "shift A + shift B"
  have lo: "mag l * 2 ^ ?s \<le> a * b"
    using mult_le_mono [of "mag (lower A) * 2 ^ shift A" a "mag (lower B) * 2 ^ shift B" b] assms(1,2)
    by (simp add: encloses_def lf(1) power_add algebra_simps)
  have hi: "a * b \<le> mag u * 2 ^ ?s"
    using mult_le_mono [of a "mag (upper A) * 2 ^ shift A" b "mag (upper B) * 2 ^ shift B"] assms(1,2)
    by (simp add: encloses_def uf(1) power_add algebra_simps)
  define d where "d = (if magnitude_width u > p then magnitude_width u - p else 0)"
  show ?thesis
  proof (cases "d = 0")
    case True
    then have "C = \<lparr>lower = l, upper = u, shift = ?s\<rparr>"
      using assms(3) l u by (auto simp: magnitude_interval_multiply_def d_def Let_def split: if_splits)
    with lo hi lf uf show ?thesis by (simp add: encloses_def)
  next
    case False
    then have C: "C = \<lparr>lower = magnitude_shift_right l d False,
        upper = magnitude_shift_right u d True, shift = ?s + d\<rparr>"
      using assms(3) l u by (auto simp: magnitude_interval_multiply_def d_def Let_def split: if_splits)
    have "mag (lower C) * 2 ^ shift C = mag l div 2 ^ d * 2 ^ d * 2 ^ ?s"
      by (simp add: C mag_shift_right power_add)
    also have "\<dots> \<le> mag l * 2 ^ ?s" by (rule mult_le_mono1 [OF floor_shift])
    finally have "mag (lower C) * 2 ^ shift C \<le> a * b" using lo by (rule order_trans)
    moreover have "a * b \<le> mag (upper C) * 2 ^ shift C"
    proof -
      have "mag u * 2 ^ ?s \<le> (mag u + (2 ^ d - 1)) div 2 ^ d * 2 ^ d * 2 ^ ?s"
        by (rule mult_le_mono1 [OF ceil_shift])
      also have "\<dots> = mag (upper C) * 2 ^ shift C"
        by (simp add: C mag_shift_right power_add)
      finally show ?thesis using hi by (rule order_trans [rotated])
    qed
    ultimately show ?thesis by (simp add: encloses_def C mag_shift_right)
  qed
qed

lemma odd_word: "(p :: u64) AND 1 \<noteq> 0 \<longleftrightarrow> odd (unat p)"
proof -
  have "p AND 1 \<noteq> 0 \<longleftrightarrow> odd p" by (simp add: and_one_eq mod2_eq_if)
  also have "\<dots> \<longleftrightarrow> odd (unat p)" by transfer (simp add: even_nat_iff)
  finally show ?thesis .
qed

text \<open>One step of square-and-multiply.\<close>

lemma square_step:
  fixes r f :: "'a :: comm_monoid_mult"
  shows "(if odd n then r * f else r) * (f * f) ^ (n div 2) = r * f ^ n"
proof -
  have "f ^ n = f ^ (n mod 2 + 2 * (n div 2))" by simp
  also have "\<dots> = f ^ (n mod 2) * (f * f) ^ (n div 2)"
    by (simp only: power_add power_mult power2_eq_square)
  finally show ?thesis by (simp add: mod2_eq_if mult.assoc)
qed

lemma power_interval_loop_sound:
  "encloses R r \<Longrightarrow> encloses F f \<Longrightarrow> power_interval_loop R F n p = Some X \<Longrightarrow>
   encloses X (r * f ^ unat n)"
proof (induction R F n p arbitrary: r f X rule: power_interval_loop.induct)
  case (1 R F n p)
  show ?case
  proof (cases "n = 0")
    case True
    with 1 show ?thesis by (simp add: power_interval_loop.simps)
  next
    case False
    obtain R1 where R1: "(if n AND 1 \<noteq> 0 then magnitude_interval_multiply R F p else Some R) = Some R1"
      using 1(4) False by (simp add: power_interval_loop.simps [of R F n p] split: option.splits)
    have r1: "encloses R1 (if odd (unat n) then r * f else r)"
      using R1 magnitude_interval_multiply_sound [OF 1(2,3)] 1(2)
      by (auto simp: odd_word split: if_splits)
    show ?thesis
    proof (cases "drop_bit 1 n = 0")
      case True
      then have X: "X = R1"
        using 1(4) False R1 by (simp add: power_interval_loop.simps [of R F n p])
      have "unat n div 2 = 0" using True by (metis unat_drop_1 unat_0)
      with False have "unat n = 1" by (simp add: unat_eq_0 div_eq_0_iff numeral_2_eq_2 less_Suc_eq)
      with r1 X show ?thesis by simp
    next
      case more: False
      obtain F1 where F1: "magnitude_interval_multiply F F p = Some F1"
        and X: "power_interval_loop R1 F1 (drop_bit 1 n) p = Some X"
        using 1(4) False R1 more by (simp add: power_interval_loop.simps [of R F n p] split: option.splits)
      have "encloses X ((if odd (unat n) then r * f else r) * (f * f) ^ unat (drop_bit 1 n))"
        by (rule 1(1) [OF False R1 more F1 r1 magnitude_interval_multiply_sound [OF 1(3,3) F1] X])
      then show ?thesis unfolding unat_drop_1 square_step .
    qed
  qed
qed

text \<open>Equal end widths decide the width, unless a saturated width made them look equal.\<close>

lemma encloses_width:
  assumes X: "encloses X v" and v: "0 < v"
    and eq: "magnitude_width (lower X) = magnitude_width (upper X)"
    and exact: "magnitude_width (lower X) \<noteq> SIZE_MAX"
  shows "shift X + magnitude_width (lower X) = bit_length v"
proof -
  let ?l = "mag (lower X)" and ?u = "mag (upper X)"
  have w: "magnitude_width (lower X) = bit_length ?l" "magnitude_width (upper X) = bit_length ?u"
    using X exact eq magnitude_width_exact [of "lower X"] magnitude_width_exact [of "upper X"]
    by (auto simp: encloses_def)
  have le: "?l * 2 ^ shift X \<le> v" "v \<le> ?u * 2 ^ shift X" using X by (auto simp: encloses_def)
  have "0 < ?u" using le(2) v by (cases "?u = 0") auto
  moreover have "bit_length ?l = bit_length ?u" using w eq by simp
  ultimately have "0 < ?l" by (metis bit_length_eq_0 gr0I less_numeral_extra(3))
  have "bit_length (?l * 2 ^ shift X) \<le> bit_length v" "bit_length v \<le> bit_length (?u * 2 ^ shift X)"
    using le by (auto intro: bit_length_mono)
  then show ?thesis
    using \<open>0 < ?l\<close> \<open>0 < ?u\<close> w eq by (simp add: bit_length_mult_exp)
qed

lemma precision_loop_sound:
  "precision_loop base exponent p = Some w \<Longrightarrow> 0 < base \<Longrightarrow> w < UINT64_MAX \<Longrightarrow>
   w = bit_length (unat base ^ unat exponent)"
proof (induction base exponent p rule: precision_loop.induct)
  case (1 base exponent p)
  obtain X where X: "power_interval_loop (magnitude_interval_u64 1) (magnitude_interval_u64 base)
      exponent p = Some X"
    using 1(2) by (simp add: precision_loop.simps [of base exponent p] split: option.splits)
  have enc: "encloses X (unat base ^ unat exponent)"
    using power_interval_loop_sound [OF magnitude_interval_u64(1) magnitude_interval_u64(1) X] by simp
  have "0 < unat base" using 1(3) by (simp add: word_less_nat_alt)
  then have pos: "0 < unat base ^ unat exponent" by simp
  let ?lw = "magnitude_width (lower X)" and ?uw = "magnitude_width (upper X)"
  consider (found) "w = shift X + ?lw" "?lw = ?uw"
    | (again) "\<not> shift X > UINT64_MAX - ?lw" "\<not> (shift X \<le> UINT64_MAX - ?uw \<and> shift X + ?lw = shift X + ?uw)"
        "\<not> (p = 0 \<or> p > SIZE_MAX div 2)" "precision_loop base exponent (p * 2) = Some w"
    using 1(2) X by (auto simp: precision_loop.simps [of base exponent p] Let_def split: if_splits)
  then show ?case
  proof cases
    case found
    then have "?lw \<noteq> SIZE_MAX" using 1(4) by (simp add: SIZE_MAX_def UINT64_MAX_def)
    with encloses_width [OF enc pos found(2)] found(1) show ?thesis by simp
  next
    case again
    from 1(1) [OF X refl refl again(1-3)] 1(3,4) again(4) show ?thesis by simp
  qed
qed

lemma u64_and_pred: "(b :: u64) \<noteq> 0 \<Longrightarrow> b AND (b - 1) = 0 \<longleftrightarrow> (\<exists>k. unat b = 2 ^ k)"
proof -
  assume b: "b \<noteq> 0"
  then have "unat (b - 1) = unat b - 1" by (metis unat_minus_one)
  then have "unat (b AND (b - 1)) = unat b AND (unat b - 1)" by (simp add: unsigned_and_eq)
  then show ?thesis using nat_and_pred [of "unat b"] b by (metis unat_eq_0 unat_gt_0)
qed

lemma power_of_two_width:
  assumes b: "1 < unat base" and p2: "base AND (base - 1) = 0"
  shows "bit_length (unat base ^ unat exponent) = unat exponent * (63 - builtin_clzll base) + 1"
    and "0 < 63 - builtin_clzll base"
proof -
  have "base \<noteq> 0" using b by auto
  then obtain k where k: "unat base = 2 ^ k" using u64_and_pred p2 by blast
  have "(2 :: nat) ^ k < 2 ^ 64" using k u64_lt [of base] by simp
  then have "k < 64" by (simp only: power_strict_increasing_iff)
  then have log: "63 - builtin_clzll base = k" by (simp add: builtin_clzll_def k)
  show "bit_length (unat base ^ unat exponent) = unat exponent * (63 - builtin_clzll base) + 1"
    unfolding log k by (simp add: power_mult [symmetric] mult.commute)
  show "0 < 63 - builtin_clzll base" using b k unfolding log by (cases k) auto
qed

definition power_width :: "u64 \<Rightarrow> u64 \<Rightarrow> nat" where
  "power_width base exponent = max 1 (bit_length (unat base ^ unat exponent))"

lemma power_width_sound:
  assumes "pigen_integer_power_width_u64 base exponent = Some w" and "w < UINT64_MAX"
  shows "w = power_width base exponent"
proof -
  consider (trivial) "exponent = 0 \<or> base \<le> 1"
    | (exact) "exponent \<noteq> 0" "\<not> base \<le> 1" "base AND (base - 1) = 0"
    | (general) "exponent \<noteq> 0" "\<not> base \<le> 1" "base AND (base - 1) \<noteq> 0" by blast
  then show ?thesis
  proof cases
    case trivial
    then have "exponent = 0 \<or> base = 0 \<or> base = 1"
      by (metis order_le_less word_less_1)
    then show ?thesis
      using assms trivial
      by (cases "unat exponent") (auto simp: pigen_integer_power_width_u64_def power_width_def)
  next
    case exact
    then have b: "1 < unat base" by (simp add: word_le_nat_alt)
    have "w = unat exponent * (63 - builtin_clzll base) + 1"
      using assms(1) exact by (simp add: pigen_integer_power_width_u64_def Let_def split: if_splits)
    then show ?thesis
      using power_of_two_width(1) [OF b exact(3), of exponent] by (simp add: power_width_def)
  next
    case general
    then have b: "0 < base" by (metis word_gt_0 word_zero_le)
    have "precision_loop base exponent 128 = Some w"
      using assms(1) general by (simp add: pigen_integer_power_width_u64_def)
    from precision_loop_sound [OF this b assms(2)] have w: "w = bit_length (unat base ^ unat exponent)" .
    have "0 < unat base" using b by (simp add: word_less_nat_alt)
    then have "0 < unat base ^ unat exponent" by simp
    then have "1 \<le> bit_length (unat base ^ unat exponent)" by (simp only: bit_length_pos)
    with w show ?thesis by (simp add: power_width_def)
  qed
qed

section \<open>Completeness\<close>

text \<open>
  \<open>close_ends I e\<close>: the lower end is within \<open>e / 2 ^ 126\<close> of the upper end. A product adds the
  errors of its factors, and cutting to a precision of at least 128 bits adds one.
\<close>

definition close_ends :: "magnitude_interval \<Rightarrow> nat \<Rightarrow> bool" where
  "close_ends I e \<longleftrightarrow>
     (2 ^ 126 - int e) * int (mag (upper I)) \<le> 2 ^ 126 * int (mag (lower I))"

lemma close_product:
  fixes N a b x y x' y' :: int
  assumes "0 < N" "0 \<le> a" "a \<le> N" "0 \<le> b" "b \<le> N" "0 \<le> x" "0 \<le> y" "0 \<le> x'" "0 \<le> y'"
    and x: "(N - a) * x \<le> N * x'" and y: "(N - b) * y \<le> N * y'"
  shows "(N - (a + b)) * (x * y) \<le> N * (x' * y')"
proof -
  have "N * (N - (a + b)) \<le> (N - a) * (N - b)"
    using mult_nonneg_nonneg [OF assms(2,4)] by (simp add: algebra_simps)
  then have "N * (N - (a + b)) * (x * y) \<le> (N - a) * (N - b) * (x * y)"
    using assms by (intro mult_right_mono) auto
  also have "\<dots> = ((N - a) * x) * ((N - b) * y)" by (simp add: algebra_simps)
  also have "\<dots> \<le> (N * x') * (N * y')" using assms(1-9) by (intro mult_mono [OF x y]) auto
  finally have "N * ((N - (a + b)) * (x * y)) \<le> N * (N * (x' * y'))" by (simp add: algebra_simps)
  then show ?thesis using assms(1) by simp
qed

lemma close_rounding:
  fixes N e D :: int
  assumes N: "0 < N" and e: "0 \<le> e" "e + 1 \<le> N" and D: "0 < D"
    and close: "(N - e) * u \<le> N * l" and u: "2 * N * D \<le> u"
    and l': "l < (l' + 1) * D" and u': "(u' - 1) * D < u"
  shows "(N - (e + 1)) * u' \<le> N * l'"
proof -
  have "(N - (e + 1)) * (u' * D) \<le> (N - (e + 1)) * (u + D)"
    using u' e by (intro mult_left_mono) (auto simp: algebra_simps)
  also have "\<dots> = (N - e) * u - u + (N - (e + 1)) * D" by (simp add: algebra_simps)
  also have "\<dots> \<le> N * l - 2 * N * D + (N - (e + 1)) * D" using close u by simp
  also have "\<dots> \<le> N * l - N * D"
  proof -
    have "0 \<le> (e + 1) * D" using e D by simp
    then show ?thesis by (simp add: algebra_simps)
  qed
  also have "\<dots> \<le> N * (l' * D)"
  proof -
    have "N * l \<le> N * ((l' + 1) * D)" using l' N by (intro mult_left_mono) auto
    then show ?thesis by (simp add: algebra_simps)
  qed
  finally have "(N - (e + 1)) * u' * D \<le> N * l' * D" by (simp add: mult.assoc)
  then show ?thesis using D by simp
qed

lemma close_mono: "close_ends I e \<Longrightarrow> e \<le> e' \<Longrightarrow> close_ends I e'"
  unfolding close_ends_def
  by (erule order_trans [rotated]) (intro mult_right_mono, auto)

lemma close_half:
  assumes "close_ends I e" and "e \<le> 2 ^ 125"
  shows "mag (upper I) \<le> 2 * mag (lower I)"
proof -
  have "int e \<le> 2 ^ 125" using assms(2) by simp
  then have "2 ^ 125 * int (mag (upper I)) \<le> (2 ^ 126 - int e) * int (mag (upper I))"
    by (intro mult_right_mono) auto
  also have "\<dots> \<le> 2 ^ 126 * int (mag (lower I))" using assms(1) by (simp only: close_ends_def)
  finally have "int (mag (upper I)) \<le> int (2 * mag (lower I))" by simp
  then show ?thesis by (simp only: of_nat_le_iff)
qed

text \<open>An interval around a positive value of at most \<open>2 ^ 63\<close> bits whose ends are close.\<close>

definition tight :: "magnitude_interval \<Rightarrow> nat \<Rightarrow> nat \<Rightarrow> bool" where
  "tight I v e \<longleftrightarrow> encloses I v \<and> close_ends I e \<and> e \<le> 2 ^ 125 \<and> 0 < v \<and> bit_length v \<le> 2 ^ 63"

definition uncut :: "magnitude_interval \<Rightarrow> bool" where
  "uncut I \<longleftrightarrow> lower I = upper I \<and> shift I = 0"

lemma length_width:
  assumes "normalized xs" and "bit_length (mag xs) \<le> 2 ^ 63 + 1"
  shows "length xs \<le> 2 ^ 58 + 1"
proof -
  have "length xs = (bit_length (mag xs) + 31) div 32"
    using length_limbs_of_value [OF assms(1)] by (simp add: limbs_of_value_def)
  then show ?thesis using assms(2) by simp
qed

lemma tight_ends:
  assumes "tight I v e"
  shows "0 < mag (lower I)" and "shift I + bit_length (mag (lower I)) \<le> bit_length v"
    and "bit_length (mag (upper I)) \<le> bit_length (mag (lower I)) + 1"
    and "length (lower I) \<le> 2 ^ 58 + 1" and "length (upper I) \<le> 2 ^ 58 + 1"
    and "lower I \<noteq> []" and "upper I \<noteq> []"
proof -
  have enc: "encloses I v" and v: "0 < v" "bit_length v \<le> 2 ^ 63"
    and half: "mag (upper I) \<le> 2 * mag (lower I)"
    using assms close_half by (auto simp: tight_def)
  have "0 < mag (upper I)" using enc v by (cases "mag (upper I) = 0") (auto simp: encloses_def)
  then show l: "0 < mag (lower I)" using half by simp
  have "bit_length (mag (lower I) * 2 ^ shift I) \<le> bit_length v"
    using enc by (intro bit_length_mono) (simp add: encloses_def)
  then show s: "shift I + bit_length (mag (lower I)) \<le> bit_length v"
    using l by (simp add: bit_length_mult_exp)
  have "bit_length (mag (upper I)) \<le> bit_length (mag (lower I) * 2 ^ 1)"
    using half by (intro bit_length_mono) simp
  then show u: "bit_length (mag (upper I)) \<le> bit_length (mag (lower I)) + 1"
    using l by (simp only: bit_length_mult_exp)
  show "length (lower I) \<le> 2 ^ 58 + 1" "length (upper I) \<le> 2 ^ 58 + 1"
    using length_width enc v s u by (auto simp: encloses_def)
  show "lower I \<noteq> []" "upper I \<noteq> []" using l \<open>0 < mag (upper I)\<close> by auto
qed

lemma small_width:
  assumes "normalized xs" and "length xs \<le> 2 ^ 58 + 1"
  shows "magnitude_width xs = bit_length (mag xs)"
  using assms by (intro magnitude_width) (auto simp: SIZE_MAX_def)

lemma floor_above: "int n < (int (n div 2 ^ d) + 1) * 2 ^ d"
proof -
  have "n < (n div 2 ^ d + 1) * 2 ^ d"
  proof -
    have "n mod 2 ^ d < 2 ^ d" by simp
    then show ?thesis using div_mult_mod_eq [of n "2 ^ d"] unfolding add_mult_distrib by linarith
  qed
  then have "int n < int ((n div 2 ^ d + 1) * 2 ^ d)" by (simp only: of_nat_less_iff)
  then show ?thesis by (simp add: algebra_simps)
qed

lemma ceil_below: "(int ((n + (2 ^ d - 1)) div 2 ^ d) - 1) * 2 ^ d < int n"
proof -
  have "(n + (2 ^ d - 1)) div 2 ^ d * 2 ^ d \<le> n + (2 ^ d - 1)" by (rule div_times_less_eq_dividend)
  then have "int ((n + (2 ^ d - 1)) div 2 ^ d * 2 ^ d) \<le> int (n + (2 ^ d - 1))"
    by (simp only: of_nat_le_iff)
  moreover have "int (n + (2 ^ d - 1)) = int n + (2 ^ d - 1)"
    by (simp only: of_nat_add of_nat_diff one_le_numeral one_le_power of_nat_power of_nat_numeral of_nat_1)
  ultimately have "int ((n + (2 ^ d - 1)) div 2 ^ d) * 2 ^ d \<le> int n + (2 ^ d - 1)"
    by (simp only: of_nat_mult of_nat_power of_nat_numeral)
  then show ?thesis by (simp add: algebra_simps)
qed

lemma tight_multiply:
  assumes A: "tight A a eA" and B: "tight B b eB" and e: "eA + eB + 1 \<le> 2 ^ 125"
    and ab: "bit_length (a * b) \<le> 2 ^ 63" and p: "128 \<le> p"
  shows "\<exists>C. magnitude_interval_multiply A B p = Some C \<and> tight C (a * b) (eA + eB + 1) \<and>
    (uncut A \<longrightarrow> uncut B \<longrightarrow> bit_length (a * b) \<le> p \<longrightarrow> uncut C)"
proof -
  note ta = tight_ends [OF A] and tb = tight_ends [OF B]
  have encA: "encloses A a" and encB: "encloses B b" and a: "0 < a" and b: "0 < b"
    using A B by (auto simp: tight_def)
  have quarter: "length xs \<le> 2 ^ 58 + 1 \<Longrightarrow> length ys \<le> 2 ^ 58 + 1 \<Longrightarrow>
      length xs + length ys \<le> SIZE_MAX div 4" for xs ys :: "limb list"
    by (simp add: SIZE_MAX_def)
  obtain l where l: "magnitude_multiply (lower A) (lower B) = Some l"
    using magnitude_multiply_Some [OF ta(6) tb(6) quarter [OF ta(4) tb(4)]] by blast
  obtain u where u: "magnitude_multiply (upper A) (upper B) = Some u"
    using magnitude_multiply_Some [OF ta(7) tb(7) quarter [OF ta(5) tb(5)]] by blast
  note lf = magnitude_multiply [OF l] and uf = magnitude_multiply [OF u]
  let ?s = "shift A + shift B" and ?N = "2 ^ 126 :: int"
  have eN: "int (eA + eB + 1) \<le> 2 ^ 125" using e by simp
  have prod: "(?N - (int eA + int eB)) * (int (mag (upper A)) * int (mag (upper B))) \<le>
      ?N * (int (mag (lower A)) * int (mag (lower B)))"
    by (rule close_product) (use A B eN in \<open>auto simp: tight_def close_ends_def\<close>)
  define P where "P = \<lparr>lower = l, upper = u, shift = ?s\<rparr>"
  have closeP: "close_ends P (eA + eB)" using prod by (simp add: close_ends_def P_def lf uf)
  have encP: "encloses P (a * b)"
  proof -
    have "mag l * 2 ^ ?s \<le> a * b"
      using mult_le_mono [of "mag (lower A) * 2 ^ shift A" a "mag (lower B) * 2 ^ shift B" b] encA encB
      by (simp add: encloses_def lf(1) power_add algebra_simps)
    moreover have "a * b \<le> mag u * 2 ^ ?s"
      using mult_le_mono [of a "mag (upper A) * 2 ^ shift A" b "mag (upper B) * 2 ^ shift B"] encA encB
      by (simp add: encloses_def uf(1) power_add algebra_simps)
    ultimately show ?thesis using lf(2) uf(2) by (simp add: encloses_def P_def)
  qed
  have P: "tight P (a * b) (eA + eB)"
    using encP closeP e ab a b by (simp add: tight_def)
  note tp = tight_ends [OF P, unfolded P_def magnitude_interval.simps]
  have w: "magnitude_width u = bit_length (mag u)" by (rule small_width [OF uf(2) tp(5)])
  define d where "d = (if magnitude_width u > p then magnitude_width u - p else 0)"
  have shift: "shift A \<le> UINT64_MAX - shift B" "?s + d \<le> UINT64_MAX"
  proof -
    have "?s + d \<le> 2 ^ 63" using tp(2,3) ab w p by (auto simp: d_def)
    then have "?s + d \<le> UINT64_MAX" by (simp add: UINT64_MAX_def)
    then show "shift A \<le> UINT64_MAX - shift B" "?s + d \<le> UINT64_MAX" by auto
  qed
  show ?thesis
  proof (cases "d = 0")
    case True
    have "magnitude_interval_multiply A B p = Some P"
      using l u shift True by (simp add: magnitude_interval_multiply_def d_def Let_def P_def split: if_splits)
    moreover have "uncut A \<Longrightarrow> uncut B \<Longrightarrow> uncut P" using l u by (simp add: uncut_def P_def)
    ultimately show ?thesis
      using P e by (auto simp: tight_def intro: close_mono)
  next
    case False
    define C where "C = \<lparr>lower = magnitude_shift_right l d False,
        upper = magnitude_shift_right u d True, shift = ?s + d\<rparr>"
    have C: "magnitude_interval_multiply A B p = Some C"
      using l u shift False by (simp add: magnitude_interval_multiply_def d_def Let_def C_def split: if_splits)
    have encC: "encloses C (a * b)" by (rule magnitude_interval_multiply_sound [OF encA encB C])
    have "close_ends C (eA + eB + 1)"
    proof -
      have "2 ^ (p + d - 1) \<le> mag u"
        using False w bit_length_less_iff [of "p + d - 1" "mag u"] p by (auto simp: d_def split: if_splits)
      moreover have "(2 :: nat) ^ (127 + d) \<le> 2 ^ (p + d - 1)" using p by (intro power_increasing) auto
      ultimately have "2 ^ (127 + d) \<le> mag u" by linarith
      then have big: "2 * ?N * 2 ^ d \<le> int (mag u)"
      proof -
        have "int (2 ^ (127 + d)) \<le> int (mag u)" using \<open>2 ^ (127 + d) \<le> mag u\<close> by (simp only: of_nat_le_iff)
        then show ?thesis by (simp add: power_add)
      qed
      have lo: "int (mag l) < (int (mag (lower C)) + 1) * 2 ^ d"
        using floor_above [of "mag l" d] by (simp add: C_def mag_shift_right)
      have hi: "(int (mag (upper C)) - 1) * 2 ^ d < int (mag u)"
        using ceil_below [of "mag u" d] by (simp add: C_def mag_shift_right)
      show ?thesis
        unfolding close_ends_def
        using close_rounding [of ?N "int (eA + eB)" "2 ^ d" "int (mag u)" "int (mag l)", OF _ _ _ _ _ big lo hi]
          closeP eN by (simp add: close_ends_def P_def algebra_simps)
    qed
    moreover have "uncut A \<Longrightarrow> uncut B \<Longrightarrow> \<not> bit_length (a * b) \<le> p"
    proof -
      assume "uncut A" "uncut B"
      then have "a * b = mag u" using encA encB uf(1) by (auto simp: uncut_def encloses_def)
      with False w show "\<not> bit_length (a * b) \<le> p" by (simp add: d_def split: if_splits)
    qed
    ultimately show ?thesis using C encC e ab a b by (auto simp: tight_def)
  qed
qed

lemma error_step:
  "(if odd n then r + f + 1 else r) + (n div 2) * (2 * f + 2) = r + n * (f + 1)" for n r f :: nat
proof -
  have "n * (f + 1) = (n mod 2 + 2 * (n div 2)) * (f + 1)" by simp
  also have "\<dots> = n mod 2 * (f + 1) + n div 2 * (2 * f + 2)" by (simp only: add_mult_distrib) simp
  finally show ?thesis by (simp add: mod2_eq_if)
qed

lemma tight_value_mono:
  "bit_length v \<le> k \<Longrightarrow> w \<le> v \<Longrightarrow> bit_length w \<le> k"
  using bit_length_mono order_trans by blast

lemma power_interval_loop_total:
  assumes "tight R r eR" and "tight F f eF" and "eR + unat n * (eF + 1) \<le> 2 ^ 125"
    and "bit_length (r * f ^ unat n) \<le> 2 ^ 63" and "128 \<le> p"
  shows "\<exists>X. power_interval_loop R F n p = Some X \<and> tight X (r * f ^ unat n) (eR + unat n * (eF + 1)) \<and>
    (uncut R \<longrightarrow> uncut F \<longrightarrow> bit_length (r * f ^ unat n) \<le> p \<longrightarrow> uncut X)"
  using assms
proof (induction R F n p arbitrary: r f eR eF rule: power_interval_loop.induct)
  case (1 R F n p)
  note R = 1(2) and F = 1(3) and e = 1(4) and bits = 1(5) and p = 1(6)
  let ?v = "r * f ^ unat n"
  have rf: "0 < r" "0 < f" using R F by (auto simp: tight_def)
  show ?case
  proof (cases "n = 0")
    case True
    with R bits show ?thesis by (simp add: power_interval_loop.simps)
  next
    case False
    then have n: "0 < unat n" by (simp add: unat_gt_0)
    let ?r1 = "if odd (unat n) then r * f else r" and ?e1 = "if odd (unat n) then eR + eF + 1 else eR"
    have step: "?r1 * (f * f) ^ (unat n div 2) = ?v" by (rule square_step)
    have estep: "?e1 + (unat n div 2) * (2 * eF + 2) = eR + unat n * (eF + 1)" by (rule error_step)
    have "1 \<le> (f * f) ^ (unat n div 2)" using rf by simp
    then have "?r1 * 1 \<le> ?v" unfolding step [symmetric] by (rule mult_le_mono2)
    then have r1: "?r1 \<le> ?v" by simp
    have "\<exists>R1. (if n AND 1 \<noteq> 0 then magnitude_interval_multiply R F p else Some R) = Some R1 \<and>
      tight R1 ?r1 ?e1 \<and> (uncut R \<longrightarrow> uncut F \<longrightarrow> bit_length ?v \<le> p \<longrightarrow> uncut R1)"
    proof (cases "odd (unat n)")
      case True
      have "eR + eF + 1 \<le> 2 ^ 125" using estep e True by simp
      from tight_multiply [OF R F this tight_value_mono [OF bits] p] r1 True show ?thesis
        unfolding odd_word by (auto intro: tight_value_mono)
    next
      case False
      with R show ?thesis by (simp add: odd_word)
    qed
    then obtain R1 where R1: "(if n AND 1 \<noteq> 0 then magnitude_interval_multiply R F p else Some R) = Some R1"
      and t1: "tight R1 ?r1 ?e1" and u1: "uncut R \<Longrightarrow> uncut F \<Longrightarrow> bit_length ?v \<le> p \<Longrightarrow> uncut R1"
      by blast
    show ?thesis
    proof (cases "drop_bit 1 n = 0")
      case True
      then have X: "power_interval_loop R F n p = Some R1"
        using False R1 by (simp add: power_interval_loop.simps [of R F n p])
      have "unat n div 2 = 0" using True by (metis unat_drop_1 unat_0)
      with step estep have "?r1 = ?v" "?e1 = eR + unat n * (eF + 1)" by simp_all
      with X t1 u1 show ?thesis by auto
    next
      case more: False
      then have n2: "0 < unat n div 2" by (metis unat_drop_1 unat_gt_0)
      have "f * f \<le> ?v"
      proof -
        have "(f * f) ^ 1 \<le> (f * f) ^ (unat n div 2)" using rf n2 by (intro power_increasing) auto
        also have "\<dots> \<le> ?r1 * (f * f) ^ (unat n div 2)" using rf by simp
        finally show ?thesis unfolding step by simp
      qed
      moreover have eF: "eF + eF + 1 \<le> 2 ^ 125"
      proof -
        have "1 * (2 * eF + 2) \<le> (unat n div 2) * (2 * eF + 2)" using n2 by (intro mult_le_mono1) simp
        also have "\<dots> \<le> eR + unat n * (eF + 1)" unfolding estep [symmetric] by (rule le_add2)
        finally show ?thesis using e by simp
      qed
      ultimately obtain F1 where F1: "magnitude_interval_multiply F F p = Some F1"
        and tF: "tight F1 (f * f) (eF + eF + 1)"
        and uF: "uncut F \<Longrightarrow> bit_length ?v \<le> p \<Longrightarrow> uncut F1"
        using tight_multiply [OF F F eF tight_value_mono [OF bits] p] tight_value_mono [of ?v p "f * f"]
        by blast
      have X: "power_interval_loop R F n p = power_interval_loop R1 F1 (drop_bit 1 n) p"
        using False R1 more F1 by (simp add: power_interval_loop.simps [of R F n p])
      have err: "?e1 + unat (drop_bit 1 n) * (eF + eF + 1 + 1) = eR + unat n * (eF + 1)"
        using estep by (simp add: unat_drop_1 [simplified] mult_2)
      have val: "?r1 * (f * f) ^ unat (drop_bit 1 n) = ?v" unfolding unat_drop_1 by (rule step)
      from 1(1) [OF False R1 more F1 t1 tF, unfolded err val, OF e bits p] u1 uF show ?thesis
        unfolding X by blast
    qed
  qed
qed

text \<open>At every working precision the loop delivers an interval, and at \<open>2 ^ 63\<close> an exact one.\<close>

lemma tight_u64:
  assumes "0 < unat v"
  shows "tight (magnitude_interval_u64 v) (unat v) 0" and "uncut (magnitude_interval_u64 v)"
proof -
  have "bit_length (unat v) \<le> 64" using u64_lt [of v] by (simp add: bit_length_le_iff)
  then show "tight (magnitude_interval_u64 v) (unat v) 0"
    using assms magnitude_interval_u64 [of v] by (simp add: tight_def close_ends_def)
  show "uncut (magnitude_interval_u64 v)" using magnitude_interval_u64 [of v] by (simp add: uncut_def)
qed

lemma precision_round:
  assumes base: "0 < unat base" and bits: "bit_length (unat base ^ unat exponent) \<le> 2 ^ 63"
    and p: "128 \<le> p"
  shows "\<exists>resolved. (bit_length (unat base ^ unat exponent) \<le> p \<longrightarrow> resolved) \<and>
    precision_loop base exponent p =
      (if resolved then Some (bit_length (unat base ^ unat exponent))
       else if p = 0 \<or> p > SIZE_MAX div 2 then None else precision_loop base exponent (p * 2))"
proof -
  let ?v = "unat base ^ unat exponent"
  have "unat exponent \<le> 2 ^ 125" using u64_lt [of exponent] by simp
  then obtain X e where X: "power_interval_loop (magnitude_interval_u64 1) (magnitude_interval_u64 base) exponent p = Some X"
    and t: "tight X ?v e" and u: "bit_length ?v \<le> p \<Longrightarrow> uncut X"
    using power_interval_loop_total [OF tight_u64(1) tight_u64(1) [OF base], of 1 exponent p] bits p
      tight_u64(2) [of 1] tight_u64(2) [OF base] by auto
  note ends = tight_ends [OF t]
  let ?lw = "magnitude_width (lower X)" and ?uw = "magnitude_width (upper X)"
  have w: "?lw = bit_length (mag (lower X))" "?uw = bit_length (mag (upper X))"
    using small_width ends(4,5) t by (auto simp: tight_def encloses_def)
  have small: "shift X + ?lw \<le> 2 ^ 63" "?uw \<le> ?lw + 1" using ends(2,3) bits w by auto
  then have "shift X \<le> UINT64_MAX - ?lw" "shift X \<le> UINT64_MAX - ?uw"
    by (auto simp: UINT64_MAX_def)
  moreover have "?lw \<noteq> SIZE_MAX" using small by (auto simp: SIZE_MAX_def)
  then have "?lw = ?uw \<Longrightarrow> shift X + ?lw = bit_length ?v"
    using encloses_width [of X ?v] t by (auto simp: tight_def)
  ultimately have "precision_loop base exponent p =
      (if ?lw = ?uw then Some (bit_length ?v)
       else if p = 0 \<or> p > SIZE_MAX div 2 then None else precision_loop base exponent (p * 2))"
    using X by (simp add: precision_loop.simps [of base exponent p] Let_def)
  moreover have "bit_length ?v \<le> p \<Longrightarrow> ?lw = ?uw" using u by (simp add: uncut_def)
  ultimately show ?thesis by blast
qed

lemma precision_loop_total:
  assumes base: "0 < unat base" and bits: "bit_length (unat base ^ unat exponent) \<le> 2 ^ 63"
  shows "7 \<le> j \<Longrightarrow> j \<le> 63 \<Longrightarrow>
    precision_loop base exponent (2 ^ j) = Some (bit_length (unat base ^ unat exponent))"
proof (induction "63 - j" arbitrary: j)
  case (0 j)
  then have "bit_length (unat base ^ unat exponent) \<le> 2 ^ j" using bits by simp
  moreover have "(128 :: nat) \<le> 2 ^ j" using 0 by simp
  ultimately show ?case using precision_round [OF base bits, of "2 ^ j"] by auto
next
  case (Suc k j)
  then have j: "j < 63" by simp
  have "(2 :: nat) ^ 7 \<le> 2 ^ j" using Suc by (intro power_increasing) auto
  then have "(128 :: nat) \<le> 2 ^ j" by simp
  moreover have "(2 :: nat) ^ j \<le> 2 ^ 62" using j by (intro power_increasing) auto
  then have "\<not> ((2 :: nat) ^ j = 0 \<or> 2 ^ j > SIZE_MAX div 2)" by (simp add: SIZE_MAX_def)
  moreover have "precision_loop base exponent (2 ^ Suc j) = Some (bit_length (unat base ^ unat exponent))"
    using Suc by (intro Suc.hyps) auto
  ultimately show ?case
    using precision_round [OF base bits, of "2 ^ j"] by (auto simp: mult.commute)
qed

lemma power_width_complete:
  assumes "bit_length (unat base ^ unat exponent) \<le> 2 ^ 63"
  shows "pigen_integer_power_width_u64 base exponent = Some (power_width base exponent)"
proof -
  consider (trivial) "exponent = 0 \<or> base \<le> 1"
    | (exact) "exponent \<noteq> 0" "\<not> base \<le> 1" "base AND (base - 1) = 0"
    | (general) "exponent \<noteq> 0" "\<not> base \<le> 1" "base AND (base - 1) \<noteq> 0" by blast
  then show ?thesis
  proof cases
    case trivial
    then have r: "pigen_integer_power_width_u64 base exponent = Some 1"
      by (simp add: pigen_integer_power_width_u64_def)
    with power_width_sound [OF r] show ?thesis by (simp add: UINT64_MAX_def)
  next
    case exact
    then have b: "1 < unat base" by (simp add: word_le_nat_alt)
    note w = power_of_two_width(1) [OF b exact(3), of exponent] power_of_two_width(2) [OF b exact(3)]
    let ?l = "63 - builtin_clzll base"
    have "unat exponent * ?l \<le> UINT64_MAX - 1" using assms w(1) by (simp add: UINT64_MAX_def)
    then have "\<not> unat exponent > (UINT64_MAX - 1) div ?l"
      using w(2) by (metis div_le_mono nonzero_mult_div_cancel_right not_less less_numeral_extra(3))
    then have r: "pigen_integer_power_width_u64 base exponent = Some (unat exponent * ?l + 1)"
      using exact by (simp add: pigen_integer_power_width_u64_def Let_def)
    with w(1) show ?thesis by (simp add: power_width_def)
  next
    case general
    then have b: "0 < unat base" by (metis unat_gt_0 word_zero_le)
    then have "0 < unat base ^ unat exponent" by simp
    then have "1 \<le> bit_length (unat base ^ unat exponent)" by (simp only: bit_length_pos)
    with general precision_loop_total [OF b assms, of 7] show ?thesis
      by (simp add: pigen_integer_power_width_u64_def power_width_def)
  qed
qed

section \<open>Powers of interned integers\<close>

function power_loop ::
    "'a integer_arena_scheme \<Rightarrow> id \<Rightarrow> id \<Rightarrow> u64 \<Rightarrow> nat \<Rightarrow> id \<times> 'a integer_arena_scheme" where
  "power_loop model result factor power1 maximum_bits =
     (if power1 = 0 then (result, model)
      else
        let (result1, model1) = (if power1 AND 1 \<noteq> 0
            then integer_multiply_bounded model result factor maximum_bits else (result, model))
        in if power1 AND 1 \<noteq> 0 \<and> result1 = PIGEN_INVALID_ID then (PIGEN_INVALID_ID, model1)
           else if drop_bit 1 power1 = 0 then (result1, model1)
           else
             let (factor1, model2) = integer_multiply_bounded model1 factor factor maximum_bits
             in if factor1 = PIGEN_INVALID_ID then (PIGEN_INVALID_ID, model2)
                else power_loop model2 result1 factor1 (drop_bit 1 power1) maximum_bits)"
  by auto
termination
  by (relation "measure (\<lambda>(_, _, _, power1, _). unat power1)")
    (auto simp: unat_drop_1 [simplified] unat_gt_0)

declare power_loop.simps [simp del]

definition pigen_integer_power ::
    "'a integer_arena_scheme \<Rightarrow> id \<Rightarrow> id \<Rightarrow> nat \<Rightarrow> id \<times> 'a integer_arena_scheme" where
  "pigen_integer_power model base_id exponent_id maximum_bits =
     (case (integer_get model base_id, integer_get model exponent_id) of
        (Some base, Some exponent) \<Rightarrow>
          if maximum_bits = 0 then (PIGEN_INVALID_ID, model)
          else
            let base_is_zero = (limb_count base = 0);
                exponent_is_zero = (limb_count exponent = 0);
                exponent_is_odd = (limb_count exponent \<noteq> 0 \<and> limbs_or_empty model exponent ! 0 AND 1 \<noteq> 0)
            in if negative exponent then (PIGEN_INVALID_ID, model)
               else
                 let (one, model1) = pigen_integer_intern_u64 model 1
                 in if one = PIGEN_INVALID_ID then (PIGEN_INVALID_ID, model1)
                    else if exponent_is_zero then (one, model1)
                    else if base_is_zero then pigen_integer_intern_u64 model1 0
                    else if pigen_integer_compare model1 base_id one = 0 then (one, model1)
                    else
                      let (negative_one, model2) = pigen_integer_negate model1 one
                      in if negative_one = PIGEN_INVALID_ID then (PIGEN_INVALID_ID, model2)
                         else if pigen_integer_compare model2 base_id negative_one = 0
                         then (if exponent_is_odd then negative_one else one, model2)
                         else (case pigen_integer_to_size model2 exponent_id of
                             None \<Rightarrow> (PIGEN_INVALID_ID, model2)
                           | Some power1 \<Rightarrow> power_loop model2 one base_id power1 maximum_bits)
      | _ \<Rightarrow> (PIGEN_INVALID_ID, model))"

text \<open>
  What a bounded operation delivers: \<open>x\<close> when it has at most \<open>maximum_bits\<close> bits, and a failed
  identity otherwise; \<open>n\<close> bounds the limbs of every value interned on the way.
\<close>

definition yields_bounded ::
    "'a integer_arena_scheme \<Rightarrow> id \<times> 'a integer_arena_scheme \<Rightarrow> int \<Rightarrow> nat \<Rightarrow> nat \<Rightarrow> bool" where
  "yields_bounded model r x maximum_bits n \<longleftrightarrow>
     (if bit_length (nat \<bar>x\<bar>) \<le> maximum_bits then yields model r x n
      else fst r = PIGEN_INVALID_ID \<and> integer_inv (snd r) \<and> integer_extends model (snd r))"

lemma yields_bounded_then:
  "integer_extends m m1 \<Longrightarrow> yields_bounded m1 r x k n \<Longrightarrow> yields_bounded m r x k n"
  by (auto simp: yields_bounded_def intro: yields_then integer_extends_trans)

lemma yields_bounded_invalid:
  "yields m (PIGEN_INVALID_ID, m') y n' \<Longrightarrow> n' \<le> n \<Longrightarrow> yields_bounded m (PIGEN_INVALID_ID, m') x k n"
  by (auto simp: yields_bounded_def yields_def intro: exhausted_mono)

text \<open>A factor of a value, other than zero, is no wider and takes no more limbs.\<close>

lemma factor_bits:
  assumes "x = y * (z :: int)" and "z \<noteq> 0"
  shows "bit_length (nat \<bar>y\<bar>) \<le> bit_length (nat \<bar>x\<bar>)" and "limbs_of_value y \<le> limbs_of_value x"
proof -
  have "\<bar>y\<bar> * 1 \<le> \<bar>y\<bar> * \<bar>z\<bar>" using assms(2) by (intro mult_left_mono) auto
  then have "nat \<bar>y\<bar> \<le> nat \<bar>x\<bar>" using assms(1) by (simp add: abs_mult)
  then show b: "bit_length (nat \<bar>y\<bar>) \<le> bit_length (nat \<bar>x\<bar>)" by (rule bit_length_mono)
  then show "limbs_of_value y \<le> limbs_of_value x"
    by (simp add: limbs_of_value_def div_le_mono)
qed

lemma integer_multiply_yields_bounded:
  assumes "integer_inv m" and "integer_valid m i" and "integer_valid m j"
    and "moderate (integer_value m i)" and "moderate (integer_value m j)" and "0 < maximum_bits"
  shows "yields_bounded m (integer_multiply_bounded m i j maximum_bits)
    (integer_value m i * integer_value m j) maximum_bits
    (limbs_of_value (integer_value m i * integer_value m j))"
  using integer_multiply_bounded [OF assms] assms(1) by (auto simp: yields_bounded_def)

text \<open>A bounded product either fails, and with it every multiple, or is usable.\<close>

lemma bounded_step:
  assumes y: "yields_bounded m (i, m') y k (limbs_of_value y)" and x: "x = y * z" "z \<noteq> 0"
  obtains (failed) "i = PIGEN_INVALID_ID" "yields_bounded m (PIGEN_INVALID_ID, m') x k (limbs_of_value x)"
    | (usable) "i \<noteq> PIGEN_INVALID_ID" "integer_inv m'" "integer_extends m m'" "integer_valid m' i"
      "integer_value m' i = y" "bit_length (nat \<bar>y\<bar>) \<le> k"
proof (cases "i = PIGEN_INVALID_ID")
  case True
  note le = factor_bits [OF x]
  have "yields_bounded m (PIGEN_INVALID_ID, m') x k (limbs_of_value x)"
    using y le True exhausted_mono [OF _ le(2), of m']
    by (auto simp: yields_bounded_def yields_def split: if_splits)
  with True failed show thesis by blast
next
  case False
  with y usable show thesis by (auto simp: yields_bounded_def yields_def split: if_splits)
qed

lemma power_loop:
  assumes "integer_inv m" and "integer_valid m ri" and "integer_valid m fi"
    and "integer_value m ri = r" and "integer_value m fi = f" and "r \<noteq> 0" and "f \<noteq> 0"
    and "bit_length (nat \<bar>r\<bar>) \<le> k" and "moderate f" and "0 < k" and "k \<le> 2 ^ 58"
  shows "yields_bounded m (power_loop m ri fi n k) (r * f ^ unat n) k (limbs_of_value (r * f ^ unat n))"
  using assms
proof (induction m ri fi n k arbitrary: r f rule: power_loop.induct)
  case (1 m ri fi n k)
  note inv = 1(2) and ri = 1(3) and fi = 1(4) and r = 1(5) and f = 1(6) and nz = 1(7,8)
    and bits = 1(9) and mf = 1(10) and k = 1(11,12)
  let ?x = "r * f ^ unat n"
  have mod: "bit_length (nat \<bar>y\<bar>) \<le> k \<Longrightarrow> moderate y" for y
    using k by (simp add: moderate_def)
  show ?case
  proof (cases "n = 0")
    case True
    then show ?thesis
      using yields_same [OF inv ri] r bits by (simp add: power_loop.simps yields_bounded_def)
  next
    case False
    let ?r1 = "if odd (unat n) then r * f else r" and ?q = "(f * f) ^ (unat n div 2)"
    have step: "?x = ?r1 * ?q" by (rule square_step [symmetric])
    have q: "?q \<noteq> 0" using nz by simp
    obtain r1 m1 where m1: "(if n AND 1 \<noteq> 0 then integer_multiply_bounded m ri fi k else (ri, m)) = (r1, m1)"
      by fastforce
    have y1: "yields_bounded m (r1, m1) ?r1 k (limbs_of_value ?r1)"
    proof (cases "odd (unat n)")
      case True
      then show ?thesis
        using integer_multiply_yields_bounded [OF inv ri fi _ _ k(1)] m1 r f mod [OF bits] mf
        by (simp add: odd_word)
    next
      case False
      then show ?thesis
        using yields_same [OF inv ri] m1 r bits by (simp add: odd_word yields_bounded_def)
    qed
    show ?thesis
    proof (cases rule: bounded_step [OF y1 step q])
      case 1
      then have "n AND 1 \<noteq> 0" using m1 integer_valid_not_invalid [OF inv ri] by (auto split: if_splits)
      then have "power_loop m ri fi n k = (PIGEN_INVALID_ID, m1)"
        using False m1 1(1) by (simp add: power_loop.simps [of m ri fi n k])
      with 1(2) show ?thesis by simp
    next
      case 2
      show ?thesis
      proof (cases "drop_bit 1 n = 0")
        case True
        then have "unat n div 2 = 0" by (metis unat_drop_1 unat_0)
        then have "?x = ?r1" using step by simp
        moreover have "power_loop m ri fi n k = (r1, m1)"
          using False m1 2(1) True by (simp add: power_loop.simps [of m ri fi n k])
        ultimately show ?thesis using y1 by simp
      next
        case more: False
        then obtain j where j: "unat n div 2 = Suc j" by (metis unat_drop_1 unat_gt_0 gr0_implies_Suc)
        obtain f1 m2 where m2: "integer_multiply_bounded m1 fi fi k = (f1, m2)" by fastforce
        have fi1: "integer_valid m1 fi" "integer_value m1 fi = f"
          using extends_valid [OF 2(3) fi] extends_value [OF inv 2(3) fi] f by auto
        have y2: "yields_bounded m1 (f1, m2) (f * f) k (limbs_of_value (f * f))"
          using integer_multiply_yields_bounded [OF 2(2) fi1(1) fi1(1) _ _ k(1)] m2 fi1(2) mf by simp
        have step2: "?x = (f * f) * (?r1 * (f * f) ^ j)" "?r1 * (f * f) ^ j \<noteq> 0"
          unfolding step j using nz by auto
        show ?thesis
        proof (cases rule: bounded_step [OF y2 step2])
          case failed: 1
          have "power_loop m ri fi n k = (PIGEN_INVALID_ID, m2)"
            using False m1 2(1) more m2 failed(1) by (simp add: power_loop.simps [of m ri fi n k])
          with failed(2) yields_bounded_then [OF 2(3)] show ?thesis by simp
        next
          case usable: 2
          have next_step: "power_loop m ri fi n k = power_loop m2 r1 f1 (drop_bit 1 n) k"
            using False m1 2(1) more m2 usable(1) by (simp add: power_loop.simps [of m ri fi n k])
          have r2: "integer_valid m2 r1" "integer_value m2 r1 = ?r1"
            using extends_valid [OF usable(3) 2(4)] extends_value [OF 2(2) usable(3) 2(4)] 2(5) by auto
          have "yields_bounded m2 (power_loop m2 r1 f1 (drop_bit 1 n) k) (?r1 * (f * f) ^ unat (drop_bit 1 n)) k
              (limbs_of_value (?r1 * (f * f) ^ unat (drop_bit 1 n)))"
            using nz 2(1,6) usable(1,2,4,5) r2 k mod [OF usable(6)]
            by (intro 1(1) [OF False m1 [symmetric] refl _ more m2 [symmetric] refl]) auto
          then have "yields_bounded m2 (power_loop m ri fi n k) ?x k (limbs_of_value ?x)"
            unfolding unat_drop_1 next_step step [symmetric] .
          then show ?thesis
            by (rule yields_bounded_then [OF integer_extends_trans [OF 2(3) usable(3)]])
        qed
      qed
    qed
  qed
qed

lemma limbs_or_empty_odd:
  assumes "integer_inv m" and "integer_valid m i"
  shows "limb_count (integers m ! i) \<noteq> 0 \<and> limbs_or_empty m (integers m ! i) ! 0 AND 1 \<noteq> 0 \<longleftrightarrow>
     odd (integer_value m i)"
  using integer_is_odd [OF assms] known_limbs(4) [OF assms refl] assms
  by (auto simp: pigen_integer_is_odd_def)

text \<open>A power with a base of at least two is wider than its exponent.\<close>

lemma power_bits: "2 \<le> \<bar>b\<bar> \<Longrightarrow> n < bit_length (nat \<bar>b ^ n\<bar>)" for b :: int
proof -
  assume "2 \<le> \<bar>b\<bar>"
  then have "2 ^ n \<le> nat \<bar>b\<bar> ^ n" by (intro power_mono) auto
  then show ?thesis by (simp add: bit_length_less_iff power_abs nat_power_eq)
qed

lemma integer_power_negative:
  "integer_inv m \<Longrightarrow> integer_valid m b \<Longrightarrow> integer_valid m e \<Longrightarrow> integer_value m e < 0 \<Longrightarrow>
   pigen_integer_power m b e k = (PIGEN_INVALID_ID, m)"
  using integer_is_negative [of m e] by (simp add: pigen_integer_power_def pigen_integer_is_negative_def)

lemma integer_power:
  assumes inv: "integer_inv m" and b: "integer_valid m b" and e: "integer_valid m e"
    and mod: "moderate (integer_value m b)" and nonneg: "0 \<le> integer_value m e"
    and k: "0 < k" "k \<le> 2 ^ 58"
  defines "x \<equiv> integer_value m b ^ nat (integer_value m e)"
  shows "yields_bounded m (pigen_integer_power m b e k) x k (max 1 (limbs_of_value x))"
proof -
  let ?b = "integer_value m b" and ?e = "integer_value m e"
  note kb = known_limbs [OF inv b refl] and ke = known_limbs [OF inv e refl]
  have zero_b: "limb_count (integers m ! b) = 0 \<longleftrightarrow> ?b = 0" using kb(5,7) by auto
  have zero_e: "limb_count (integers m ! e) = 0 \<longleftrightarrow> ?e = 0" using ke(5,7) by auto
  have pos: "\<not> negative (integers m ! e)" using nonneg ke(5,6,7) by auto
  have l1: "limbs_of_value 1 = 1" by (simp add: limbs_of_value_def)
  have bits1: "bit_length (nat \<bar>y\<bar>) \<le> k" if "\<bar>y\<bar> \<le> 1" for y :: int
  proof -
    have "nat \<bar>y\<bar> < 2 ^ k" using that one_less_power [of "2 :: nat" k] k by linarith
    then show ?thesis by (simp only: bit_length_le_iff)
  qed
  obtain one m1 where m1: "pigen_integer_intern_u64 m 1 = (one, m1)" by fastforce
  have y1: "yields m (one, m1) 1 1" using integer_intern_u64 [OF inv, of 1] m1 l1 by simp
  show ?thesis
  proof (cases "one = PIGEN_INVALID_ID")
    case True
    then have "pigen_integer_power m b e k = (PIGEN_INVALID_ID, m1)"
      using inv b e k pos m1 by (simp add: pigen_integer_power_def Let_def)
    with yields_bounded_invalid [of m m1 1 1] y1 True show ?thesis by simp
  next
    case one: False
    have inv1: "integer_inv m1" and ext1: "integer_extends m m1" and v1: "integer_valid m1 one"
      "integer_value m1 one = 1" using y1 one by (auto simp: yields_def)
    have b1: "integer_valid m1 b" "integer_value m1 b = ?b"
      using extends_valid [OF ext1 b] extends_value [OF inv ext1 b] by auto
    have cmp1: "pigen_integer_compare m1 b one = 0 \<longleftrightarrow> ?b = 1"
      using integer_compare [OF inv1 b1(1) v1(1)] b1(2) v1(2) by (simp add: sgn_0_0)
    note unfolded = pigen_integer_power_def Let_def m1
    consider (e0) "?e = 0" | (b0) "?e \<noteq> 0" "?b = 0" | (b1) "?e \<noteq> 0" "?b = 1"
      | (other) "?e \<noteq> 0" "?b \<noteq> 0" "?b \<noteq> 1" by blast
    then show ?thesis
    proof cases
      case e0
      then have "pigen_integer_power m b e k = (one, m1)" "x = 1"
        using inv b e k pos one zero_e by (auto simp: unfolded x_def)
      with y1 bits1 [of 1] show ?thesis by (simp add: yields_bounded_def l1)
    next
      case b0
      then have "pigen_integer_power m b e k = pigen_integer_intern_u64 m1 0" "x = 0"
        using inv b e k pos one zero_e zero_b nonneg by (auto simp: unfolded x_def)
      moreover have "yields m (pigen_integer_intern_u64 m1 0) 0 1"
        using integer_intern_u64 [OF inv1, of 0] yields_then [OF ext1] by (simp add: yields_mono limbs_of_value_def)
      ultimately show ?thesis using bits1 [of 0] by (simp add: yields_bounded_def limbs_of_value_def)
    next
      case b1
      then have "pigen_integer_power m b e k = (one, m1)" "x = 1"
        using inv b e k pos one zero_e zero_b cmp1 by (auto simp: unfolded x_def)
      with y1 bits1 [of 1] show ?thesis by (simp add: yields_bounded_def l1)
    next
      case other
      obtain neg m2 where m2: "pigen_integer_negate m1 one = (neg, m2)" by fastforce
      have y2: "yields m1 (neg, m2) (- 1) 1" using integer_negate [OF inv1 v1(1)] v1(2) m2 l1 by simp
      then have y2': "yields m (neg, m2) (- 1) 1" by (rule yields_then [OF ext1])
      show ?thesis
      proof (cases "neg = PIGEN_INVALID_ID")
        case True
        then have "pigen_integer_power m b e k = (PIGEN_INVALID_ID, m2)"
          using inv b e k pos one zero_e zero_b cmp1 other m2 by (simp add: unfolded)
        with yields_bounded_invalid [of m m2 "- 1" 1] y2' True show ?thesis by simp
      next
        case neg: False
        have inv2: "integer_inv m2" and ext2: "integer_extends m1 m2" and v2: "integer_valid m2 neg"
          "integer_value m2 neg = - 1" using y2 neg by (auto simp: yields_def)
        have ext: "integer_extends m m2" by (rule integer_extends_trans [OF ext1 ext2])
        have in2: "integer_valid m2 b" "integer_value m2 b = ?b" "integer_valid m2 e" "integer_value m2 e = ?e"
          "integer_valid m2 one" "integer_value m2 one = 1"
          using extends_valid [OF ext] extends_value [OF inv ext] b e
            extends_valid [OF ext2 v1(1)] extends_value [OF inv1 ext2 v1(1)] v1(2) by auto
        have cmp2: "pigen_integer_compare m2 b neg = 0 \<longleftrightarrow> ?b = - 1"
          using integer_compare [OF inv2 in2(1) v2(1)] in2(2) v2(2) by (auto simp: sgn_0_0)
        have body: "pigen_integer_power m b e k =
          (if ?b = - 1 then (if odd ?e then neg else one, m2)
           else case pigen_integer_to_size m2 e of None \<Rightarrow> (PIGEN_INVALID_ID, m2)
             | Some n \<Rightarrow> power_loop m2 one b n k)"
          using inv b e k pos one zero_e zero_b cmp1 other m2 neg cmp2 limbs_or_empty_odd [OF inv e]
          by (simp add: unfolded)
        show ?thesis
        proof (cases "?b = - 1")
          case True
          have "odd (nat ?e) \<longleftrightarrow> odd ?e" using nonneg by (simp add: even_nat_iff)
          then have x: "x = (if odd ?e then - 1 else 1)" using True by (simp add: x_def)
          have "yields m2 (one, m2) 1 1" using yields_same [OF inv2 in2(5)] in2(6) by metis
          then have "yields m (one, m2) 1 1" by (rule yields_then [OF ext])
          with y2' True x bits1 [of x] l1 show ?thesis
            by (auto simp: body yields_bounded_def limbs_of_value_def)
        next
          case False
          then have big: "2 \<le> \<bar>?b\<bar>" using other by linarith
          note conv = integer_to_u64 [OF inv2 in2(3), unfolded in2(4)]
          show ?thesis
          proof (cases "pigen_integer_to_u64 m2 e")
            case None
            then have "UINT64_MAX < nat ?e" using conv(1) nonneg by (auto simp: nat_less_iff)
            also have "\<dots> < bit_length (nat \<bar>x\<bar>)" unfolding x_def by (rule power_bits [OF big])
            finally have "\<not> bit_length (nat \<bar>x\<bar>) \<le> k" using k by (simp add: UINT64_MAX_def)
            then show ?thesis
              using None conv(2) False ext inv2 by (simp add: body yields_bounded_def)
          next
            case (Some n)
            then have n: "nat ?e = unat n" using conv(1) by simp
            have "yields_bounded m2 (power_loop m2 one b n k) (1 * ?b ^ unat n) k
                (limbs_of_value (1 * ?b ^ unat n))"
              by (rule power_loop [OF inv2 in2(5,1,6,2)]) (use other bits1 [of 1] mod k in auto)
            then have "yields_bounded m (power_loop m2 one b n k) x k (limbs_of_value x)"
              by (intro yields_bounded_then [OF ext]) (simp add: x_def n)
            then show ?thesis
              using Some conv(2) False
              by (auto simp: body yields_bounded_def intro: yields_mono)
          qed
        qed
      qed
    qed
  qed
qed

end
