(* ===== verification/IntegerProperties.thy ===== *)
theory IntegerProperties
  imports Powers
begin

text \<open>
  The properties of the integer arena of src/src/integer.c, each with an application to a small
  arena holding 0, 1, 5, -7 and 2 ^ 40 + 3.
\<close>

definition sample_arena :: integer_arena where
  "sample_arena =
     \<lparr>integers = [\<lparr>negative = False, first_limb = 0, limb_count = 0\<rparr>,
        \<lparr>negative = False, first_limb = 0, limb_count = 1\<rparr>,
        \<lparr>negative = False, first_limb = 1, limb_count = 1\<rparr>,
        \<lparr>negative = True, first_limb = 2, limb_count = 1\<rparr>,
        \<lparr>negative = False, first_limb = 3, limb_count = 2\<rparr>],
      integer_limbs = [1, 5, 7, 3, 256]\<rparr>"

lemma sample_inv [simp]: "integer_inv sample_arena"
  by (simp add: integer_inv_def sample_arena_def stored_def canonical_sign_def normalized_def
      slice_def PIGEN_INVALID_ID_def SIZE_MAX_def)

lemma sample_valid [simp]: "integer_valid sample_arena i \<longleftrightarrow> i < 5"
  by (auto simp: integer_valid_def sample_arena_def)

lemma sample_values [simp]:
  "integer_value sample_arena 0 = 0" "integer_value sample_arena 1 = 1" "integer_value sample_arena (Suc 0) = 1"
  "integer_value sample_arena 2 = 5" "integer_value sample_arena 3 = - 7"
  "integer_value sample_arena 4 = 1099511627779"
  by (simp_all add: integer_value_def stored_def signed_mag_def sample_arena_def slice_def)

lemma moderate_small [simp]: "\<bar>x\<bar> < 18446744073709551616 \<Longrightarrow> moderate x"
proof -
  assume "\<bar>x\<bar> < 18446744073709551616"
  then have "nat \<bar>x\<bar> < 2 ^ 64" by simp
  then have "bit_length (nat \<bar>x\<bar>) \<le> 64" by (simp only: bit_length_le_iff)
  then show ?thesis by (simp add: moderate_def)
qed

section \<open>Canonical storage\<close>

text \<open>
  A client of the arena makes requests one after another and keeps the identities it is given.
\<close>

fun intern_requests :: "integer_arena \<Rightarrow> (bool \<times> limb list) list \<Rightarrow> id list \<times> integer_arena" where
  "intern_requests m [] = ([], m)"
| "intern_requests m ((neg, raw) # requests) =
     (let (i, m1) = integer_intern m neg raw; (ids, m2) = intern_requests m1 requests
      in (i # ids, m2))"

definition empty_arena :: integer_arena where
  "empty_arena = \<lparr>integers = [], integer_limbs = []\<rparr>"

lemma empty_arena_inv: "integer_inv empty_arena"
  by (simp add: integer_inv_def empty_arena_def)

lemma intern_requests_values:
  assumes "integer_inv m" and "intern_requests m requests = (ids, m')"
  shows "integer_inv m' \<and> integer_extends m m' \<and> length ids = length requests \<and>
    (\<forall>a < length requests. ids ! a \<noteq> PIGEN_INVALID_ID \<longrightarrow>
      integer_valid m' (ids ! a) \<and> integer_value m' (ids ! a) = signed_mag (requests ! a))"
  using assms
proof (induction m requests arbitrary: ids m' rule: intern_requests.induct)
  case (2 m neg raw requests)
  obtain i m1 where first: "integer_intern m neg raw = (i, m1)" by fastforce
  obtain rest m2 where later: "intern_requests m1 requests = (rest, m2)" by fastforce
  have result: "ids = i # rest" "m' = m2" using 2(3) first later by auto
  have y: "yields m (i, m1) (signed_mag (neg, raw)) (length (normalize raw))"
    using integer_intern [OF 2(2), of neg raw] first by (auto simp: signed_mag_def)
  then have m1: "integer_inv m1" and ext: "integer_extends m m1" by (simp_all add: yields_def)
  note IH = 2(1) [OF first [symmetric] refl m1 later]
  then have ext': "integer_extends m1 m2" by blast
  have head: "integer_valid m2 i \<and> integer_value m2 i = signed_mag (neg, raw)" if "i \<noteq> PIGEN_INVALID_ID"
    using y that extends_valid [OF ext'] extends_value [OF m1 ext'] by (simp add: yields_def)
  show ?case
    using IH head integer_extends_trans [OF ext ext'] by (auto simp: result nth_Cons split: nat.splits)
qed simp

text \<open>
  C12: Of all the requests made of an arena that starts empty, two are answered with the same
  identity exactly when they ask for the same integer, whatever limbs with leading zeros or
  negative zeros they spell it with; and an identity still denotes its integer after all later
  requests. The compiler may compare identities where it means values.
\<close>

theorem identity_is_value:
  assumes "intern_requests empty_arena requests = (ids, m)"
    and "a < length requests" and "ids ! a \<noteq> PIGEN_INVALID_ID"
    and "b < length requests" and "ids ! b \<noteq> PIGEN_INVALID_ID"
  shows "(ids ! a = ids ! b \<longleftrightarrow> signed_mag (requests ! a) = signed_mag (requests ! b)) \<and>
    integer_value m (ids ! a) = signed_mag (requests ! a)"
proof -
  note facts = intern_requests_values [OF empty_arena_inv assms(1)]
  then have inv: "integer_inv m" by blast
  have a: "integer_valid m (ids ! a)" "integer_value m (ids ! a) = signed_mag (requests ! a)"
    and b: "integer_valid m (ids ! b)" "integer_value m (ids ! b) = signed_mag (requests ! b)"
    using facts assms(2-5) by blast+
  have "ids ! a = ids ! b \<longleftrightarrow> integer_value m (ids ! a) = integer_value m (ids ! b)"
    using integer_arena.identity_iff [of m "ids ! a" "ids ! b"] inv a(1) b(1)
      canonical_sign_inject [OF inv_member(2) [OF inv a(1)] inv_member(2) [OF inv b(1)]]
    by (auto simp: integer_value_def integer_valid_def)
  then show ?thesis using a(2) b(2) by simp
qed

theorem identity_is_value_witness:
  "let (ids, m) = intern_requests empty_arena [(True, [0, 0]), (False, [5]), (False, [0]), (True, [5])]
   in ids = [0, 1, 0, 2] \<and> integer_value m (ids ! 0) = 0"
proof -
  have run: "intern_requests empty_arena [(True, [0, 0]), (False, [5]), (False, [0]), (True, [5])] =
      ([0, 1, 0, 2], \<lparr>integers = [\<lparr>negative = False, first_limb = 0, limb_count = 0\<rparr>,
        \<lparr>negative = False, first_limb = 0, limb_count = 1\<rparr>,
        \<lparr>negative = True, first_limb = 1, limb_count = 1\<rparr>], integer_limbs = [5, 5]\<rparr>)"
    by (simp add: empty_arena_def integer_intern_def normalize_def limbs_equal_def limbs_of_def slice_def
        PIGEN_INVALID_ID_def SIZE_MAX_def u32_def)
  then show ?thesis
    using identity_is_value [OF run, of 0 2] by (simp add: PIGEN_INVALID_ID_def signed_mag_def)
qed

text \<open>
  C13: Interning a magnitude with a sign keeps the arena canonical, leaves every earlier identity
  with its value, and returns an identity of that very value; it fails only when the arena has
  no room for the value's limbs. Interning the value again returns the same identity and changes
  nothing.
\<close>

theorem intern_canonical:
  assumes "integer_inv m" and "integer_intern m neg raw = (i, m')"
  shows "yields m (i, m') (if neg then - int (mag raw) else int (mag raw)) (length (normalize raw)) \<and>
    (\<forall>j. integer_valid m j \<longrightarrow> integer_valid m' j \<and> integer_value m' j = integer_value m j) \<and>
    (i \<noteq> PIGEN_INVALID_ID \<longrightarrow> integer_intern m' neg raw = (i, m'))"
proof (intro conjI)
  let ?s = "(normalize raw \<noteq> [] \<and> neg, normalize raw)"
  show y: "yields m (i, m') (if neg then - int (mag raw) else int (mag raw)) (length (normalize raw))"
    using integer_intern [OF assms(1), of neg raw] assms(2) by simp
  then have ext: "integer_extends m m'" by (simp add: yields_def)
  show "\<forall>j. integer_valid m j \<longrightarrow> integer_valid m' j \<and> integer_value m' j = integer_value m j"
    using extends_valid [OF ext] extends_value [OF assms(1) ext] by blast
  have same: "integer_intern x neg raw = integer_intern x (fst ?s) (snd ?s)" for x :: "'a integer_arena_scheme"
    by (simp add: integer_intern_def normalize_id)
  have "canonical_sign ?s" by (auto simp: canonical_sign_def)
  then show "i \<noteq> PIGEN_INVALID_ID \<longrightarrow> integer_intern m' neg raw = (i, m')"
    using integer_arena.intern_again [OF assms(1), of ?s i m'] assms(2) unfolding same by blast
qed

theorem intern_canonical_witness:
  "let (i, m') = integer_intern sample_arena True [9, 0]
   in i = 5 \<and> integer_value m' i = - 9 \<and> integer_intern m' True [9, 0] = (5, m')"
proof -
  obtain i m' where r: "integer_intern sample_arena True [9, 0] = (i, m')" by fastforce
  have "i = 5" using r
    by (auto simp: integer_intern_def sample_arena_def normalize_def limbs_equal_def limbs_of_def slice_def
        PIGEN_INVALID_ID_def SIZE_MAX_def u32_def split: if_splits)
  then show ?thesis
    using intern_canonical [OF sample_inv r] by (simp add: r yields_def PIGEN_INVALID_ID_def)
qed

section \<open>Arithmetic\<close>

text \<open>
  C16: A decimal literal (digits with underscores, at least one digit) is interned with the value
  its digits denote; any other text fails and leaves the arena as it was.
\<close>

theorem decimal_literals:
  assumes "integer_inv m"
  shows "if decimal_literal digits
    then yields m (pigen_integer_intern_decimal m digits) (int (decimal_value digits))
      (limbs_of_value (int (decimal_value digits)))
    else pigen_integer_intern_decimal m digits = (PIGEN_INVALID_ID, m)"
  by (rule integer_intern_decimal [OF assms])

theorem decimal_literals_witness:
  "pigen_integer_intern_decimal sample_arena ''12x'' = (PIGEN_INVALID_ID, sample_arena)"
  using decimal_literals [OF sample_inv, of "''12x''"]
  by (simp add: decimal_literal_def decimal_char_def)

text \<open>
  C8: Addition interns the exact sum of its operands' values, whatever their signs and sizes.
\<close>

theorem addition_exact:
  assumes "integer_inv m" and "integer_valid m i" and "integer_valid m j"
  shows "yields m (pigen_integer_add m i j) (integer_value m i + integer_value m j)
    (limbs_of_value (integer_value m i + integer_value m j))"
  by (rule integer_add [OF assms])

theorem addition_exact_witness:
  "yields sample_arena (pigen_integer_add sample_arena 4 3) 1099511627772
    (limbs_of_value 1099511627772)"
  using addition_exact [OF sample_inv, of 4 3] by simp

text \<open>Subtraction interns the exact difference.\<close>

theorem subtraction_exact:
  assumes "integer_inv m" and "integer_valid m i" and "integer_valid m j"
  shows "yields m (pigen_integer_subtract m i j) (integer_value m i - integer_value m j)
    (max (limbs_of_value (integer_value m j)) (limbs_of_value (integer_value m i - integer_value m j)))"
  by (rule integer_subtract [OF assms])

theorem subtraction_exact_witness:
  "yields sample_arena (pigen_integer_subtract sample_arena 2 3) 12 (max (limbs_of_value 7) (limbs_of_value 12))"
  using subtraction_exact [OF sample_inv, of 2 3] by (simp add: limbs_of_value_def)

text \<open>Comparison returns the sign of the difference of the two values.\<close>

theorem comparison_is_order:
  assumes "integer_inv m" and "integer_valid m i" and "integer_valid m j"
  shows "pigen_integer_compare m i j = sgn (integer_value m i - integer_value m j)"
  by (rule integer_compare [OF assms])

theorem comparison_is_order_witness: "pigen_integer_compare sample_arena 3 2 = - 1"
  using comparison_is_order [OF sample_inv, of 3 2] by simp

text \<open>
  C9: Bounded multiplication interns the exact product when it has at most the permitted number
  of bits, and otherwise fails and leaves the arena as it was.
\<close>

theorem multiplication_bounded:
  assumes "integer_inv m" and "integer_valid m i" and "integer_valid m j"
    and "moderate (integer_value m i)" and "moderate (integer_value m j)" and "0 < maximum_bits"
  shows "if bit_length (nat \<bar>integer_value m i * integer_value m j\<bar>) \<le> maximum_bits
    then yields m (integer_multiply_bounded m i j maximum_bits) (integer_value m i * integer_value m j)
      (limbs_of_value (integer_value m i * integer_value m j))
    else integer_multiply_bounded m i j maximum_bits = (PIGEN_INVALID_ID, m)"
  by (rule integer_multiply_bounded [OF assms])

theorem multiplication_bounded_witness:
  "integer_multiply_bounded sample_arena 2 3 5 = (PIGEN_INVALID_ID, sample_arena)"
  using multiplication_bounded [OF sample_inv, of 2 3 5] by (simp add: bit_length_pos)

text \<open>
  C14: The signed width of a value is the least width of a two's complement field that holds it,
  and the unsigned width of a value that is not negative is the least width of an unsigned one.
\<close>

theorem widths_minimal:
  assumes "integer_inv m" and "integer_valid m i" and "moderate (integer_value m i)" and "0 < w"
  shows "(pigen_integer_signed_width m i \<le> w \<longleftrightarrow> fits_signed w (integer_value m i)) \<and>
    (0 \<le> integer_value m i \<longrightarrow>
      (pigen_integer_unsigned_width m i \<le> w \<longleftrightarrow> fits_unsigned w (integer_value m i)))"
  using integer_signed_width [OF assms] integer_unsigned_width [OF assms(1-3) _ assms(4)] by blast

theorem widths_minimal_witness:
  "pigen_integer_signed_width sample_arena 3 \<le> 4 \<and> \<not> pigen_integer_signed_width sample_arena 3 \<le> 3 \<and>
   pigen_integer_unsigned_width sample_arena 2 \<le> 3"
  using widths_minimal [OF sample_inv, of 3 4] widths_minimal [OF sample_inv, of 3 3]
    widths_minimal [OF sample_inv, of 2 3]
  by (simp add: fits_signed_def fits_unsigned_def)

text \<open>
  C15: Shifting left interns the value multiplied by the power of two when the result has at most
  the permitted number of bits, and otherwise fails and leaves the arena as it was.
\<close>

theorem shift_left_exact:
  assumes "integer_inv m" and "integer_valid m i" and "moderate (integer_value m i)"
    and "0 < maximum_bits" and "maximum_bits \<le> SIZE_MAX"
  shows "if bit_length (nat \<bar>integer_value m i * 2 ^ amount\<bar>) \<le> maximum_bits
    then yields m (pigen_integer_shift_left m i amount maximum_bits) (integer_value m i * 2 ^ amount)
      (limbs_of_value (integer_value m i * 2 ^ amount))
    else pigen_integer_shift_left m i amount maximum_bits = (PIGEN_INVALID_ID, m)"
  by (rule integer_shift_left [OF assms])

theorem shift_left_exact_witness:
  "yields sample_arena (pigen_integer_shift_left sample_arena 3 4 7) (- 112) (limbs_of_value (- 112))"
  using shift_left_exact [OF sample_inv, of 3 7 4] by (simp add: bit_length_pos SIZE_MAX_def)

text \<open>
  Conversion to a 64-bit word, and to a size, succeeds exactly on the values from 0 to
  \<open>UINT64_MAX\<close> and returns the value.
\<close>

theorem conversion_exact:
  assumes "integer_inv m" and "integer_valid m i"
  shows "(case pigen_integer_to_u64 m i of
      None \<Rightarrow> \<not> (0 \<le> integer_value m i \<and> integer_value m i \<le> int UINT64_MAX)
    | Some v \<Rightarrow> integer_value m i = int (unat v)) \<and>
    pigen_integer_to_size m i = pigen_integer_to_u64 m i"
  using integer_to_u64 [OF assms] by blast

theorem conversion_exact_witness: "pigen_integer_to_u64 sample_arena 4 \<noteq> None"
  using conversion_exact [OF sample_inv, of 4] by (auto simp: UINT64_MAX_def split: option.splits)

section \<open>Powers\<close>

text \<open>
  C11: Exponentiation with an exponent that is not negative interns the exact power when it has
  at most the permitted number of bits, and otherwise fails, leaving a canonical arena in which
  every earlier identity keeps its value.
\<close>

theorem power_exact:
  assumes "integer_inv m" and "integer_valid m b" and "integer_valid m e"
    and "moderate (integer_value m b)" and "0 \<le> integer_value m e"
    and "0 < maximum_bits" and "maximum_bits \<le> 2 ^ 58"
  shows "yields_bounded m (pigen_integer_power m b e maximum_bits)
    (integer_value m b ^ nat (integer_value m e)) maximum_bits
    (max 1 (limbs_of_value (integer_value m b ^ nat (integer_value m e))))"
  by (rule integer_power [OF assms])

theorem power_exact_witness:
  "yields_bounded sample_arena (pigen_integer_power sample_arena 3 2 64) (- 16807) 64 1"
  using power_exact [OF sample_inv, of 3 2 64] by (simp add: limbs_of_value_def bit_length_pos)

text \<open>
  C7: When the interval method reports a width below \<open>UINT64_MAX\<close> for a power, that is the exact
  unsigned width of the power, although the power is never computed.
\<close>

theorem power_width_correct:
  assumes "pigen_integer_power_width_u64 base exponent = Some w" and "w < UINT64_MAX"
  shows "w = max 1 (bit_length (unat base ^ unat exponent))"
  using power_width_sound [OF assms] by (simp add: power_width_def)

theorem power_width_correct_witness:
  "pigen_integer_power_width_u64 4 5 = Some 11 \<and> 11 = max 1 (bit_length (4 ^ 5))"
proof -
  have "(4 :: u64) AND 3 = 0" by simp
  then have "pigen_integer_power_width_u64 4 5 = Some 11"
    by (simp add: pigen_integer_power_width_u64_def builtin_clzll_def bit_length_pos UINT64_MAX_def
        word_le_nat_alt)
  from this power_width_correct [OF this] show ?thesis by (simp add: UINT64_MAX_def)
qed

text \<open>
  C10: The interval method finds the width of every power of at most \<open>2 ^ 63\<close> bits: the precision
  loop ends with an answer.
\<close>

theorem power_width_found:
  assumes "bit_length (unat base ^ unat exponent) \<le> 2 ^ 63"
  shows "pigen_integer_power_width_u64 base exponent = Some (max 1 (bit_length (unat base ^ unat exponent)))"
  using power_width_complete [OF assms] by (simp add: power_width_def)

theorem power_width_found_witness: "pigen_integer_power_width_u64 3 5 = Some 8"
proof -
  have "bit_length (3 ^ 5) = 8" by (simp add: bit_length_pos)
  then show ?thesis using power_width_found [of 3 5] by simp
qed

end
