(* ===== verification/Operations.thy ===== *)
theory Operations
  imports Prelude
begin

text \<open>
  The enumerations of src/include/pigen/operation.h and data_type.h that the numerical rules
  branch on, with the classifications of operators in src/src/data_type.c. A value outside an
  enumeration cannot be written here, so the validity checks of enumeration values have no
  counterpart.
\<close>

datatype pigen_conversion_kind =
    PIGEN_CONVERSION_INVALID | PIGEN_CONVERSION_IDENTITY | PIGEN_CONVERSION_INTEGER_RESIZE
  | PIGEN_CONVERSION_EXACT_INTEGER | PIGEN_CONVERSION_INTEGER_PROMOTION
  | PIGEN_CONVERSION_INTEGER_REINTERPRET | PIGEN_CONVERSION_VECTOR_TO_INTEGER
  | PIGEN_CONVERSION_INTEGER_TO_VECTOR

datatype pigen_unary_operator =
    PIGEN_UNARY_POSITIVE | PIGEN_UNARY_NEGATE | PIGEN_UNARY_BITWISE_NOT | PIGEN_UNARY_LOGICAL_NOT
  | PIGEN_UNARY_REDUCTION_AND | PIGEN_UNARY_REDUCTION_NAND | PIGEN_UNARY_REDUCTION_OR
  | PIGEN_UNARY_REDUCTION_NOR | PIGEN_UNARY_REDUCTION_XOR | PIGEN_UNARY_REDUCTION_XNOR

datatype pigen_binary_operator =
    PIGEN_BINARY_ADD | PIGEN_BINARY_SUBTRACT | PIGEN_BINARY_MULTIPLY | PIGEN_BINARY_DIVIDE
  | PIGEN_BINARY_MODULO | PIGEN_BINARY_POWER | PIGEN_BINARY_SHIFT_LEFT | PIGEN_BINARY_SHIFT_RIGHT
  | PIGEN_BINARY_ARITH_SHIFT_LEFT | PIGEN_BINARY_ARITH_SHIFT_RIGHT | PIGEN_BINARY_LESS
  | PIGEN_BINARY_LESS_EQUAL | PIGEN_BINARY_GREATER | PIGEN_BINARY_GREATER_EQUAL
  | PIGEN_BINARY_EQUAL | PIGEN_BINARY_NOT_EQUAL | PIGEN_BINARY_CASE_EQUAL
  | PIGEN_BINARY_CASE_NOT_EQUAL | PIGEN_BINARY_WILDCARD_EQUAL | PIGEN_BINARY_WILDCARD_NOT_EQUAL
  | PIGEN_BINARY_BITWISE_AND | PIGEN_BINARY_BITWISE_XOR | PIGEN_BINARY_BITWISE_XNOR
  | PIGEN_BINARY_BITWISE_OR | PIGEN_BINARY_LOGICAL_AND | PIGEN_BINARY_LOGICAL_OR

datatype pigen_numerical_interpretation =
    PIGEN_NUMERICAL_INVALID | PIGEN_NUMERICAL_NONE | PIGEN_NUMERICAL_EXACT_INTEGER
  | PIGEN_NUMERICAL_SIGNED_INTEGER | PIGEN_NUMERICAL_UNSIGNED_INTEGER | PIGEN_NUMERICAL_SYSTEMVERILOG

datatype pigen_select_kind =
    PIGEN_SEMANTIC_SELECT_RANGE | PIGEN_SEMANTIC_SELECT_INDEXED_UP | PIGEN_SEMANTIC_SELECT_INDEXED_DOWN

text \<open>Typed operations, and how the operands of an operation are converted.\<close>

record pigen_conversion =
  conversion_kind :: pigen_conversion_kind
  source_data_type :: id
  target_data_type :: id

record pigen_unary_operation =
  unary_operator :: pigen_unary_operator
  operand_data_type :: id
  unary_result_data_type :: id

record pigen_unary_resolution =
  operand_conversion :: pigen_conversion
  unary_operation :: pigen_unary_operation

record pigen_binary_operation =
  binary_operator :: pigen_binary_operator
  left_data_type :: id
  right_data_type :: id
  binary_result_data_type :: id

record pigen_binary_resolution =
  left_conversion :: pigen_conversion
  right_conversion :: pigen_conversion
  binary_operation :: pigen_binary_operation

record pigen_conditional_operation =
  condition_data_type :: id
  when_true_data_type :: id
  when_false_data_type :: id
  conditional_result_data_type :: id

record pigen_conditional_resolution =
  condition_conversion :: pigen_conversion
  when_true_conversion :: pigen_conversion
  when_false_conversion :: pigen_conversion
  conditional_operation :: pigen_conditional_operation

definition numerical_is_concrete :: "pigen_numerical_interpretation \<Rightarrow> bool" where
  "numerical_is_concrete interpretation1 \<longleftrightarrow>
     interpretation1 = PIGEN_NUMERICAL_SIGNED_INTEGER \<or> interpretation1 = PIGEN_NUMERICAL_UNSIGNED_INTEGER"

end
