(* ===== verification/RangeWidths.thy ===== *)
theory RangeWidths
  imports Powers Operations
begin

text \<open>
  The width of the result of an arithmetic operation between a concrete integer of known width
  and an exact constant (src/src/data_type.c, from \<open>add_width\<close> to
  \<open>pigen_data_type_evaluate_numerical_range_width\<close>). The code decides most widths from the
  widths of the operands alone and otherwise computes the two endpoints of the result's range in
  the integer arena. Widths are 64-bit values, so sums and products are guarded. The evaluation
  of the width expression comes first in the code and is an argument here.
\<close>

section \<open>The routines\<close>

text \<open>The results one, zero and minus one of the width rules.\<close>

datatype 'a width_answer = Decided 'a | Undecided | Impossible

definition add_width :: "nat \<Rightarrow> nat \<Rightarrow> nat option" where
  "add_width left right = (if left > UINT64_MAX - right then None else Some (left + right))"

definition multiply_width :: "nat \<Rightarrow> nat \<Rightarrow> nat option" where
  "multiply_width left right =
     (if right \<noteq> 0 \<and> left > UINT64_MAX div right then None else Some (left * right))"

definition grown :: "bool \<Rightarrow> nat option \<Rightarrow> (bool \<times> nat) width_answer" where
  "grown is_signed width = (case width of None \<Rightarrow> Impossible | Some w \<Rightarrow> Decided (is_signed, w))"

definition dominant_arithmetic_range_width ::
    "'a integer_arena_scheme \<Rightarrow> pigen_binary_operator \<Rightarrow> pigen_numerical_interpretation \<Rightarrow> nat \<Rightarrow>
     id \<Rightarrow> bool \<Rightarrow> (bool \<times> nat) width_answer \<times> 'a integer_arena_scheme" where
  "dominant_arithmetic_range_width model operator interpretation1 concrete_width exact exact_is_left =
     (if \<not> numerical_is_concrete interpretation1 then (Impossible, model)
      else
        let neg = pigen_integer_is_negative model exact;
            (magnitude, model1) = (if neg then pigen_integer_negate model exact else (exact, model));
            width1 = pigen_integer_unsigned_width model1 magnitude
        in if width1 = 0 \<or> width1 > UINT64_MAX - 2 \<or> concrete_width \<le> width1 + 2 then (Undecided, model1)
           else if pigen_integer_is_zero model1 magnitude
           then (grown True (add_width concrete_width 1), model1)
           else
             let (one, model2) = pigen_integer_intern_u64 model1 1;
                 is_one = (pigen_integer_compare model2 magnitude one = 0);
                 (one_less_width, model3) = (if is_one then (0, model2)
                   else let (one_less, model3) = pigen_integer_subtract model2 magnitude one
                     in (pigen_integer_unsigned_width model3 one_less, model3))
             in if \<not> is_one \<and> one_less_width = 0 then (Impossible, model3)
                else if interpretation1 = PIGEN_NUMERICAL_UNSIGNED_INTEGER then
                  (case operator of
                     PIGEN_BINARY_ADD \<Rightarrow> grown neg (add_width concrete_width 1)
                   | PIGEN_BINARY_SUBTRACT \<Rightarrow>
                       grown (exact_is_left \<or> \<not> neg)
                         (add_width concrete_width (if exact_is_left \<and> neg \<and> \<not> is_one then 2 else 1))
                   | PIGEN_BINARY_MULTIPLY \<Rightarrow>
                       if is_one then grown neg (add_width concrete_width (if neg then 1 else 0))
                       else if neg \<and> one_less_width = UINT64_MAX then Impossible
                       else grown neg (add_width concrete_width
                         (if neg then one_less_width + 1 else one_less_width))
                   | _ \<Rightarrow> Impossible, model3)
                else
                  (case operator of
                     PIGEN_BINARY_ADD \<Rightarrow> grown True (add_width concrete_width 1)
                   | PIGEN_BINARY_SUBTRACT \<Rightarrow>
                       if \<not> exact_is_left then grown True (add_width concrete_width 1)
                       else grown True (add_width concrete_width (if neg \<and> is_one then 0 else 1))
                   | PIGEN_BINARY_MULTIPLY \<Rightarrow>
                       grown True (add_width concrete_width
                         (if neg then width1 else if is_one then 0 else one_less_width))
                   | _ \<Rightarrow> Impossible, model3))"

definition concrete_integer_bounds ::
    "'a integer_arena_scheme \<Rightarrow> pigen_numerical_interpretation \<Rightarrow> nat \<Rightarrow>
     (id \<times> id) option \<times> 'a integer_arena_scheme" where
  "concrete_integer_bounds model interpretation1 width =
     (let (one, model1) = pigen_integer_intern_u64 model 1
      in if width = 0 \<or> one = PIGEN_INVALID_ID \<or> \<not> numerical_is_concrete interpretation1
         then (None, model1)
         else
           let (limit, model2) = pigen_integer_shift_left model1 one
                 (if interpretation1 = PIGEN_NUMERICAL_SIGNED_INTEGER then width - 1 else width)
                 (if width = SIZE_MAX then SIZE_MAX else width + 1)
           in if limit = PIGEN_INVALID_ID then (None, model2)
              else
                let (one_less, model3) = pigen_integer_subtract model2 limit one
                in if one_less = PIGEN_INVALID_ID then (None, model3)
                   else
                     let (minimum, model4) = (if interpretation1 = PIGEN_NUMERICAL_SIGNED_INTEGER
                         then pigen_integer_negate model3 limit else pigen_integer_intern_u64 model3 0)
                     in (if minimum = PIGEN_INVALID_ID then None else Some (minimum, one_less), model4))"

text \<open>The pair of endpoints, when both were computed.\<close>

definition both_endpoints :: "id \<Rightarrow> id \<Rightarrow> (id \<times> id) option" where
  "both_endpoints lo hi = (if lo \<noteq> PIGEN_INVALID_ID \<and> hi \<noteq> PIGEN_INVALID_ID then Some (lo, hi) else None)"

definition arithmetic_range_endpoints ::
    "'a integer_arena_scheme \<Rightarrow> pigen_binary_operator \<Rightarrow> pigen_numerical_interpretation \<Rightarrow> nat \<Rightarrow>
     id \<Rightarrow> bool \<Rightarrow> (id \<times> id) option \<times> 'a integer_arena_scheme" where
  "arithmetic_range_endpoints model operator interpretation1 width exact exact_is_left =
     (if exact = PIGEN_INVALID_ID then (None, model)
      else case concrete_integer_bounds model interpretation1 width of
        (None, model1) \<Rightarrow> (None, model1)
      | (Some (minimum, maximum), model1) \<Rightarrow>
          if operator = PIGEN_BINARY_ADD then
            let (lo, model2) = pigen_integer_add model1 minimum exact;
                (hi, model3) = pigen_integer_add model2 maximum exact
            in (both_endpoints lo hi, model3)
          else if operator = PIGEN_BINARY_SUBTRACT \<and> exact_is_left then
            let (lo, model2) = pigen_integer_subtract model1 exact maximum;
                (hi, model3) = pigen_integer_subtract model2 exact minimum
            in (both_endpoints lo hi, model3)
          else if operator = PIGEN_BINARY_SUBTRACT then
            let (lo, model2) = pigen_integer_subtract model1 minimum exact;
                (hi, model3) = pigen_integer_subtract model2 maximum exact
            in (both_endpoints lo hi, model3)
          else if operator = PIGEN_BINARY_MULTIPLY then
            let (endpoint_a, model2) = pigen_integer_multiply model1 minimum exact;
                (endpoint_b, model3) = pigen_integer_multiply model2 maximum exact
            in (if pigen_integer_compare model3 endpoint_a endpoint_b \<le> 0
                then both_endpoints endpoint_a endpoint_b
                else both_endpoints endpoint_b endpoint_a, model3)
          else (None, model1))"

definition range_width_for_family ::
    "'a integer_arena_scheme \<Rightarrow> id \<Rightarrow> id \<Rightarrow> bool \<Rightarrow> nat option" where
  "range_width_for_family model minimum maximum is_signed =
     (if minimum = PIGEN_INVALID_ID \<or> maximum = PIGEN_INVALID_ID \<or>
        pigen_integer_compare model minimum maximum > 0 \<or>
        (\<not> is_signed \<and> pigen_integer_is_negative model minimum)
      then None
      else
        let minimum_width = (if is_signed then pigen_integer_signed_width model minimum else 1);
            maximum_width = (if is_signed then pigen_integer_signed_width model maximum
              else pigen_integer_unsigned_width model maximum)
        in if minimum_width = 0 \<or> maximum_width = 0 then None
           else Some (max minimum_width maximum_width))"

definition closed_power_range_width ::
    "'a integer_arena_scheme \<Rightarrow> pigen_numerical_interpretation \<Rightarrow> nat \<Rightarrow> id \<Rightarrow> nat width_answer" where
  "closed_power_range_width model interpretation1 concrete_width exponent_value =
     (let answer = (\<lambda>width. case width of None \<Rightarrow> Impossible | Some w \<Rightarrow> Decided w)
      in if concrete_width = 0 \<or> \<not> numerical_is_concrete interpretation1 \<or>
           pigen_integer_is_negative model exponent_value then Impossible
         else if concrete_width = 1 then Decided 1
         else case pigen_integer_to_u64 model exponent_value of
           None \<Rightarrow> Impossible
         | Some exponent \<Rightarrow>
             if exponent = 0 then Decided 1
             else if interpretation1 = PIGEN_NUMERICAL_SIGNED_INTEGER then
               answer (case multiply_width (concrete_width - 1) (unat exponent) of
                   None \<Rightarrow> None | Some product \<Rightarrow> add_width product 1)
             else if exponent = 1 then Decided concrete_width
             else
               let exponent_width = pigen_integer_unsigned_width model exponent_value
               in if exponent_width = 0 then Impossible
                  else if exponent_width < concrete_width
                  then answer (multiply_width concrete_width (unat exponent))
                  else if concrete_width > 64 then Impossible
                  else answer (pigen_integer_power_width_u64
                    (if concrete_width = 64 then - 1 else push_bit concrete_width 1 - 1) exponent))"

definition power_range_endpoints ::
    "'a integer_arena_scheme \<Rightarrow> pigen_numerical_interpretation \<Rightarrow> nat \<Rightarrow> id \<Rightarrow> nat \<Rightarrow>
     (id \<times> id) option \<times> 'a integer_arena_scheme" where
  "power_range_endpoints model interpretation1 width exponent_value exponent =
     (let (zero, model1) = pigen_integer_intern_u64 model 0;
          (one, model2) = pigen_integer_intern_u64 model1 1
      in case concrete_integer_bounds model2 interpretation1 width of
        (None, model3) \<Rightarrow> (None, model3)
      | (Some (minimum, maximum), model3) \<Rightarrow>
          if exponent = 0 then (both_endpoints one one, model3)
          else if width > SIZE_MAX div exponent then (None, model3)
          else
            let upper_width = width * exponent
            in if interpretation1 = PIGEN_NUMERICAL_SIGNED_INTEGER \<and> even exponent then
                 let (negated, model4) = pigen_integer_negate model3 minimum;
                     (hi, model5) = pigen_integer_power model4 negated exponent_value upper_width
                 in (both_endpoints zero hi, model5)
               else
                 let (lo, model4) = (if interpretation1 = PIGEN_NUMERICAL_SIGNED_INTEGER
                       then pigen_integer_power model3 minimum exponent_value upper_width
                       else (zero, model3));
                     (hi, model5) = pigen_integer_power model4 maximum exponent_value upper_width
                 in (both_endpoints lo hi, model5))"

record pigen_numerical_range_width =
  range_operator :: pigen_binary_operator
  concrete_interpretation :: pigen_numerical_interpretation
  concrete_width :: id
  exact_value :: id
  exact_is_left :: bool
  result_is_signed :: bool

text \<open>
  \<open>evaluated\<close> is the value of \<open>concrete_width\<close>, when that expression has one.
  \<open>closed_power_range_width\<close> never answers \<open>Undecided\<close>, so the endpoint computation for powers
  is not reached.
\<close>

definition pigen_data_type_evaluate_numerical_range_width ::
    "'a integer_arena_scheme \<Rightarrow> pigen_numerical_range_width \<Rightarrow> nat option \<Rightarrow>
     nat option \<times> 'a integer_arena_scheme" where
  "pigen_data_type_evaluate_numerical_range_width model rng evaluated =
     (case evaluated of
        None \<Rightarrow> (None, model)
      | Some width \<Rightarrow>
          if range_operator rng = PIGEN_BINARY_POWER then
            (if result_is_signed rng \<noteq>
                (concrete_interpretation rng = PIGEN_NUMERICAL_SIGNED_INTEGER \<and>
                 pigen_integer_is_odd model (exact_value rng))
             then (None, model)
             else case closed_power_range_width model (concrete_interpretation rng) width (exact_value rng) of
               Decided w \<Rightarrow> (Some w, model)
             | Impossible \<Rightarrow> (None, model)
             | Undecided \<Rightarrow>
                 if width > SIZE_MAX then (None, model)
                 else (case pigen_integer_to_size model (exact_value rng) of
                     None \<Rightarrow> (None, model)
                   | Some exponent \<Rightarrow>
                       (case power_range_endpoints model (concrete_interpretation rng) width
                           (exact_value rng) (unat exponent) of
                          (None, model1) \<Rightarrow> (None, model1)
                        | (Some (lo, hi), model1) \<Rightarrow>
                            (range_width_for_family model1 lo hi (result_is_signed rng), model1))))
          else
            (case dominant_arithmetic_range_width model (range_operator rng)
                (concrete_interpretation rng) width (exact_value rng) (exact_is_left rng) of
               (Decided (is_signed, w), model1) \<Rightarrow>
                 (if is_signed = result_is_signed rng then Some w else None, model1)
             | (Impossible, model1) \<Rightarrow> (None, model1)
             | (Undecided, model1) \<Rightarrow>
                 if width > SIZE_MAX then (None, model1)
                 else (case arithmetic_range_endpoints model1 (range_operator rng)
                     (concrete_interpretation rng) width (exact_value rng) (exact_is_left rng) of
                   (None, model2) \<Rightarrow> (None, model2)
                 | (Some (lo, hi), model2) \<Rightarrow>
                     (range_width_for_family model2 lo hi (result_is_signed rng), model2))))"

section \<open>What the width of a range is\<close>

definition fits :: "bool \<Rightarrow> nat \<Rightarrow> int \<Rightarrow> bool" where
  "fits is_signed w x \<longleftrightarrow> (if is_signed then fits_signed w x else fits_unsigned w x)"

text \<open>\<open>W\<close> is the least width of a field of the family that holds every value of \<open>S\<close>.\<close>

definition least_width :: "bool \<Rightarrow> nat \<Rightarrow> int set \<Rightarrow> bool" where
  "least_width is_signed W S \<longleftrightarrow>
     1 \<le> W \<and> (\<forall>k \<ge> 1. (\<forall>x \<in> S. fits is_signed k x) \<longleftrightarrow> W \<le> k)"

definition concrete_values :: "pigen_numerical_interpretation \<Rightarrow> nat \<Rightarrow> int set" where
  "concrete_values interpretation1 w =
     (if interpretation1 = PIGEN_NUMERICAL_SIGNED_INTEGER then {- (2 ^ (w - 1)) .. 2 ^ (w - 1) - 1}
      else {0 .. 2 ^ w - 1})"

definition operation_value :: "pigen_binary_operator \<Rightarrow> bool \<Rightarrow> int \<Rightarrow> int \<Rightarrow> int" where
  "operation_value operator left e c =
     (case operator of
        PIGEN_BINARY_ADD \<Rightarrow> c + e
      | PIGEN_BINARY_SUBTRACT \<Rightarrow> if left then e - c else c - e
      | PIGEN_BINARY_MULTIPLY \<Rightarrow> c * e
      | PIGEN_BINARY_POWER \<Rightarrow> c ^ nat e
      | _ \<Rightarrow> 0)"

definition result_values ::
    "pigen_binary_operator \<Rightarrow> pigen_numerical_interpretation \<Rightarrow> nat \<Rightarrow> int \<Rightarrow> bool \<Rightarrow> int set" where
  "result_values operator interpretation1 w e left =
     operation_value operator left e ` concrete_values interpretation1 w"

lemma fits_signed_mono: "fits_signed w x \<Longrightarrow> w \<le> k \<Longrightarrow> fits_signed k x"
proof -
  assume w: "fits_signed w x" and "w \<le> k"
  then have "(2 :: int) ^ (w - 1) \<le> 2 ^ (k - 1)" by (intro power_increasing) auto
  with w show ?thesis unfolding fits_signed_def by linarith
qed

lemma fits_unsigned_mono: "fits_unsigned w x \<Longrightarrow> w \<le> k \<Longrightarrow> fits_unsigned k x"
proof -
  assume w: "fits_unsigned w x" and "w \<le> k"
  then have "(2 :: int) ^ w \<le> 2 ^ k" by (intro power_increasing) auto
  with w show ?thesis unfolding fits_unsigned_def by linarith
qed

lemma fits_mono: "fits b w x \<Longrightarrow> w \<le> k \<Longrightarrow> fits b k x"
  using fits_signed_mono fits_unsigned_mono by (auto simp: fits_def split: if_splits)

lemma fits_between: "fits b w lo \<Longrightarrow> fits b w hi \<Longrightarrow> lo \<le> x \<Longrightarrow> x \<le> hi \<Longrightarrow> fits b w x"
  by (auto simp: fits_def fits_signed_def fits_unsigned_def split: if_splits)

lemma least_widthI:
  assumes "lo \<in> S" and "hi \<in> S" and "\<And>x. x \<in> S \<Longrightarrow> lo \<le> x \<and> x \<le> hi"
    and "1 \<le> W" and "fits b W lo" and "fits b W hi"
    and "W = 1 \<or> \<not> fits b (W - 1) lo \<or> \<not> fits b (W - 1) hi"
  shows "least_width b W S"
  unfolding least_width_def
proof (intro conjI allI impI iffI ballI)
  fix k x
  assume "W \<le> k" "x \<in> S"
  then show "fits b k x" using assms fits_between fits_mono by metis
next
  fix k
  assume k: "1 \<le> k" and all: "\<forall>x \<in> S. fits b k x"
  show "W \<le> k"
  proof (rule ccontr)
    assume "\<not> W \<le> k"
    then have "k \<le> W - 1" and "W \<noteq> 1" using k by auto
    then show False using all assms(1,2,7) fits_mono by metis
  qed
qed (rule assms(4))

text \<open>The endpoints of the range, for the operations monotone in the concrete operand.\<close>

definition range_ends :: "pigen_binary_operator \<Rightarrow> bool \<Rightarrow> int \<Rightarrow> int \<Rightarrow> int \<Rightarrow> int \<times> int" where
  "range_ends operator left e a b =
     (case operator of
        PIGEN_BINARY_ADD \<Rightarrow> (a + e, b + e)
      | PIGEN_BINARY_SUBTRACT \<Rightarrow> if left then (e - b, e - a) else (a - e, b - e)
      | _ \<Rightarrow> if a * e \<le> b * e then (a * e, b * e) else (b * e, a * e))"

definition arithmetic_operator :: "pigen_binary_operator \<Rightarrow> bool" where
  "arithmetic_operator operator \<longleftrightarrow>
     operator \<in> {PIGEN_BINARY_ADD, PIGEN_BINARY_SUBTRACT, PIGEN_BINARY_MULTIPLY}"

lemma range_ends:
  assumes "a \<le> b" and "arithmetic_operator operator"
    and "range_ends operator left e a b = (lo, hi)"
  shows "lo \<in> operation_value operator left e ` {a..b}" and "hi \<in> operation_value operator left e ` {a..b}"
    and "x \<in> operation_value operator left e ` {a..b} \<Longrightarrow> lo \<le> x \<and> x \<le> hi"
proof -
  have ab: "a \<in> {a..b}" "b \<in> {a..b}" using assms(1) by auto
  have mult: "min (a * e) (b * e) \<le> c * e \<and> c * e \<le> max (a * e) (b * e)" if "a \<le> c" "c \<le> b" for c
    using that by (cases "0 \<le> e") (auto simp: min_def max_def intro: mult_right_mono mult_right_mono_neg)
  show "lo \<in> operation_value operator left e ` {a..b}" "hi \<in> operation_value operator left e ` {a..b}"
    using assms(2,3) ab by (auto simp: arithmetic_operator_def range_ends_def operation_value_def split: if_splits)
  assume "x \<in> operation_value operator left e ` {a..b}"
  then obtain c where c: "a \<le> c" "c \<le> b" "x = operation_value operator left e c" by auto
  then show "lo \<le> x \<and> x \<le> hi"
    using assms(2,3) mult [OF c(1,2)]
    by (auto simp: arithmetic_operator_def range_ends_def operation_value_def split: if_splits)
qed

section \<open>The dominant widths on numbers\<close>

definition value_width :: "nat \<Rightarrow> nat" where
  "value_width n = max 1 (bit_length n)"

definition dominant_answer ::
    "pigen_binary_operator \<Rightarrow> pigen_numerical_interpretation \<Rightarrow> nat \<Rightarrow> int \<Rightarrow> bool \<Rightarrow>
     (bool \<times> nat) width_answer" where
  "dominant_answer operator interpretation1 w e left =
     (let n = nat \<bar>e\<bar>; neg = (e < 0); is_one = (n = 1); less_width = value_width (n - 1)
      in if w \<le> value_width n + 2 then Undecided
         else if n = 0 then Decided (True, w + 1)
         else if interpretation1 = PIGEN_NUMERICAL_UNSIGNED_INTEGER then
           (case operator of
              PIGEN_BINARY_ADD \<Rightarrow> Decided (neg, w + 1)
            | PIGEN_BINARY_SUBTRACT \<Rightarrow>
                Decided (left \<or> \<not> neg, w + (if left \<and> neg \<and> \<not> is_one then 2 else 1))
            | PIGEN_BINARY_MULTIPLY \<Rightarrow>
                Decided (neg, w + (if is_one then (if neg then 1 else 0)
                  else if neg then less_width + 1 else less_width))
            | _ \<Rightarrow> Impossible)
         else
           (case operator of
              PIGEN_BINARY_ADD \<Rightarrow> Decided (True, w + 1)
            | PIGEN_BINARY_SUBTRACT \<Rightarrow> Decided (True, w + (if left \<and> neg \<and> is_one then 0 else 1))
            | PIGEN_BINARY_MULTIPLY \<Rightarrow>
                Decided (True, w + (if neg then value_width n else if is_one then 0 else less_width))
            | _ \<Rightarrow> Impossible))"

text \<open>The exact operand is small against a dominating width.\<close>

lemma dominating:
  assumes "\<not> w \<le> value_width n + 2"
  obtains v where "w = v + 3" and "int n < 2 ^ v"
proof -
  define v where "v = w - 3"
  have "1 \<le> value_width n" by (simp add: value_width_def)
  then have v: "w = v + 3" "value_width n \<le> v" using assms by (auto simp: v_def)
  then have "n < 2 ^ v" by (simp add: value_width_def flip: bit_length_le_iff)
  then have "int n < 2 ^ v" by (simp only: nat_less_exp_int)
  with v(1) that show thesis by blast
qed

lemma value_width_bounds:
  assumes "0 < n"
  obtains k where "value_width n = k + 1" and "2 ^ k \<le> int n" and "int n < 2 * 2 ^ k"
proof -
  obtain k where k: "bit_length n = Suc k" using assms by (cases "bit_length n") auto
  then have "2 ^ k \<le> n" "n < 2 ^ Suc k"
    using bit_length_less_iff [of k n] bit_length_le_iff [of n "Suc k"] by auto
  then have "int (2 ^ k) \<le> int n" "int n < int (2 ^ Suc k)" by (simp_all only: of_nat_le_iff of_nat_less_iff)
  with k that show thesis by (simp add: value_width_def)
qed

lemma product_bounds:
  fixes q G n :: int
  assumes "1 \<le> q" and "1 \<le> G" and "G + 1 \<le> n" and "n \<le> 2 * G" and "n < q"
  shows "(8 * q - 1) * n < 16 * (q * G)" and "8 * (q * G) < (8 * q - 1) * n"
    and "4 * (q * G) < 4 * q * n" and "4 * q * n \<le> 8 * (q * G)" and "(4 * q - 1) * n < 8 * (q * G)"
proof -
  have up: "q * n \<le> q * (2 * G)" using assms by (intro mult_left_mono) auto
  have dn: "q * (G + 1) \<le> q * n" using assms by (intro mult_left_mono) auto
  have n: "0 < n" using assms by linarith
  show "4 * (q * G) < 4 * q * n" "4 * q * n \<le> 8 * (q * G)" "(4 * q - 1) * n < 8 * (q * G)"
    "(8 * q - 1) * n < 16 * (q * G)" "8 * (q * G) < (8 * q - 1) * n"
    using up dn n assms(1,3,5) unfolding left_diff_distrib distrib_left by linarith+
qed

lemma concrete_interval:
  "concrete_values interpretation1 (v + 3) =
     (if interpretation1 = PIGEN_NUMERICAL_SIGNED_INTEGER then {- (4 * 2 ^ v) .. 4 * 2 ^ v - 1}
      else {0 .. 8 * 2 ^ v - 1})"
  by (simp add: concrete_values_def power_add algebra_simps)

text \<open>Fields around the concrete width, in units of \<open>2 ^ v\<close>.\<close>

lemma fits_table:
  fixes q :: int
  assumes "q = 2 ^ v"
  shows "fits True (v + 2) x \<longleftrightarrow> - (2 * q) \<le> x \<and> x < 2 * q"
    and "fits True (v + 3) x \<longleftrightarrow> - (4 * q) \<le> x \<and> x < 4 * q"
    and "fits True (v + 4) x \<longleftrightarrow> - (8 * q) \<le> x \<and> x < 8 * q"
    and "fits True (v + 5) x \<longleftrightarrow> - (16 * q) \<le> x \<and> x < 16 * q"
    and "fits False (v + 2) x \<longleftrightarrow> 0 \<le> x \<and> x < 4 * q"
    and "fits False (v + 3) x \<longleftrightarrow> 0 \<le> x \<and> x < 8 * q"
    and "fits False (v + 4) x \<longleftrightarrow> 0 \<le> x \<and> x < 16 * q"
proof -
  have "v + 2 - 1 = v + 1" "v + 3 - 1 = v + 2" "v + 4 - 1 = v + 3" "v + 5 - 1 = v + 4" by auto
  then show "fits True (v + 2) x \<longleftrightarrow> - (2 * q) \<le> x \<and> x < 2 * q"
    "fits True (v + 3) x \<longleftrightarrow> - (4 * q) \<le> x \<and> x < 4 * q"
    "fits True (v + 4) x \<longleftrightarrow> - (8 * q) \<le> x \<and> x < 8 * q"
    "fits True (v + 5) x \<longleftrightarrow> - (16 * q) \<le> x \<and> x < 16 * q"
    "fits False (v + 2) x \<longleftrightarrow> 0 \<le> x \<and> x < 4 * q"
    "fits False (v + 3) x \<longleftrightarrow> 0 \<le> x \<and> x < 8 * q"
    "fits False (v + 4) x \<longleftrightarrow> 0 \<le> x \<and> x < 16 * q"
    by (simp_all add: fits_def fits_signed_def fits_unsigned_def power_add assms algebra_simps)
qed

text \<open>The interval of results and the endpoint criterion, in the same units.\<close>

lemma least_width_range:
  assumes "numerical_is_concrete interp" and "arithmetic_operator op" and "q = (2 :: int) ^ v"
    and "a = (if interp = PIGEN_NUMERICAL_SIGNED_INTEGER then - (4 * q) else 0)"
    and "b = (if interp = PIGEN_NUMERICAL_SIGNED_INTEGER then 4 * q - 1 else 8 * q - 1)"
    and "range_ends op left e a b = (lo, hi)"
    and "1 \<le> W" and "fits s W lo" and "fits s W hi" and "\<not> fits s (W - 1) lo \<or> \<not> fits s (W - 1) hi"
  shows "least_width s W (result_values op interp (v + 3) e left)"
proof -
  have ab: "a \<le> b" using assms(3-5) by simp
  have S: "result_values op interp (v + 3) e left = operation_value op left e ` {a..b}"
    using assms(3-5) by (simp add: result_values_def concrete_interval)
  show ?thesis
    unfolding S by (rule least_widthI [OF range_ends [OF ab assms(2,6)] assms(7-9)]) (use assms(10) in auto)
qed

lemma dominant_add_subtract:
  assumes concrete: "numerical_is_concrete interp" and op: "op = PIGEN_BINARY_ADD \<or> op = PIGEN_BINARY_SUBTRACT"
    and zero: "e = 0 \<longrightarrow> op = PIGEN_BINARY_SUBTRACT \<and> left"
    and d: "dominant_answer op interp w e left = Decided (s, W)"
  shows "least_width s W (result_values op interp w e left)"
proof -
  have nd: "\<not> w \<le> value_width (nat \<bar>e\<bar>) + 2"
    using d by (auto simp: dominant_answer_def Let_def split: if_splits)
  then obtain v where w: "w = v + 3" and e: "int (nat \<bar>e\<bar>) < 2 ^ v" by (rule dominating)
  define q :: int where "q = 2 ^ v"
  have q: "1 \<le> q" "- q < e" "e < q" using e by (auto simp: q_def)
  note table = fits_table [OF q_def] fits_table [OF q_def, unfolded add.commute [of v]]
    fits_table(1,5) [OF q_def, unfolded add_2_eq_Suc']
  have one: "nat \<bar>e\<bar> = 1 \<longleftrightarrow> e = 1 \<or> e = - 1" "nat \<bar>e\<bar> = 0 \<longleftrightarrow> e = 0" by linarith+
  have arith: "arithmetic_operator op" using op by (auto simp: arithmetic_operator_def)
  note least = least_width_range [OF concrete arith q_def refl refl, folded w]
  have sums: "w = v + 3" "w + 1 = v + 4" "w + 2 = v + 5" "w - 1 = v + 2" "w + 1 - 1 = v + 3" "w + 2 - 1 = v + 4"
    using w by auto
  note answer = d [unfolded dominant_answer_def Let_def if_not_P [OF nd] one]
  have conc: "interp = PIGEN_NUMERICAL_UNSIGNED_INTEGER \<or> interp = PIGEN_NUMERICAL_SIGNED_INTEGER"
    using concrete by (auto simp: numerical_is_concrete_def)
  consider (us) "interp = PIGEN_NUMERICAL_UNSIGNED_INTEGER" | (si) "interp = PIGEN_NUMERICAL_SIGNED_INTEGER"
    using conc by blast
  then show ?thesis
  proof cases
    case us
    show ?thesis
    proof (cases "op = PIGEN_BINARY_ADD")
      case True
      then have "s = (e < 0)" "W = w + 1" using answer us zero by (auto split: if_splits)
      then show ?thesis using True us q zero
        by (intro least [where lo = "e" and hi = "8 * q - 1 + e"])
          (auto simp: range_ends_def sums table simp del: One_nat_def split: if_splits)
    next
      case False
      then have sub: "op = PIGEN_BINARY_SUBTRACT" using op by simp
      show ?thesis
      proof (cases left)
        case True
        then have "s" "W = (if e < 0 \<and> e \<noteq> - 1 then w + 2 else w + 1)" using answer us sub by (auto split: if_splits)
        then show ?thesis using True sub us q
          by (intro least [where lo = "e - (8 * q - 1)" and hi = "e"])
            (auto simp: range_ends_def sums table split: if_splits)
      next
        case False
        then have "s = (\<not> e < 0)" "W = w + 1" using answer us sub zero by (auto split: if_splits)
        then show ?thesis using False sub us q zero
          by (intro least [where lo = "- e" and hi = "8 * q - 1 - e"])
            (auto simp: range_ends_def sums table split: if_splits)
      qed
    qed
  next
    case si
    show ?thesis
    proof (cases "op = PIGEN_BINARY_ADD")
      case True
      then have "s" "W = w + 1" using answer si zero by (auto split: if_splits)
      then show ?thesis using True si q zero
        by (intro least [where lo = "- (4 * q) + e" and hi = "4 * q - 1 + e"])
          (auto simp: range_ends_def sums table split: if_splits)
    next
      case False
      then have sub: "op = PIGEN_BINARY_SUBTRACT" using op by simp
      show ?thesis
      proof (cases left)
        case True
        then have "s" "W = (if e = - 1 then w else w + 1)" using answer si sub by (auto split: if_splits)
        then show ?thesis using True sub si q
          by (intro least [where lo = "e - (4 * q - 1)" and hi = "e + 4 * q"])
            (auto simp: range_ends_def sums table split: if_splits)
      next
        case False
        then have "s" "W = w + 1" using answer si sub zero by (auto split: if_splits)
        then show ?thesis using False sub si q zero
          by (intro least [where lo = "- (4 * q) - e" and hi = "4 * q - 1 - e"])
            (auto simp: range_ends_def sums table split: if_splits)
      qed
    qed
  qed
qed

lemma dominant_multiply:
  assumes concrete: "numerical_is_concrete interp" and nz: "e \<noteq> 0"
    and d: "dominant_answer PIGEN_BINARY_MULTIPLY interp w e left = Decided (s, W)"
  shows "least_width s W (result_values PIGEN_BINARY_MULTIPLY interp w e left)"
proof -
  let ?n = "\<bar>e\<bar>"
  have nd: "\<not> w \<le> value_width (nat ?n) + 2"
    using d by (auto simp: dominant_answer_def Let_def split: if_splits)
  then obtain v where w: "w = v + 3" and n: "int (nat ?n) < 2 ^ v" by (rule dominating)
  define q :: int where "q = 2 ^ v"
  have q: "1 \<le> q" "?n < q" using n by (auto simp: q_def)
  have one: "nat ?n = 1 \<longleftrightarrow> e = 1 \<or> e = - 1" "nat ?n = 0 \<longleftrightarrow> e = 0" by linarith+
  have arith: "arithmetic_operator PIGEN_BINARY_MULTIPLY" by (simp add: arithmetic_operator_def)
  note least = least_width_range [OF concrete arith q_def refl refl, folded w]
  note answer = d [unfolded dominant_answer_def Let_def if_not_P [OF nd] one]
  have conc: "interp = PIGEN_NUMERICAL_UNSIGNED_INTEGER \<or> interp = PIGEN_NUMERICAL_SIGNED_INTEGER"
    using concrete by (auto simp: numerical_is_concrete_def)
  note table = fits_table [OF q_def] fits_table [OF q_def, unfolded add.commute [of v]]
    fits_table(1,5) [OF q_def, unfolded add_2_eq_Suc']
  show ?thesis
  proof (cases "e = 1 \<or> e = - 1")
    case True
    then have "s = (e < 0 \<or> interp = PIGEN_NUMERICAL_SIGNED_INTEGER)" "W = (if e < 0 then v + 4 else v + 3)"
      using answer conc w by (auto simp: value_width_def split: if_splits)
    then show ?thesis
      using True conc q
      by (intro least [where lo = "if interp = PIGEN_NUMERICAL_SIGNED_INTEGER
              then (if e < 0 then - (4 * q - 1) else - (4 * q)) else (if e < 0 then - (8 * q - 1) else 0)"
            and hi = "if interp = PIGEN_NUMERICAL_SIGNED_INTEGER
              then (if e < 0 then 4 * q else 4 * q - 1) else (if e < 0 then 0 else 8 * q - 1)"])
        (auto simp: range_ends_def table numerical_is_concrete_def split: if_splits)
  next
    case False
    then have n2: "2 \<le> ?n" using nz by linarith
    show ?thesis
    proof (cases "e < 0 \<and> interp = PIGEN_NUMERICAL_SIGNED_INTEGER")
      case True
      obtain k where k: "value_width (nat ?n) = k + 1" "2 ^ k \<le> int (nat ?n)" "int (nat ?n) < 2 * 2 ^ k"
        using value_width_bounds [of "nat ?n"] nz by auto
      define G :: int where "G = 2 ^ k"
      have G: "G \<le> ?n" "?n < 2 * G" "1 \<le> G" using k by (auto simp: G_def)
      have qG: "q * G = 2 ^ (v + k)" by (simp add: q_def G_def power_add)
      note wide = fits_table [OF qG]
      have sw: "s" "W = v + k + 4" using answer True False nz k(1) w by (auto split: if_splits)
      have e: "?n = - e" "e < 0" using True by auto
      have hi: "- (4 * q) * e < 8 * (q * G)" "4 * (q * G) \<le> - (4 * q) * e"
        using G q e mult_strict_left_mono [of ?n "2 * G" q] mult_left_mono [of G ?n q]
        by (auto simp: ac_simps)
      have "0 < - (4 * q) * e" using q e by (simp add: mult_less_0_iff)
      moreover have "(4 * q - 1) * e < 0" using q e by (simp add: mult_less_0_iff)
      ultimately have ends: "\<not> - (4 * q) * e \<le> (4 * q - 1) * e" by linarith
      have "- (4 * q) * e = - ((4 * q - 1) * e) - e" by (simp add: algebra_simps)
      then have lo: "- (8 * (q * G)) \<le> (4 * q - 1) * e" "(4 * q - 1) * e < 8 * (q * G)"
        using hi e(2) \<open>(4 * q - 1) * e < 0\<close> \<open>0 < - (4 * q) * e\<close> by linarith+
      have W: "W - 1 = v + k + 3" using sw by simp
      have "s = True" using sw by simp
      then have "fits s W ((4 * q - 1) * e)" "fits s W (- (4 * q) * e)"
        unfolding sw(2) using lo hi \<open>0 < - (4 * q) * e\<close> by (simp_all only: wide simp_thms)
      moreover have "\<not> fits s (W - 1) (- (4 * q) * e)"
        unfolding W using hi(2) \<open>s = True\<close> by (simp only: wide) linarith
      moreover have "range_ends PIGEN_BINARY_MULTIPLY left e (- (4 * q)) (4 * q - 1) =
          ((4 * q - 1) * e, - (4 * q) * e)"
        using ends by (simp only: range_ends_def pigen_binary_operator.case if_False)
      ultimately show ?thesis
        using True sw by (intro least [where lo = "(4 * q - 1) * e" and hi = "- (4 * q) * e"]) auto
    next
      case other: False
      obtain k where k: "value_width (nat ?n - 1) = k + 1" "2 ^ k \<le> int (nat ?n - 1)" "int (nat ?n - 1) < 2 * 2 ^ k"
        using value_width_bounds [of "nat ?n - 1"] n2 by auto
      define G :: int where "G = 2 ^ k"
      have "int (nat ?n - 1) = ?n - 1" using n2 by simp
      then have G: "1 \<le> G" "G + 1 \<le> ?n" "?n \<le> 2 * G" using k by (auto simp: G_def)
      have qG: "q * G = 2 ^ (v + k)" by (simp add: q_def G_def power_add)
      note wide = fits_table [OF qG] fits_table [OF qG, unfolded add.commute [of "v + k"]]
        and pr = product_bounds [OF q(1) G q(2)]
      consider (us_pos) "interp = PIGEN_NUMERICAL_UNSIGNED_INTEGER" "0 < e"
        | (us_neg) "interp = PIGEN_NUMERICAL_UNSIGNED_INTEGER" "e < 0"
        | (si_pos) "interp = PIGEN_NUMERICAL_SIGNED_INTEGER" "0 < e"
        using conc other nz by (metis linorder_neqE_linordered_idom)
      then show ?thesis
      proof cases
        case us_pos
        then have sw: "\<not> s" "W = v + k + 4" "W - 1 = v + k + 3"
          using answer False nz k(1) w by (auto split: if_splits)
        show ?thesis
          using us_pos sw pr q n2
          by (intro least [where lo = "0" and hi = "(8 * q - 1) * ?n"])
            (auto simp: range_ends_def wide)
      next
        case us_neg
        then have sw: "s" "W = v + k + 5" "W - 1 = v + k + 4"
          using answer False nz k(1) w by (auto split: if_splits)
        show ?thesis
          using us_neg sw pr q n2
          by (intro least [where lo = "- ((8 * q - 1) * ?n)" and hi = "0"])
            (auto simp: range_ends_def wide)
      next
        case si_pos
        then have sw: "s" "W = v + k + 4" "W - 1 = v + k + 3"
          using answer False nz k(1) w by (auto split: if_splits)
        have e: "?n = e" using si_pos by simp
        have pos: "0 < (4 * q - 1) * e" "- (4 * q) * e = - (4 * q * e)" "0 < q * G"
          using si_pos q G by (simp_all add: zero_less_mult_iff)
        then have ends: "- (4 * q) * e \<le> (4 * q - 1) * e" using pr(3) unfolding e by linarith
        have "s = True" using sw by simp
        then have "fits s W (- (4 * q) * e)" "fits s W ((4 * q - 1) * e)"
          unfolding sw(2) using pr(3,4,5) pos unfolding e by (simp_all only: wide simp_thms) linarith+
        moreover have "\<not> fits s (W - 1) (- (4 * q) * e)"
          unfolding sw(3) using pr(3) pos \<open>s = True\<close> unfolding e by (simp only: wide) linarith
        moreover have "range_ends PIGEN_BINARY_MULTIPLY left e (- (4 * q)) (4 * q - 1) =
            (- (4 * q) * e, (4 * q - 1) * e)"
          using ends by (simp only: range_ends_def pigen_binary_operator.case if_True)
        ultimately show ?thesis
          using si_pos sw by (intro least [where lo = "- (4 * q) * e" and hi = "(4 * q - 1) * e"]) auto
      qed
    qed
  qed
qed

section \<open>The widths of powers\<close>

definition power_answer :: "pigen_numerical_interpretation \<Rightarrow> nat \<Rightarrow> nat \<Rightarrow> nat" where
  "power_answer interpretation1 w k =
     (if interpretation1 = PIGEN_NUMERICAL_SIGNED_INTEGER
      then (if w = 1 \<or> k = 0 then 1 else (w - 1) * k + 1)
      else value_width ((2 ^ w - 1) ^ k))"

lemma fits_unsigned_width: "1 \<le> k \<Longrightarrow> fits False k (int n) \<longleftrightarrow> value_width n \<le> k"
  using nat_less_exp_int [of n k] by (simp add: fits_def fits_unsigned_def value_width_def bit_length_le_iff)

lemma abs_power_le: "\<bar>c\<bar> \<le> p \<Longrightarrow> \<bar>c ^ k\<bar> \<le> p ^ k" for c p :: int
  by (simp add: power_abs power_mono)

lemma power_answer_least:
  assumes concrete: "numerical_is_concrete interp" and w: "1 \<le> w"
  shows "least_width (interp = PIGEN_NUMERICAL_SIGNED_INTEGER \<and> odd k) (power_answer interp w k)
    (result_values PIGEN_BINARY_POWER interp w (int k) left)"
proof -
  have S: "result_values PIGEN_BINARY_POWER interp w (int k) left = (\<lambda>c. c ^ k) ` concrete_values interp w"
    by (simp add: result_values_def operation_value_def)
  show ?thesis
  proof (cases "interp = PIGEN_NUMERICAL_SIGNED_INTEGER")
    case False
    then have C: "concrete_values interp w = {0 .. 2 ^ w - 1}" by (simp add: concrete_values_def)
    have hi: "int ((2 ^ w - 1) ^ k) = (2 ^ w - 1) ^ k" by (simp add: of_nat_diff)
    have bound: "0 \<le> c ^ k \<and> c ^ k \<le> (2 ^ w - 1) ^ k" if "c \<in> {0 .. 2 ^ w - 1}" for c :: int
      using that by (auto intro: power_mono)
    have top: "(2 ^ w - 1 :: int) \<in> {0 .. 2 ^ w - 1}" by simp
    have all: "(\<forall>x \<in> (\<lambda>c. c ^ k) ` {0 .. 2 ^ w - 1 :: int}. fits False j x) \<longleftrightarrow> fits False j ((2 ^ w - 1) ^ k)" for j
      using bound top by (force simp: fits_def fits_unsigned_def)
    show ?thesis
      unfolding S C least_width_def
      using False all fits_unsigned_width [of _ "(2 ^ w - 1) ^ k"]
      by (auto simp: hi power_answer_def value_width_def)
  next
    case True
    define p :: int where "p = 2 ^ (w - 1)"
    have p: "1 \<le> p" by (simp add: p_def)
    have C: "concrete_values interp w = {- p .. p - 1}" using True by (simp add: concrete_values_def p_def)
    show ?thesis
    proof (cases "w = 1 \<or> k = 0")
      case one: True
      show ?thesis
      proof (cases "k = 0")
        case True
        have "(\<lambda>c. c ^ k) ` {- p .. p - 1} = {1}" using True p by (auto intro: image_eqI [where x = 0])
        then show ?thesis
          unfolding S C least_width_def using True one \<open>interp = _\<close>
          by (auto simp: power_answer_def fits_def fits_unsigned_def one_less_power)
      next
        case False
        then have C1: "{- p .. p - 1} = {- 1, 0}" using one by (auto simp: p_def)
        have z: "(0 :: int) ^ k = 0" using False by simp
        have two: "(2 :: int) ^ j \<ge> 1" "(- 1 :: int) < 2 ^ j" for j
          by (simp, rule order_less_trans [of _ 0]) simp_all
        show ?thesis
          unfolding S C C1 least_width_def using one False \<open>interp = _\<close> two
          by (auto simp: power_answer_def fits_def fits_unsigned_def fits_signed_def z one_less_power)
      qed
    next
      case many: False
      then have k: "0 < k" and p2: "1 < w" using w by auto
      define N where "N = (w - 1) * k"
      have W: "power_answer interp w k = N + 1" using many True by (simp add: power_answer_def N_def)
      have pk: "p ^ k = 2 ^ N" by (simp add: p_def power_mult N_def)
      have pos: "0 < N" using k p2 by (simp add: N_def)
      have half: "(2 :: int) ^ (N - 1) < p ^ k"
        unfolding pk using pos by (intro power_strict_increasing) auto
      have mem: "- p \<in> {- p .. p - 1}" "0 \<in> {- p .. p - 1}" "p - 1 \<in> {- p .. p - 1}" using p by auto
      have bound: "- (p ^ k) \<le> c ^ k \<and> c ^ k \<le> p ^ k" if "c \<in> {- p .. p - 1}" for c
      proof -
        have "\<bar>c\<bar> \<le> p" using that by auto
        then have "\<bar>c ^ k\<bar> \<le> p ^ k" by (rule abs_power_le)
        then show ?thesis by linarith
      qed
      show ?thesis
      proof (cases "odd k")
        case odd: True
        have upper: "c ^ k \<le> (p - 1) ^ k" if "c \<in> {- p .. p - 1}" for c
          using that odd by (auto intro: power_mono_odd)
        have "(p - 1) ^ k < p ^ k" using p k by (intro power_strict_mono) auto
        moreover have "0 \<le> (p - 1) ^ k" using p by simp
        moreover have "(- p) ^ k = - (p ^ k)" using odd by simp
        ultimately show ?thesis
          unfolding S C W using mem bound upper half odd True
          by (intro least_widthI [where lo = "- (p ^ k)" and hi = "(p - 1) ^ k"])
            (auto simp: fits_def fits_signed_def pk [symmetric] intro: image_eqI [where x = "- p"])
      next
        case even: False
        have "(- p) ^ k = p ^ k" "0 ^ k = (0 :: int)" using even k by auto
        moreover have "0 \<le> c ^ k" for c :: int using even by (simp add: zero_le_even_power)
        moreover have "(2 :: int) ^ Suc N = 2 * p ^ k" unfolding pk by simp
        moreover have "0 < p ^ k" using p by simp
        ultimately show ?thesis
          unfolding S C W using mem bound even True
          by (intro least_widthI [where lo = "0" and hi = "p ^ k"])
            (auto simp: fits_def fits_unsigned_def pk [symmetric] intro: image_eqI [where x = "- p"]
              image_eqI [where x = 0])
      qed
    qed
  qed
qed

lemma product_estimate: "1 \<le> P \<Longrightarrow> P ^ k * (P - int k) \<le> (P - 1) ^ k * P" for P :: int
proof (induction k)
  case (Suc k)
  have "P ^ Suc k * (P - int (Suc k)) \<le> (P - 1) * (P ^ k * (P - int k))"
    using Suc.prems by (simp add: algebra_simps)
  also have "\<dots> \<le> (P - 1) * ((P - 1) ^ k * P)"
    using Suc by (intro mult_left_mono) auto
  finally show ?case by (simp add: algebra_simps)
qed simp

text \<open>The product of the widths is exact while the exponent is narrower than the base.\<close>

lemma narrow_exponent:
  assumes "bit_length k < w" and "0 < k"
  shows "bit_length ((2 ^ w - 1) ^ k) = w * k"
proof -
  obtain v where w: "w = Suc v" using assms by (cases w) auto
  have "bit_length k \<le> v" using assms w by simp
  then have "k < 2 ^ v" by (simp only: bit_length_le_iff)
  then have kv: "int k < 2 ^ v" by (simp only: nat_less_exp_int)
  let ?P = "2 ^ w :: int"
  have "?P ^ k * 2 ^ v \<le> ?P ^ k * (?P - int k)" using kv w by (intro mult_left_mono) auto
  also have "\<dots> \<le> (?P - 1) ^ k * ?P" by (rule product_estimate) simp
  also have "\<dots> = (2 * (?P - 1) ^ k) * 2 ^ v" by (simp add: w)
  finally have "?P ^ k \<le> 2 * (?P - 1) ^ k" by simp
  moreover obtain j where j: "w * k = Suc j" using assms w by (cases "w * k") auto
  then have "?P ^ k = 2 * 2 ^ j" by (metis power_mult power_Suc)
  ultimately have "(2 :: int) ^ j \<le> (?P - 1) ^ k" by simp
  moreover have e: "int ((2 ^ w - 1) ^ k) = (?P - 1) ^ k" by (simp add: of_nat_diff)
  ultimately have "int (2 ^ j) \<le> int ((2 ^ w - 1) ^ k)" by simp
  then have lower: "2 ^ j \<le> (2 ^ w - 1 :: nat) ^ k" by (simp only: of_nat_le_iff)
  have "(2 ^ w - 1 :: nat) ^ k < (2 ^ w) ^ k" using assms(2) by (intro power_strict_mono) auto
  also have "(2 ^ w :: nat) ^ k = 2 ^ Suc j" by (simp only: power_mult [symmetric] j)
  finally show ?thesis using bit_length_eqI [OF lower] j by simp
qed

lemma all_ones:
  assumes "w \<le> 64"
  shows "unat (if w = 64 then - 1 else push_bit w 1 - 1 :: u64) = 2 ^ w - 1"
proof -
  have "(if w = 64 then - 1 else push_bit w 1 - 1 :: u64) = mask w"
    by (simp add: mask_eq_exp_minus_1 push_bit_of_1)
  also have "(mask w :: u64) = of_nat (mask w)" by (simp add: of_nat_mask_eq)
  also have "unat (of_nat (mask w) :: u64) = take_bit 64 (mask w)" by (simp add: unat_of_nat take_bit_eq_mod)
  also have "\<dots> = mask w" using assms by (simp add: take_bit_of_mask)
  finally have "unat (if w = 64 then - 1 else push_bit w 1 - 1 :: u64) = mask w" .
  then show ?thesis by (simp add: mask_eq_exp_minus_1)
qed

lemma unsigned_width_value:
  assumes "integer_inv m" and "integer_valid m i" and "moderate (integer_value m i)"
    and "0 \<le> integer_value m i"
  shows "pigen_integer_unsigned_width m i = value_width (nat (integer_value m i))"
proof -
  let ?k = "integers m ! i"
  note k = known_limbs [OF assms(1,2) refl]
  have len: "length (limbs_or_empty m ?k) \<le> 2 ^ 53 + 1"
    using moderate_limbs [OF assms(3)] limb_count_value [OF assms(1,2)] k(3) by simp
  have pos: "\<not> negative ?k" using assms(4) k(5,6,7) by auto
  show ?thesis
  proof (cases "limb_count ?k = 0")
    case True
    then show ?thesis
      using assms(1,2) pos k(5,7) by (simp add: pigen_integer_unsigned_width_def value_width_def)
  next
    case False
    then have "0 < mag (limbs_or_empty m ?k)" using k(7) by simp
    then have "1 \<le> bit_length (mag (limbs_or_empty m ?k))" by (simp only: bit_length_pos)
    with False show ?thesis
      using assms(1,2) pos k(4,5) moderate_width [OF k(2) len]
      by (simp add: pigen_integer_unsigned_width_def value_width_def)
  qed
qed

lemma big_power: "2 \<le> b \<Longrightarrow> k < value_width (b ^ k)"
proof -
  assume "2 \<le> b"
  then have "2 ^ k \<le> b ^ k" by (intro power_mono) auto
  then show ?thesis by (simp add: value_width_def bit_length_less_iff less_max_iff_disj)
qed

lemma closed_power_range_width:
  assumes inv: "integer_inv m" and i: "integer_valid m i" and mod: "moderate (integer_value m i)"
    and nonneg: "0 \<le> integer_value m i" and w: "1 \<le> w" and concrete: "numerical_is_concrete interp"
  defines "T \<equiv> power_answer interp w (nat (integer_value m i))"
  shows "closed_power_range_width m interp w i \<noteq> Undecided"
    and "closed_power_range_width m interp w i = Decided W \<Longrightarrow> W < UINT64_MAX \<Longrightarrow> W = T"
    and "T \<le> 2 ^ 63 \<Longrightarrow> closed_power_range_width m interp w i = Decided T"
proof -
  let ?e = "integer_value m i" and ?c = "closed_power_range_width m interp w i"
  have neg: "\<not> pigen_integer_is_negative m i" using integer_is_negative [OF inv i] nonneg by simp
  have kinds: "interp = PIGEN_NUMERICAL_SIGNED_INTEGER \<or> interp = PIGEN_NUMERICAL_UNSIGNED_INTEGER"
    "PIGEN_NUMERICAL_UNSIGNED_INTEGER \<noteq> PIGEN_NUMERICAL_SIGNED_INTEGER"
    using concrete by (auto simp: numerical_is_concrete_def)
  have both: "?c \<noteq> Undecided \<and> (?c = Decided W \<longrightarrow> W < UINT64_MAX \<longrightarrow> W = T) \<and>
    (T \<le> 2 ^ 63 \<longrightarrow> ?c = Decided T)" for W
  proof (cases "w = 1")
    case True
    then have "T = 1"
      using kinds by (cases "nat ?e") (auto simp: T_def power_answer_def value_width_def)
    then show ?thesis
      using True concrete neg by (auto simp: closed_power_range_width_def)
  next
    case w1: False
    show ?thesis
    proof (cases "pigen_integer_to_u64 m i")
      case None
      then have "UINT64_MAX < nat ?e" using integer_to_u64(1) [OF inv i] nonneg by auto
      moreover have "nat ?e < T"
      proof (cases "interp = PIGEN_NUMERICAL_SIGNED_INTEGER")
        case True
        obtain c where "w = Suc (Suc c)" using w w1 by (metis One_nat_def not0_implies_Suc not_one_le_zero)
        moreover have "nat ?e \<noteq> 0" using \<open>UINT64_MAX < nat ?e\<close> by simp
        ultimately show ?thesis using True by (simp add: T_def power_answer_def less_Suc_eq_le)
      next
        case False
        have "(2 :: nat) ^ 2 \<le> 2 ^ w" using w w1 by (intro power_increasing) auto
        then have "2 \<le> (2 ^ w - 1 :: nat)" by simp
        from big_power [OF this] show ?thesis using False by (simp add: T_def power_answer_def)
      qed
      ultimately have "\<not> T \<le> 2 ^ 63" by (simp add: UINT64_MAX_def)
      then show ?thesis
        using None w w1 concrete neg by (simp add: closed_power_range_width_def)
    next
      case (Some k)
      then have k: "nat ?e = unat k" using integer_to_u64(1) [OF inv i] by simp
      have k0: "k = 0 \<longleftrightarrow> unat k = 0" "k = 1 \<longleftrightarrow> unat k = 1"
        using word_unat_eq_iff [of k 1] by (simp_all add: unat_eq_0)
      show ?thesis
      proof (cases "interp = PIGEN_NUMERICAL_SIGNED_INTEGER")
        case True
        then show ?thesis
          using Some k k0 w w1 concrete neg
          by (auto simp: closed_power_range_width_def T_def power_answer_def multiply_width_def add_width_def
              UINT64_MAX_def div_less_iff_less_mult not_less less_eq_div_iff_mult_less_eq split: if_splits)
      next
        case False
        then have us: "interp = PIGEN_NUMERICAL_UNSIGNED_INTEGER" using kinds by blast
        then have T: "T = value_width ((2 ^ w - 1) ^ unat k)" using k by (simp add: T_def power_answer_def)
        have w2: "1 < w" using w w1 by simp
        have uw: "pigen_integer_unsigned_width m i = value_width (unat k)"
          using unsigned_width_value [OF inv i mod nonneg] k by simp
        have pw: "1 \<le> bit_length ((2 ^ w - 1) ^ unat k)" if "1 \<le> unat k"
        proof -
          have "1 < (2 :: nat) ^ w" using w2 by (intro one_less_power) auto
          then have "0 < ((2 :: nat) ^ w - 1) ^ unat k" by simp
          then show ?thesis by (simp only: bit_length_pos)
        qed
        consider "unat k = 0" | "unat k = 1" | (product) "1 < unat k" "value_width (unat k) < w"
          | (interval) "1 < unat k" "w \<le> value_width (unat k)" by linarith
        then show ?thesis
        proof cases
          case 1
          then show ?thesis using Some w w1 concrete neg k0 T
            by (auto simp: closed_power_range_width_def value_width_def)
        next
          case 2
          then have "T = w" using T narrow_exponent [of 1 w] w2 by (simp add: value_width_def)
          then show ?thesis using Some w w1 concrete neg k0 us 2
            by (auto simp: closed_power_range_width_def)
        next
          case product
          then have "bit_length (unat k) < w" by (simp add: value_width_def)
          then have "T = w * unat k" using T narrow_exponent product pw by (simp add: value_width_def)
          then show ?thesis using Some w w1 concrete neg k0 us product uw
            by (auto simp: closed_power_range_width_def multiply_width_def value_width_def UINT64_MAX_def
                div_less_iff_less_mult)
        next
          case interval
          have "value_width (unat k) \<le> 64"
            using u64_lt [of k] by (simp add: value_width_def bit_length_le_iff)
          then have w64: "w \<le> 64" using interval by simp
          define base :: u64 where "base = (if w = 64 then - 1 else push_bit w 1 - 1)"
          have base: "unat base = 2 ^ w - 1" unfolding base_def by (rule all_ones [OF w64])
          have Tp: "T = power_width base k" by (simp add: T power_width_def base value_width_def)
          have c: "?c = (case pigen_integer_power_width_u64 base k of None \<Rightarrow> Impossible | Some w \<Rightarrow> Decided w)"
            using Some w w1 w64 concrete neg k0 us interval uw
            by (auto simp: closed_power_range_width_def base_def Let_def value_width_def)
          have "bit_length (unat base ^ unat k) \<le> T" by (simp add: Tp power_width_def)
          then have complete: "T \<le> 2 ^ 63 \<Longrightarrow> pigen_integer_power_width_u64 base k = Some T"
            unfolding Tp by (intro power_width_complete) (rule order_trans)
          show ?thesis
          proof (cases "pigen_integer_power_width_u64 base k")
            case None
            then have "\<not> T \<le> 2 ^ 63" using complete by (metis option.distinct(1))
            then show ?thesis unfolding c None option.case by blast
          next
            case (Some V)
            then have "V < UINT64_MAX \<Longrightarrow> V = T" unfolding Tp by (rule power_width_sound)
            moreover have "T \<le> 2 ^ 63 \<Longrightarrow> V = T" using complete Some by (metis option.inject)
            ultimately show ?thesis
              unfolding c Some option.case by (metis width_answer.inject width_answer.distinct(1))
          qed
        qed
      qed
    qed
  qed
  from both show "?c \<noteq> Undecided" by blast
  from both show "?c = Decided W \<Longrightarrow> W < UINT64_MAX \<Longrightarrow> W = T" by blast
  from both show "T \<le> 2 ^ 63 \<Longrightarrow> ?c = Decided T" by blast
qed

section \<open>The routines compute these widths\<close>

text \<open>
  A result is delivered unless the arena runs out of room. Since the arena only grows, room left
  in the final state \<open>mf\<close> was there at every step.
\<close>

definition delivers ::
    "'a integer_arena_scheme \<Rightarrow> id \<times> 'a integer_arena_scheme \<Rightarrow> int \<Rightarrow> bool" where
  "delivers m r x \<longleftrightarrow> integer_inv (snd r) \<and> integer_extends m (snd r) \<and> fst r \<noteq> PIGEN_INVALID_ID \<and>
     integer_valid (snd r) (fst r) \<and> integer_value (snd r) (fst r) = x"

lemma yields_delivers:
  assumes "yields m r x n" and "integer_extends (snd r) mf" and "\<not> integers_exhausted mf K" and "n \<le> K"
  shows "delivers m r x"
  using assms exhausted_extends [OF assms(2)] exhausted_mono
  unfolding yields_def delivers_def by (smt (verit))

lemma delivers_step:
  assumes "delivers m (i, m1) x"
  shows "integer_inv m1" and "integer_extends m m1" and "integer_valid m1 i" and "integer_value m1 i = x"
    and "i \<noteq> PIGEN_INVALID_ID"
  using assms by (auto simp: delivers_def)

lemma limbs_of_value_mono: "\<bar>x\<bar> \<le> \<bar>y\<bar> \<Longrightarrow> limbs_of_value x \<le> limbs_of_value y"
proof -
  assume "\<bar>x\<bar> \<le> \<bar>y\<bar>"
  then have "bit_length (nat \<bar>x\<bar>) \<le> bit_length (nat \<bar>y\<bar>)" by (intro bit_length_mono) simp
  then show ?thesis by (simp add: limbs_of_value_def div_le_mono)
qed

lemma limbs_of_one [simp]: "limbs_of_value 1 = 1"
  by (simp add: limbs_of_value_def)

lemma value_width_pos: "1 \<le> value_width n"
  by (simp add: value_width_def)

lemma invalid_width: "pigen_integer_unsigned_width m i \<noteq> 0 \<Longrightarrow> integer_valid m i"
  using integer_get_Some [of m i] by (auto simp: pigen_integer_unsigned_width_def split: option.splits)

lemma compared_valid: "pigen_integer_compare m i j \<noteq> 0 \<Longrightarrow> integer_valid m i \<and> integer_valid m j"
  using integer_get_Some [of m i] integer_get_Some [of m j]
  by (auto simp: pigen_integer_compare_def split: option.splits)

lemma add_width_or_wide:
  "g \<le> 2 ^ 58 + 1 \<Longrightarrow> add_width w g = Some (w + g) \<or> 2 ^ 60 < w \<and> add_width w g = None"
  by (auto simp: add_width_def UINT64_MAX_def)

lemma dominant_computes_wide:
  assumes inv: "integer_inv m" and i: "integer_valid m i" and mod: "moderate (integer_value m i)"
    and concrete: "numerical_is_concrete interp" and op: "arithmetic_operator op"
    and run: "dominant_arithmetic_range_width m op interp w i left = (answer, mf)"
    and room: "\<not> integers_exhausted mf (max 1 (limbs_of_value (integer_value m i)))"
  shows "(answer = dominant_answer op interp w (integer_value m i) left \<or> 2 ^ 60 < w \<and> answer = Impossible) \<and>
    integer_inv mf \<and> integer_extends m mf"
proof -
  let ?e = "integer_value m i" and ?neg = "pigen_integer_is_negative m i"
  let ?K = "max 1 (limbs_of_value ?e)"
  have neg: "?neg \<longleftrightarrow> ?e < 0" by (rule integer_is_negative [OF inv i])
  have modn: "moderate \<bar>?e\<bar>" "moderate (\<bar>?e\<bar> - 1)"
  proof -
    have "bit_length (nat \<bar>\<bar>?e\<bar> - 1\<bar>) \<le> max 1 (bit_length (nat \<bar>?e\<bar>))"
    proof (cases "?e = 0")
      case False
      then have "bit_length (nat \<bar>\<bar>?e\<bar> - 1\<bar>) \<le> bit_length (nat \<bar>?e\<bar>)"
        by (intro bit_length_mono) simp
      then show ?thesis by (rule max.coboundedI2)
    qed simp
    moreover have "max 1 (bit_length (nat \<bar>?e\<bar>)) \<le> 2 ^ 58" using mod by (simp add: moderate_def)
    ultimately show "moderate \<bar>?e\<bar>" "moderate (\<bar>?e\<bar> - 1)"
      using mod order_trans by (auto simp only: moderate_def abs_abs)
  qed
  obtain mag1 m1 where M: "(if ?neg then pigen_integer_negate m i else (i, m)) = (mag1, m1)" by fastforce
  have y1: "yields m (mag1, m1) \<bar>?e\<bar> (limbs_of_value ?e)"
    using M neg integer_negate [OF inv i] yields_same [OF inv i, of "limbs_of_value ?e"]
    by (auto split: if_splits)
  then have inv1: "integer_inv m1" and ext1: "integer_extends m m1" by (auto simp: yields_def)
  let ?w1 = "pigen_integer_unsigned_width m1 mag1"
  note body = run [unfolded dominant_arithmetic_range_width_def Let_def M prod.case if_not_P [OF not_not [THEN iffD2, OF concrete]]]
  have width: "?w1 = value_width (nat \<bar>?e\<bar>) \<and> integer_value m1 mag1 = \<bar>?e\<bar>" if "integer_valid m1 mag1"
  proof -
    have "mag1 \<noteq> PIGEN_INVALID_ID" using integer_valid_not_invalid [OF inv1 that] by simp
    then have "integer_value m1 mag1 = \<bar>?e\<bar>" using y1 by (simp add: yields_def)
    with unsigned_width_value [OF inv1 that] modn show ?thesis by simp
  qed
  have vw: "value_width (nat \<bar>?e\<bar>) \<le> 2 ^ 58" using mod by (simp add: moderate_def value_width_def)
  show ?thesis
  proof (cases "?w1 = 0 \<or> ?w1 > UINT64_MAX - 2 \<or> w \<le> ?w1 + 2")
    case True
    then have r: "answer = Undecided" "mf = m1" using body by auto
    have "mag1 \<noteq> PIGEN_INVALID_ID"
      using y1 room r(2) exhausted_mono [of m1 "limbs_of_value ?e" ?K] by (auto simp: yields_def)
    then have "integer_valid m1 mag1" using y1 by (simp add: yields_def)
    from width [OF this] True vw r have "w \<le> value_width (nat \<bar>?e\<bar>) + 2"
      using value_width_pos [of "nat \<bar>?e\<bar>"] by (auto simp: UINT64_MAX_def)
    then show ?thesis using r inv1 ext1 by (simp add: dominant_answer_def)
  next
    case decided: False
    then have v1: "integer_valid m1 mag1" by (intro invalid_width) auto
    note W = width [OF v1]
    have zero: "pigen_integer_is_zero m1 mag1 \<longleftrightarrow> ?e = 0" using integer_is_zero [OF inv1 v1] W by simp
    have nd: "\<not> w \<le> value_width (nat \<bar>?e\<bar>) + 2" using decided W by simp
    show ?thesis
    proof (cases "?e = 0")
      case True
      then have "answer = grown True (add_width w 1)" "mf = m1" using body decided zero by auto
      then show ?thesis
        using True nd inv1 ext1 add_width_or_wide [of 1 w] by (auto simp: dominant_answer_def grown_def)
    next
      case nonzero: False
      obtain one m2 where m2: "pigen_integer_intern_u64 m1 1 = (one, m2)" by fastforce
      have y2: "yields m1 (one, m2) 1 1" using integer_intern_u64 [OF inv1, of 1] m2 by simp
      let ?is_one = "pigen_integer_compare m2 mag1 one = 0"
      obtain lw m3 where m3: "(if ?is_one then (0, m2) else
          let (one_less, m3) = pigen_integer_subtract m2 mag1 one
          in (pigen_integer_unsigned_width m3 one_less, m3)) = (lw, m3)" by fastforce
      have inv2: "integer_inv m2" and ext2: "integer_extends m1 m2" using y2 by (auto simp: yields_def)
      have mf: "mf = m3" using body decided zero nonzero m2 m3
        by (auto simp: Let_def split: if_splits)
      have v2: "integer_valid m2 mag1" "integer_value m2 mag1 = \<bar>?e\<bar>"
        using extends_valid [OF ext2 v1] extends_value [OF inv1 ext2 v1] W by auto
      have one_ok: "integer_valid m2 one"
      proof (cases ?is_one)
        case True
        then have "mf = m2" using m3 mf by simp
        then have "one \<noteq> PIGEN_INVALID_ID"
          using y2 room exhausted_mono [of m2 1 ?K] by (auto simp: yields_def)
        then show ?thesis using y2 by (simp add: yields_def)
      next
        case False
        then show ?thesis using compared_valid by blast
      qed
      then have "one \<noteq> PIGEN_INVALID_ID" using integer_valid_not_invalid [OF inv2] by auto
      then have one_value: "integer_value m2 one = 1" using y2 by (simp add: yields_def)
      have is_one: "?is_one \<longleftrightarrow> nat \<bar>?e\<bar> = 1"
        using integer_compare [OF inv2 v2(1) one_ok] v2(2) one_value by (auto simp: sgn_0_0)
      have lw: "(nat \<bar>?e\<bar> \<noteq> 1 \<longrightarrow> lw = value_width (nat \<bar>?e\<bar> - 1)) \<and> integer_inv m3 \<and> integer_extends m2 m3"
      proof (cases ?is_one)
        case True
        then show ?thesis using m3 is_one inv2 by auto
      next
        case False
        obtain less where less: "pigen_integer_subtract m2 mag1 one = (less, m3)"
          and lw: "lw = pigen_integer_unsigned_width m3 less" using False m3 by (auto split: prod.splits)
        have y3: "yields m2 (less, m3) (\<bar>?e\<bar> - 1) (max 1 (limbs_of_value (\<bar>?e\<bar> - 1)))"
          using integer_subtract [OF inv2 v2(1) one_ok] less v2(2) one_value by simp
        have "limbs_of_value (\<bar>?e\<bar> - 1) \<le> limbs_of_value ?e"
          using nonzero by (intro limbs_of_value_mono) simp
        then have "delivers m2 (less, m3) (\<bar>?e\<bar> - 1)"
          using yields_delivers [OF y3, of mf ?K] mf room by simp
        note d = delivers_step [OF this]
        have "lw = value_width (nat (\<bar>?e\<bar> - 1))"
          using unsigned_width_value [OF d(1,3)] d(4) modn nonzero lw by simp
        moreover have "nat (\<bar>?e\<bar> - 1) = nat \<bar>?e\<bar> - 1" by linarith
        ultimately show ?thesis using d by simp
      qed
      have ext: "integer_extends m mf" using ext1 ext2 lw mf integer_extends_trans by blast
      have lw_le: "value_width (nat \<bar>?e\<bar> - 1) \<le> 2 ^ 58"
      proof -
        have "bit_length (nat \<bar>?e\<bar> - 1) \<le> bit_length (nat \<bar>?e\<bar>)" by (rule bit_length_mono) simp
        then show ?thesis using mod by (simp add: moderate_def value_width_def)
      qed
      have nz: "nat \<bar>?e\<bar> \<noteq> 0" using nonzero by simp
      note m3' = m3 [unfolded Let_def]
      note steps = body [unfolded if_not_P [OF decided] zero if_not_P [OF nonzero] m2 prod.case m3']
      have one_iff: "nat \<bar>?e\<bar> = 1 \<longleftrightarrow> ?is_one" using is_one by simp
      have lw0: "\<not> (\<not> ?is_one \<and> lw = 0)"
        using lw is_one value_width_pos [of "nat \<bar>?e\<bar> - 1"] by auto
      have lw_value: "\<not> ?is_one \<Longrightarrow> value_width (nat \<bar>?e\<bar> - 1) = lw" using lw is_one by auto
      note answer = steps [unfolded if_not_P [OF lw0]]
      have sum: "add_width w g = Some (w + g) \<or> 2 ^ 60 < w \<and> add_width w g = None"
        if "g \<le> 2 ^ 58 + 1" for g by (rule add_width_or_wide [OF that])
      have small: "lw \<le> 2 ^ 58" if "\<not> ?is_one" using lw_value [OF that] lw_le by simp
      have target: "dominant_answer op interp w ?e left =
        (if interp = PIGEN_NUMERICAL_UNSIGNED_INTEGER then
          (case op of
             PIGEN_BINARY_ADD \<Rightarrow> Decided (?neg, w + 1)
           | PIGEN_BINARY_SUBTRACT \<Rightarrow>
               Decided (left \<or> \<not> ?neg, w + (if left \<and> ?neg \<and> \<not> ?is_one then 2 else 1))
           | PIGEN_BINARY_MULTIPLY \<Rightarrow>
               Decided (?neg, w + (if ?is_one then (if ?neg then 1 else 0)
                 else if ?neg then value_width (nat \<bar>?e\<bar> - 1) + 1 else value_width (nat \<bar>?e\<bar> - 1)))
           | _ \<Rightarrow> Impossible)
         else
          (case op of
             PIGEN_BINARY_ADD \<Rightarrow> Decided (True, w + 1)
           | PIGEN_BINARY_SUBTRACT \<Rightarrow> Decided (True, w + (if left \<and> ?neg \<and> ?is_one then 0 else 1))
           | PIGEN_BINARY_MULTIPLY \<Rightarrow>
               Decided (True, w + (if ?neg then ?w1 else if ?is_one then 0 else value_width (nat \<bar>?e\<bar> - 1)))
           | _ \<Rightarrow> Impossible))"
        unfolding dominant_answer_def Let_def if_not_P [OF nd] if_not_P [OF nz] one_iff neg W [THEN conjunct1] ..
      have big: "lw \<noteq> UINT64_MAX" if "\<not> ?is_one" using small [OF that] by (simp add: UINT64_MAX_def)
      have w1: "?w1 \<le> 2 ^ 58 + 1" using W vw by simp
      have "answer = dominant_answer op interp w ?e left \<or> 2 ^ 60 < w \<and> answer = Impossible"
      proof (cases "interp = PIGEN_NUMERICAL_UNSIGNED_INTEGER")
        case us: True
        consider "op = PIGEN_BINARY_ADD" | "op = PIGEN_BINARY_SUBTRACT" | "op = PIGEN_BINARY_MULTIPLY"
          using op by (auto simp: arithmetic_operator_def)
        then show ?thesis
        proof cases
          case 3
          show ?thesis
            using answer [unfolded if_P [OF us] 3 pigen_binary_operator.case] small lw_value big
              target [unfolded if_P [OF us] 3 pigen_binary_operator.case]
            using sum [of "if ?is_one then if ?neg then 1 else 0 else if ?neg then lw + 1 else lw"]
            by (cases ?is_one; cases ?neg) (auto simp: 3 grown_def)
        next
          case 1
          show ?thesis
            using answer [unfolded if_P [OF us] 1 pigen_binary_operator.case]
              target [unfolded if_P [OF us] 1 pigen_binary_operator.case]
            using sum [of 1] by (auto simp: 1 grown_def)
        next
          case 2
          show ?thesis
            using answer [unfolded if_P [OF us] 2 pigen_binary_operator.case]
              target [unfolded if_P [OF us] 2 pigen_binary_operator.case]
            using sum [of "if left \<and> ?neg \<and> \<not> ?is_one then 2 else 1"] by (cases left; cases ?neg; cases ?is_one) (auto simp: 2 grown_def)
        qed
      next
        case si: False
        consider "op = PIGEN_BINARY_ADD" | "op = PIGEN_BINARY_SUBTRACT" | "op = PIGEN_BINARY_MULTIPLY"
          using op by (auto simp: arithmetic_operator_def)
        then show ?thesis
        proof cases
          case 3
          show ?thesis
            using answer [unfolded if_not_P [OF si] 3 pigen_binary_operator.case] small lw_value w1
              target [unfolded if_not_P [OF si] 3 pigen_binary_operator.case]
            using sum [of "if ?neg then ?w1 else if ?is_one then 0 else lw"]
            by (cases ?is_one; cases ?neg) (auto simp: 3 grown_def)
        next
          case 1
          show ?thesis
            using answer [unfolded if_not_P [OF si] 1 pigen_binary_operator.case]
              target [unfolded if_not_P [OF si] 1 pigen_binary_operator.case]
            using sum [of 1] by (auto simp: 1 grown_def)
        next
          case 2
          show ?thesis
            using answer [unfolded if_not_P [OF si] 2 pigen_binary_operator.case]
              target [unfolded if_not_P [OF si] 2 pigen_binary_operator.case]
            using sum [of "if left \<and> ?neg \<and> ?is_one then 0 else 1"] by (cases left; cases ?neg; cases ?is_one) (auto simp: 2 grown_def)
        qed
      qed
      then show ?thesis using lw mf ext by simp
    qed
  qed
qed

lemma dominant_computes:
  assumes "integer_inv m" and "integer_valid m i" and "moderate (integer_value m i)"
    and "numerical_is_concrete interp" and "arithmetic_operator op" and "w \<le> 2 ^ 60"
    and "dominant_arithmetic_range_width m op interp w i left = (answer, mf)"
    and "\<not> integers_exhausted mf (max 1 (limbs_of_value (integer_value m i)))"
  shows "answer = dominant_answer op interp w (integer_value m i) left \<and> integer_inv mf \<and> integer_extends m mf"
  using dominant_computes_wide [OF assms(1-5,7,8)] assms(6) by auto

text \<open>Limbs and widths of values below a power of two.\<close>

lemma bits_below: "\<bar>x\<bar> < 2 ^ B \<Longrightarrow> bit_length (nat \<bar>x\<bar>) \<le> B"
  by (simp add: bit_length_le_iff nat_less_iff)

lemma limbs_below: "\<bar>x\<bar> < 2 ^ B \<Longrightarrow> limbs_of_value x \<le> (B + 31) div 32"
  using bits_below [of x B] by (simp add: limbs_of_value_def div_le_mono)

lemma concrete_bounds_compute:
  assumes inv: "integer_inv m" and w: "1 \<le> w" "w \<le> 2 ^ 57" and concrete: "numerical_is_concrete interp"
    and run: "concrete_integer_bounds m interp w = (r, mf)"
    and ext: "integer_extends mf mz" and room: "\<not> integers_exhausted mz K" and K: "(w + 32) div 32 \<le> K"
  shows "\<exists>lo hi. r = Some (lo, hi) \<and> integer_inv mf \<and> integer_extends m mf \<and>
    integer_valid mf lo \<and> integer_valid mf hi \<and>
    concrete_values interp w = {integer_value mf lo .. integer_value mf hi} \<and>
    integer_value mf lo \<le> integer_value mf hi"
proof -
  let ?s = "interp = PIGEN_NUMERICAL_SIGNED_INTEGER"
  let ?n = "if ?s then w - 1 else w"
  have below: "\<bar>x\<bar> < 2 ^ (w + 1) \<Longrightarrow> limbs_of_value x \<le> K" for x
    using limbs_below [of x "w + 1"] K by simp
  have pw: "(2 :: int) ^ ?n < 2 ^ (w + 1)" by (intro power_strict_increasing) auto
  obtain one m1 where m1: "pigen_integer_intern_u64 m 1 = (one, m1)" by fastforce
  have y1: "yields m (one, m1) 1 1" using integer_intern_u64 [OF inv, of 1] m1 by simp
  note body = run [unfolded concrete_integer_bounds_def Let_def m1 prod.case]
  have K1: "1 \<le> K" using K by simp
  have "one \<noteq> PIGEN_INVALID_ID"
  proof
    assume one: "one = PIGEN_INVALID_ID"
    then have "mf = m1" using body by simp
    then show False using yields_delivers [OF y1 _ room K1] ext one by (simp add: delivers_def)
  qed
  then have d1: "integer_inv m1" "integer_extends m m1" "integer_valid m1 one" "integer_value m1 one = 1"
    using y1 by (auto simp: yields_def)
  obtain limit m2 where m2: "pigen_integer_shift_left m1 one ?n (if w = SIZE_MAX then SIZE_MAX else w + 1) = (limit, m2)"
    by fastforce
  have maxb: "(if w = SIZE_MAX then SIZE_MAX else w + 1) = w + 1" using w by (simp add: SIZE_MAX_def)
  have y2: "yields m1 (limit, m2) (2 ^ ?n) (limbs_of_value (2 ^ ?n))"
    using integer_shift_left [OF d1(1,3), of "w + 1" ?n] d1(4) w m2 maxb bits_below [of "2 ^ ?n" "w + 1"] pw
    by (simp add: SIZE_MAX_def moderate_def power_abs)
  note body2 = body [unfolded m2 prod.case]
  have K2: "limbs_of_value (2 ^ ?n) \<le> K" using below [of "2 ^ ?n"] pw by simp
  have one: "one \<noteq> PIGEN_INVALID_ID" by fact
  have "limit \<noteq> PIGEN_INVALID_ID"
  proof
    assume l: "limit = PIGEN_INVALID_ID"
    then have "mf = m2" using body2 one w concrete by simp
    then show False using yields_delivers [OF y2 _ room K2] ext l by (simp add: delivers_def)
  qed
  then have d2: "integer_inv m2" "integer_extends m1 m2" "integer_valid m2 limit" "integer_value m2 limit = 2 ^ ?n"
    and limit: "limit \<noteq> PIGEN_INVALID_ID" using y2 by (auto simp: yields_def)
  have one2: "integer_valid m2 one" "integer_value m2 one = 1"
    using extends_valid [OF d2(2) d1(3)] extends_value [OF d1(1) d2(2) d1(3)] d1(4) by auto
  obtain less m3 where m3: "pigen_integer_subtract m2 limit one = (less, m3)" by fastforce
  have y3: "yields m2 (less, m3) (2 ^ ?n - 1) (max 1 (limbs_of_value (2 ^ ?n - 1)))"
    using integer_subtract [OF d2(1,3) one2(1)] m3 one2(2) d2(4) by simp
  note body3 = body2 [unfolded m3 prod.case]
  have K3: "max 1 (limbs_of_value (2 ^ ?n - 1)) \<le> K"
    using below [of "2 ^ ?n - 1"] pw K1 by simp
  have "less \<noteq> PIGEN_INVALID_ID"
  proof
    assume l: "less = PIGEN_INVALID_ID"
    then have "mf = m3" using body3 one w concrete limit by simp
    then show False using yields_delivers [OF y3 _ room K3] ext l by (simp add: delivers_def)
  qed
  then have d3: "integer_inv m3" "integer_extends m2 m3" "integer_valid m3 less" "integer_value m3 less = 2 ^ ?n - 1"
    and less: "less \<noteq> PIGEN_INVALID_ID" using y3 by (auto simp: yields_def)
  have limit3: "integer_valid m3 limit" "integer_value m3 limit = 2 ^ ?n"
    using extends_valid [OF d3(2) d2(3)] extends_value [OF d2(1) d3(2) d2(3)] d2(4) by auto
  obtain lo m4 where m4: "(if ?s then pigen_integer_negate m3 limit else pigen_integer_intern_u64 m3 0) = (lo, m4)"
    by fastforce
  have y4: "yields m3 (lo, m4) (if ?s then - (2 ^ ?n) else 0) K"
    using m4 integer_negate [OF d3(1) limit3(1)] limit3(2) integer_intern_u64 [OF d3(1), of 0] K2
    by (cases ?s) (auto intro: yields_mono simp: limbs_of_value_def)
  have r: "r = (if lo = PIGEN_INVALID_ID then None else Some (lo, less))" "mf = m4"
    using body3 m4 one w concrete limit less by auto
  have d4: "delivers m3 (lo, m4) (if ?s then - (2 ^ ?n) else 0)"
    using yields_delivers [OF y4 _ room] ext r(2) by simp
  note d4' = delivers_step [OF d4]
  have hi: "integer_valid m4 less" "integer_value m4 less = 2 ^ ?n - 1"
    using extends_valid [OF d4'(2) d3(3)] extends_value [OF d3(1) d4'(2) d3(3)] d3(4) by auto
  have "integer_extends m m4"
    using d1(2) d2(2) d3(2) d4'(2) integer_extends_trans by blast
  moreover have "concrete_values interp w = {integer_value m4 lo .. integer_value m4 less}"
    using d4'(4) hi(2) by (simp add: concrete_values_def)
  moreover have "integer_value m4 lo \<le> integer_value m4 less" using d4'(4) hi(2) by (simp add: order_trans [of _ 0])
  ultimately show ?thesis using r d4' hi by auto
qed

text \<open>A pair of results computed one after the other.\<close>

lemma pair_delivers:
  assumes "yields m1 (lo, m2) x nx" and "integer_inv m2 \<Longrightarrow> integer_extends m1 m2 \<Longrightarrow> yields m2 (hi, m3) y ny"
    and "integer_extends m3 mz" and "\<not> integers_exhausted mz K" and "nx \<le> K" and "ny \<le> K"
  shows "both_endpoints lo hi = Some (lo, hi) \<and> both_endpoints hi lo = Some (hi, lo) \<and> integer_inv m3 \<and>
    integer_extends m1 m3 \<and> integer_valid m3 lo \<and> integer_valid m3 hi \<and>
    integer_value m3 lo = x \<and> integer_value m3 hi = y"
proof -
  have y2: "yields m2 (hi, m3) y ny" using assms(1,2) by (auto simp: yields_def)
  then have d2: "delivers m2 (hi, m3) y" using yields_delivers [OF y2 _ assms(4,6)] assms(3) by simp
  note b = delivers_step [OF d2]
  have "integer_extends m2 mz" by (rule integer_extends_trans [OF b(2) assms(3)])
  then have "delivers m1 (lo, m2) x" using yields_delivers [OF assms(1) _ assms(4,5)] by simp
  note a = delivers_step [OF this]
  show ?thesis
    using a b extends_valid [OF b(2) a(3)] extends_value [OF a(1) b(2) a(3)]
      integer_extends_trans [OF a(2) b(2)] by (simp add: both_endpoints_def)
qed

lemma abs_mult_less: "\<bar>a\<bar> < c \<Longrightarrow> \<bar>b\<bar> < d \<Longrightarrow> \<bar>a * b\<bar> < c * d" for a b c d :: int
  unfolding abs_mult by (rule mult_strict_mono) auto

lemma concrete_bounds_grow:
  assumes "integer_inv m" and "concrete_integer_bounds m interp w = (r, mf)"
  shows "integer_inv mf \<and> integer_extends m mf \<and>
    (\<forall>lo hi. r = Some (lo, hi) \<longrightarrow> integer_valid mf lo \<and> integer_valid mf hi)"
proof -
  let ?s = "interp = PIGEN_NUMERICAL_SIGNED_INTEGER"
  obtain one m1 where m1: "pigen_integer_intern_u64 m 1 = (one, m1)" by fastforce
  have "grows m (one, m1)" using grows_u64 [OF assms(1)] m1 by metis
  note g1 = grows_parts [OF this]
  obtain limit m2 where m2: "pigen_integer_shift_left m1 one (if ?s then w - 1 else w)
      (if w = SIZE_MAX then SIZE_MAX else w + 1) = (limit, m2)" by fastforce
  have "grows m1 (limit, m2)" using grows_shift_left [OF g1(1)] m2 by metis
  note g2 = grows_parts [OF this]
  obtain less m3 where m3: "pigen_integer_subtract m2 limit one = (less, m3)" by fastforce
  have "grows m2 (less, m3)" using grows_subtract [OF g2(1)] m3 by metis
  note g3 = grows_parts [OF this]
  obtain lo m4 where m4: "(if ?s then pigen_integer_negate m3 limit else pigen_integer_intern_u64 m3 0) = (lo, m4)"
    by fastforce
  have "grows m3 (lo, m4)" using grows_negate [OF g3(1)] grows_u64 [OF g3(1)] m4 by metis
  note g4 = grows_parts [OF this]
  have ext: "integer_extends m m2" "integer_extends m m3" "integer_extends m m4"
    using g1(2) g2(2) g3(2) g4(2) integer_extends_trans by blast+
  show ?thesis
    using assms(2) g1 g2 g3 g4 ext extends_valid [OF g4(2)]
    unfolding concrete_integer_bounds_def Let_def m1 prod.case m2 m3 m4
    by (auto split: if_splits)
qed

lemma operand_magnitude:
  assumes "c \<in> concrete_values interp w"
  shows "\<bar>c\<bar> < 2 ^ (w + 1)"
proof -
  have "(2 :: int) ^ (w - 1) < 2 ^ (w + 1)" "(2 :: int) ^ w < 2 ^ (w + 1)"
    by (intro power_strict_increasing; simp)+
  then show ?thesis using assms by (auto simp: concrete_values_def split: if_splits)
qed

lemma result_magnitude:
  assumes "c \<in> concrete_values interp w" and "bit_length (nat \<bar>e\<bar>) = be"
  shows "\<bar>c\<bar> + \<bar>e\<bar> < 2 ^ (w + be + 2)" and "\<bar>c * e\<bar> < 2 ^ (w + be + 2)"
proof -
  have absb: "\<bar>e\<bar> < 2 ^ be" using assms(2) less_exp_bit_length [of "nat \<bar>e\<bar>"] by (simp add: nat_less_iff)
  have "(2 :: int) ^ (w + 1) \<le> 2 ^ (w + be + 1)" "(2 :: int) ^ be \<le> 2 ^ (w + be + 1)"
    by (intro power_increasing; simp)+
  moreover have "(2 :: int) ^ (w + be + 2) = 2 ^ (w + be + 1) + 2 ^ (w + be + 1)" by simp
  ultimately show "\<bar>c\<bar> + \<bar>e\<bar> < 2 ^ (w + be + 2)" using operand_magnitude [OF assms(1)] absb by linarith
  have "\<bar>c * e\<bar> < 2 ^ (w + 1) * 2 ^ be" by (rule abs_mult_less [OF operand_magnitude [OF assms(1)] absb])
  also have "\<dots> < 2 ^ (w + be + 2)" by (simp add: power_add)
  finally show "\<bar>c * e\<bar> < 2 ^ (w + be + 2)" .
qed

lemma arithmetic_endpoints_compute:
  assumes inv: "integer_inv m" and i: "integer_valid m i" and w: "1 \<le> w" "w \<le> 2 ^ 57"
    and bits: "bit_length (nat \<bar>integer_value m i\<bar>) = be" "be \<le> 2 ^ 57"
    and concrete: "numerical_is_concrete interp" and op: "arithmetic_operator op"
    and run: "arithmetic_range_endpoints m op interp w i left = (r, mf)"
    and room: "\<not> integers_exhausted mf ((w + be + 33) div 32)"
  shows "\<exists>lo hi a b. r = Some (lo, hi) \<and> integer_inv mf \<and> integer_extends m mf \<and>
    integer_valid mf lo \<and> integer_valid mf hi \<and> concrete_values interp w = {a..b} \<and> a \<le> b \<and>
    range_ends op left (integer_value m i) a b = (integer_value mf lo, integer_value mf hi)"
proof -
  let ?e = "integer_value m i" and ?K = "(w + be + 33) div 32"
  have ine: "i \<noteq> PIGEN_INVALID_ID" using integer_valid_not_invalid [OF inv i] by simp
  obtain q m1 where q: "concrete_integer_bounds m interp w = (q, m1)" by fastforce
  note body = run [unfolded arithmetic_range_endpoints_def if_not_P [OF ine] q]
  have Kw: "(w + 32) div 32 \<le> ?K" by (intro div_le_mono) simp
  have bounds: "\<exists>lo hi. q = Some (lo, hi) \<and> integer_inv m1 \<and> integer_extends m m1 \<and>
      integer_valid m1 lo \<and> integer_valid m1 hi \<and>
      concrete_values interp w = {integer_value m1 lo .. integer_value m1 hi} \<and>
      integer_value m1 lo \<le> integer_value m1 hi"
    if "integer_extends m1 mf"
    by (rule concrete_bounds_compute [OF inv w concrete q that room Kw])
  have fine: "limbs_of_value x \<le> ?K" if "\<bar>x\<bar> < 2 ^ (w + be + 2)" for x
    using limbs_below [OF that] by simp
  note absc = operand_magnitude and sums = result_magnitude [OF _ bits(1)]
  note g = concrete_bounds_grow [OF inv q]
  show ?thesis
  proof (cases q)
    case None
    then have "mf = m1" using body by simp
    with bounds None show ?thesis by auto
  next
    case (Some bnd)
    obtain a b where bnd: "bnd = (a, b)" by fastforce
    have v1: "integer_inv m1" "integer_extends m m1" "integer_valid m1 a" "integer_valid m1 b" "integer_valid m1 i"
      "integer_value m1 i = ?e"
      using g Some bnd extends_valid [OF conjunct1 [OF conjunct2 [OF g]] i]
        extends_value [OF inv conjunct1 [OF conjunct2 [OF g]] i] by auto
    let ?op = "\<lambda>mm x. if op = PIGEN_BINARY_ADD then pigen_integer_add mm x i
      else if op = PIGEN_BINARY_SUBTRACT then (if left then pigen_integer_subtract mm i x else pigen_integer_subtract mm x i)
      else pigen_integer_multiply mm x i"
    let ?first = "if op = PIGEN_BINARY_SUBTRACT \<and> left then b else a"
    let ?second = "if op = PIGEN_BINARY_SUBTRACT \<and> left then a else b"
    obtain x m2 where m2: "?op m1 ?first = (x, m2)" by fastforce
    obtain y m3 where m3: "?op m2 ?second = (y, m3)" by fastforce
    have mf: "mf = m3"
      using body Some bnd m2 m3 op by (auto simp: arithmetic_operator_def split: if_splits prod.splits)
    have grow_op: "integer_inv mm \<Longrightarrow> grows mm (?op mm c)" for mm c
      by (simp add: pigen_integer_multiply_def)
    have g2: "integer_inv m2" "integer_extends m1 m2" by (rule grows_parts [OF grow_op [OF v1(1), of ?first, unfolded m2]])+
    have g3: "integer_extends m2 m3" by (rule grows_parts(2) [OF grow_op [OF g2(1), of ?second, unfolded m3]])
    have "integer_extends m1 mf" using integer_extends_trans [OF g2(2) g3] mf by simp
    then obtain A B where AB: "concrete_values interp w = {A..B}" "A \<le> B" "A = integer_value m1 a" "B = integer_value m1 b"
      using bounds Some bnd by auto
    have mem: "A \<in> concrete_values interp w" "B \<in> concrete_values interp w" using AB by auto
    let ?val = "operation_value op left ?e"
    have yields_op: "yields mm (?op mm c) (?val C) ?K"
      if "integer_inv mm" "integer_valid mm c" "integer_value mm c = C" "integer_valid mm i" "integer_value mm i = ?e"
        "C \<in> concrete_values interp w" for mm c C
    proof -
      have "\<bar>?e\<bar> \<le> \<bar>C\<bar> + \<bar>?e\<bar>" "\<bar>C + ?e\<bar> \<le> \<bar>C\<bar> + \<bar>?e\<bar>" "\<bar>C - ?e\<bar> \<le> \<bar>C\<bar> + \<bar>?e\<bar>" "\<bar>?e - C\<bar> \<le> \<bar>C\<bar> + \<bar>?e\<bar>"
        "\<bar>C\<bar> \<le> \<bar>C\<bar> + \<bar>?e\<bar>" by linarith+
      then have K: "limbs_of_value ?e \<le> ?K" "limbs_of_value C \<le> ?K" "limbs_of_value (C + ?e) \<le> ?K"
        "limbs_of_value (C - ?e) \<le> ?K" "limbs_of_value (?e - C) \<le> ?K" "limbs_of_value (C * ?e) \<le> ?K"
        using sums [OF that(6)] fine by (meson order_le_less_trans)+
      have mods: "moderate C" "moderate ?e"
        using bits_below [OF absc [OF that(6)]] bits w by (auto simp: moderate_def)
      have "bit_length (nat \<bar>C * ?e\<bar>) \<le> w + be + 2" by (rule bits_below [OF sums(2) [OF that(6)]])
      also have "\<dots> \<le> SIZE_MAX" using w bits by (simp add: SIZE_MAX_def)
      finally have prod: "yields mm (pigen_integer_multiply mm c i) (C * ?e) (limbs_of_value (C * ?e))"
        using integer_multiply_bounded [OF that(1,2,4), of SIZE_MAX] that(3,5) mods
        by (simp add: pigen_integer_multiply_def SIZE_MAX_def)
      show ?thesis
        using op integer_add [OF that(1,2,4)] integer_subtract [OF that(1,2,4)] integer_subtract [OF that(1,4,2)]
          prod that(3,5) K
        by (auto simp: arithmetic_operator_def operation_value_def intro: yields_mono)
    qed
    let ?X = "if op = PIGEN_BINARY_SUBTRACT \<and> left then B else A"
    let ?Y = "if op = PIGEN_BINARY_SUBTRACT \<and> left then A else B"
    have y1: "yields m1 (x, m2) (?val ?X) ?K"
      unfolding m2 [symmetric] by (rule yields_op) (use v1 AB mem in auto)
    have y2: "yields m2 (y, m3) (?val ?Y) ?K"
      unfolding m3 [symmetric]
      by (rule yields_op) (use v1 AB mem g2 extends_valid [OF g2(2)] extends_value [OF v1(1) g2(2)] in auto)
    note d = pair_delivers [OF y1 y2 integer_extends_refl room [unfolded mf] order_refl order_refl]
    have cmp: "pigen_integer_compare m3 x y \<le> 0 \<longleftrightarrow> ?val ?X \<le> ?val ?Y"
      using integer_compare [of m3 x y] d by (simp add: sgn_if)
    define lo where "lo = (if op = PIGEN_BINARY_MULTIPLY \<and> \<not> ?val ?X \<le> ?val ?Y then y else x)"
    define hi where "hi = (if op = PIGEN_BINARY_MULTIPLY \<and> \<not> ?val ?X \<le> ?val ?Y then x else y)"
    have "r = Some (lo, hi)"
      using body Some bnd m2 m3 op d cmp unfolding lo_def hi_def
      by (auto simp: arithmetic_operator_def split: if_splits prod.splits)
    moreover have "range_ends op left ?e A B = (integer_value m3 lo, integer_value m3 hi)"
      using op d AB(2) unfolding lo_def hi_def
      by (auto simp: arithmetic_operator_def range_ends_def operation_value_def)
    moreover have "integer_valid m3 lo" "integer_valid m3 hi" using d by (auto simp: lo_def hi_def)
    moreover have "integer_extends m m3" using integer_extends_trans [OF v1(2)] d by blast
    ultimately show ?thesis using mf AB(1,2) d by blast
  qed
qed

lemma signed_width_pos:
  assumes inv: "integer_inv m" and i: "integer_valid m i" and mod: "moderate (integer_value m i)"
  shows "1 \<le> pigen_integer_signed_width m i"
proof -
  let ?k = "integers m ! i"
  note k = known_limbs [OF inv i refl]
  have len: "length (limbs_or_empty m ?k) \<le> 2 ^ 53 + 1"
    using moderate_limbs [OF mod] limb_count_value [OF inv i] k(3) by simp
  have w: "magnitude_width (limbs_or_empty m ?k) = bit_length (mag (limbs_or_empty m ?k))"
    by (rule moderate_width [OF k(2) len])
  have "bit_length (mag (limbs_or_empty m ?k)) \<le> 32 * length (limbs_or_empty m ?k)"
    using mag_bound by (simp add: bit_length_le_iff)
  then have "magnitude_width (limbs_or_empty m ?k) \<noteq> SIZE_MAX" using len w by (simp add: SIZE_MAX_def)
  moreover have "1 \<le> magnitude_width (limbs_or_empty m ?k)" if "limb_count ?k \<noteq> 0"
  proof -
    have "0 < mag (limbs_or_empty m ?k)" using k(7) that by simp
    then show ?thesis unfolding w by (simp only: bit_length_pos)
  qed
  ultimately show ?thesis
    using inv i k(4) by (auto simp: pigen_integer_signed_width_def Let_def)
qed

lemma family_width:
  assumes inv: "integer_inv m" and v: "integer_valid m lo" "integer_valid m hi"
    and le: "integer_value m lo \<le> integer_value m hi"
    and mod: "moderate (integer_value m lo)" "moderate (integer_value m hi)"
    and family: "\<not> s \<Longrightarrow> 0 \<le> integer_value m lo"
  shows "\<exists>W. range_width_for_family m lo hi s = Some W \<and> 1 \<le> W \<and>
    (\<forall>k \<ge> 1. W \<le> k \<longleftrightarrow> fits s k (integer_value m lo) \<and> fits s k (integer_value m hi))"
proof -
  have ids: "lo \<noteq> PIGEN_INVALID_ID" "hi \<noteq> PIGEN_INVALID_ID"
    using integer_valid_not_invalid [OF inv] v by fastforce+
  have cmp: "\<not> pigen_integer_compare m lo hi > 0"
    using integer_compare [OF inv v] le by (simp add: sgn_if)
  have neg: "pigen_integer_is_negative m lo \<longleftrightarrow> integer_value m lo < 0" by (rule integer_is_negative [OF inv v(1)])
  show ?thesis
  proof (cases s)
    case True
    let ?a = "pigen_integer_signed_width m lo" and ?b = "pigen_integer_signed_width m hi"
    have pos: "1 \<le> ?a" "1 \<le> ?b" using signed_width_pos [OF inv] v mod by auto
    then have "range_width_for_family m lo hi s = Some (max ?a ?b)"
      using True ids cmp by (simp add: range_width_for_family_def)
    then show ?thesis
      using pos True integer_signed_width [OF inv v(1) mod(1)] integer_signed_width [OF inv v(2) mod(2)]
      by (auto simp: fits_def Suc_le_eq)
  next
    case False
    let ?b = "pigen_integer_unsigned_width m hi"
    have nn: "0 \<le> integer_value m lo" "0 \<le> integer_value m hi" using family False le by auto
    have b: "1 \<le> ?b" using unsigned_width_value [OF inv v(2) mod(2) nn(2)] value_width_pos by simp
    have "range_width_for_family m lo hi s = Some (max 1 ?b)"
      using False ids cmp neg nn b by (simp add: range_width_for_family_def)
    moreover have "fits s k (integer_value m hi) \<Longrightarrow> fits s k (integer_value m lo)" for k
      using False nn le by (auto simp: fits_def fits_unsigned_def)
    ultimately show ?thesis
      using False b integer_unsigned_width [OF inv v(2) mod(2) nn(2)]
      by (auto simp: fits_def Suc_le_eq max_def)
  qed
qed

text \<open>The family of the result, chosen by the caller before the width is known.\<close>

definition symbolic_arithmetic_result_is_signed ::
    "'a integer_arena_scheme \<Rightarrow> pigen_binary_operator \<Rightarrow> pigen_numerical_interpretation \<Rightarrow> id \<Rightarrow>
     bool \<Rightarrow> bool" where
  "symbolic_arithmetic_result_is_signed model operator interpretation1 exact left \<longleftrightarrow>
     (let exact_negative = pigen_integer_is_negative model exact
      in if interpretation1 = PIGEN_NUMERICAL_SIGNED_INTEGER then True
         else if operator = PIGEN_BINARY_ADD \<or> operator = PIGEN_BINARY_MULTIPLY then exact_negative
         else if operator = PIGEN_BINARY_SUBTRACT then left \<or> \<not> exact_negative
         else False)"

lemma dominant_family:
  assumes "dominant_answer op interp w e left = Decided (s, W)" and "numerical_is_concrete interp"
    and "arithmetic_operator op" and "e = 0 \<longrightarrow> op = PIGEN_BINARY_SUBTRACT \<and> left"
    and "neg \<longleftrightarrow> e < 0"
  shows "s \<longleftrightarrow> (if interp = PIGEN_NUMERICAL_SIGNED_INTEGER then True
    else if op = PIGEN_BINARY_ADD \<or> op = PIGEN_BINARY_MULTIPLY then neg else left \<or> \<not> neg)"
  using assms
  by (auto simp: dominant_answer_def Let_def arithmetic_operator_def numerical_is_concrete_def split: if_splits)

lemma unsigned_family_nonneg:
  assumes "numerical_is_concrete interp" and "arithmetic_operator op" and "e = 0 \<longrightarrow> op = PIGEN_BINARY_SUBTRACT \<and> left"
    and "concrete_values interp w = {a..b}" and "a \<le> b" and "range_ends op left e a b = (lo, hi)"
    and "\<not> (if interp = PIGEN_NUMERICAL_SIGNED_INTEGER then True
      else if op = PIGEN_BINARY_ADD \<or> op = PIGEN_BINARY_MULTIPLY then e < 0 else left \<or> \<not> e < 0)"
  shows "0 \<le> lo"
proof -
  have us: "interp = PIGEN_NUMERICAL_UNSIGNED_INTEGER" using assms(1,7) by (auto simp: numerical_is_concrete_def)
  then have "{a..b} = {0 .. 2 ^ w - 1}" using assms(4) by (simp add: concrete_values_def)
  then have "0 \<le> a" "0 \<le> b" using assms(5) by (auto simp: Icc_eq_Icc)
  then show ?thesis
    using assms(2,6,7) us by (auto simp: arithmetic_operator_def range_ends_def split: if_splits)
qed

text \<open>Both routines only grow the arena, whatever their operands.\<close>

definition arena_grows :: "'a integer_arena_scheme \<Rightarrow> 'a integer_arena_scheme \<Rightarrow> bool" where
  "arena_grows m m' \<longleftrightarrow> integer_inv m' \<and> integer_extends m m'"

lemma arena_grows_refl: "integer_inv m \<Longrightarrow> arena_grows m m"
  by (simp add: arena_grows_def)

lemma arena_grows_trans: "arena_grows a b \<Longrightarrow> arena_grows b c \<Longrightarrow> arena_grows a c"
  by (auto simp: arena_grows_def intro: integer_extends_trans)

lemma grows_arena: "grows m r \<Longrightarrow> r = (i, m') \<Longrightarrow> arena_grows m m'"
  by (auto simp: arena_grows_def grows_def)

lemma dominant_grows:
  assumes inv: "integer_inv m" and run: "dominant_arithmetic_range_width m op interp w i left = (r, mf)"
  shows "arena_grows m mf"
proof -
  obtain x m1 where m1: "(if pigen_integer_is_negative m i then pigen_integer_negate m i else (i, m)) = (x, m1)"
    by fastforce
  have g1: "arena_grows m m1"
    using m1 grows_arena [OF grows_negate [OF inv]] arena_grows_refl [OF inv] by (auto split: if_splits)
  then have inv1: "integer_inv m1" by (simp add: arena_grows_def)
  obtain one m2 where m2: "pigen_integer_intern_u64 m1 1 = (one, m2)" by fastforce
  have g2: "arena_grows m1 m2" by (rule grows_arena [OF grows_u64 [OF inv1] m2])
  then have inv2: "integer_inv m2" by (simp add: arena_grows_def)
  obtain y m3 where m3: "(if pigen_integer_compare m2 x one = 0 then (0, m2)
      else case pigen_integer_subtract m2 x one of
        (one_less, m3) \<Rightarrow> (pigen_integer_unsigned_width m3 one_less, m3)) = (y, m3)" by fastforce
  have g3: "arena_grows m2 m3"
    using m3 grows_arena [OF grows_subtract [OF inv2]] arena_grows_refl [OF inv2]
    by (auto split: if_splits prod.splits)
  have "mf = m \<or> mf = m1 \<or> mf = m3"
    using run unfolding dominant_arithmetic_range_width_def Let_def m1 prod.case m2 m3
    by (simp split: if_splits)
  then show ?thesis
    using arena_grows_refl [OF inv] g1 arena_grows_trans [OF g1 arena_grows_trans [OF g2 g3]] by blast
qed

lemma endpoints_grow:
  assumes inv: "integer_inv m" and run: "arithmetic_range_endpoints m op interp w i left = (r, mf)"
  shows "arena_grows m mf"
proof -
  obtain q m1 where q: "concrete_integer_bounds m interp w = (q, m1)" by fastforce
  have g1: "arena_grows m m1" using concrete_bounds_grow [OF inv q] by (simp add: arena_grows_def)
  have add: "integer_inv x \<Longrightarrow> pigen_integer_add x u v = (z, x') \<Longrightarrow> arena_grows x x'"
    and sub: "integer_inv x \<Longrightarrow> pigen_integer_subtract x u v = (z, x') \<Longrightarrow> arena_grows x x'"
    and mult: "integer_inv x \<Longrightarrow> pigen_integer_multiply x u v = (z, x') \<Longrightarrow> arena_grows x x'"
    for x x' :: "'a integer_arena_scheme" and u v z
    using grows_arena [OF grows_add] grows_arena [OF grows_subtract] grows_arena [OF grows_multiply_bounded]
    by (auto simp: pigen_integer_multiply_def)
  have inv1: "integer_inv m1" using g1 by (simp add: arena_grows_def)
  have two: "arena_grows m mf" if "arena_grows m1 x" "integer_inv x \<Longrightarrow> arena_grows x mf" for x
    using g1 that arena_grows_trans unfolding arena_grows_def by blast
  show ?thesis
    using run arena_grows_refl [OF inv] g1 unfolding arithmetic_range_endpoints_def q Let_def
    by (auto split: if_splits prod.splits option.splits
        intro: two [OF add [OF inv1] add] two [OF sub [OF inv1] sub] two [OF mult [OF inv1] mult])
qed

lemma arithmetic_width_least:
  assumes inv: "integer_inv m" and i: "integer_valid m (exact_value rng)"
    and w: "1 \<le> w" "w \<le> 2 ^ 56" and bits: "bit_length (nat \<bar>integer_value m (exact_value rng)\<bar>) \<le> 2 ^ 56"
    and concrete: "numerical_is_concrete (concrete_interpretation rng)"
    and op: "arithmetic_operator (range_operator rng)"
    and kept: "integer_value m (exact_value rng) = 0 \<longrightarrow>
      range_operator rng = PIGEN_BINARY_SUBTRACT \<and> exact_is_left rng"
    and family: "result_is_signed rng = symbolic_arithmetic_result_is_signed m (range_operator rng)
      (concrete_interpretation rng) (exact_value rng) (exact_is_left rng)"
    and run: "pigen_data_type_evaluate_numerical_range_width m rng (Some w) = (r, mf)"
    and room: "\<not> integers_exhausted mf
      ((w + bit_length (nat \<bar>integer_value m (exact_value rng)\<bar>) + 33) div 32)"
  shows "\<exists>W. r = Some W \<and> least_width (result_is_signed rng) W
    (result_values (range_operator rng) (concrete_interpretation rng) w
      (integer_value m (exact_value rng)) (exact_is_left rng))"
proof -
  let ?op = "range_operator rng" and ?interp = "concrete_interpretation rng" and ?left = "exact_is_left rng"
  let ?e = "integer_value m (exact_value rng)" and ?s = "result_is_signed rng"
  define be where "be = bit_length (nat \<bar>?e\<bar>)"
  have mod: "moderate ?e" using bits by (simp add: moderate_def)
  have neg: "pigen_integer_is_negative m (exact_value rng) \<longleftrightarrow> ?e < 0" by (rule integer_is_negative [OF inv i])
  have sfam: "?s \<longleftrightarrow> (if ?interp = PIGEN_NUMERICAL_SIGNED_INTEGER then True
      else if ?op = PIGEN_BINARY_ADD \<or> ?op = PIGEN_BINARY_MULTIPLY then ?e < 0 else ?left \<or> \<not> ?e < 0)"
    using family op neg by (auto simp: symbolic_arithmetic_result_is_signed_def arithmetic_operator_def)
  have np: "?op \<noteq> PIGEN_BINARY_POWER" using op by (auto simp: arithmetic_operator_def)
  obtain ans m1 where ans: "dominant_arithmetic_range_width m ?op ?interp w (exact_value rng) ?left = (ans, m1)"
    by fastforce
  note body = run [unfolded pigen_data_type_evaluate_numerical_range_width_def option.case if_not_P [OF np] ans prod.case]
  have wmax: "\<not> w > SIZE_MAX" using w by (simp add: SIZE_MAX_def)
  have dom: "ans = dominant_answer ?op ?interp w ?e ?left \<and> integer_inv m1 \<and> integer_extends m m1"
    if "\<not> integers_exhausted m1 (max 1 (limbs_of_value ?e))"
    by (rule dominant_computes [OF inv i mod concrete op _ ans that]) (use w in simp)
  have K: "max 1 (limbs_of_value ?e) \<le> (w + be + 33) div 32"
    unfolding limbs_of_value_def be_def by (auto intro: div_le_mono)
  have g1: "arena_grows m m1" by (rule dominant_grows [OF inv ans])
  have "arena_grows m1 mf"
    using body endpoints_grow [of m1] g1 arena_grows_refl [of m1]
    by (auto simp: arena_grows_def wmax split: width_answer.splits prod.splits option.splits)
  then have "\<not> integers_exhausted m1 (max 1 (limbs_of_value ?e))"
    using room exhausted_mono [OF _ K] exhausted_extends unfolding be_def arena_grows_def by blast
  from dom [OF this] have ans_eq: "ans = dominant_answer ?op ?interp w ?e ?left"
    and inv1: "integer_inv m1" and ext1: "integer_extends m m1" by auto
  show ?thesis
  proof (cases ans)
    case (Decided sw)
    obtain s W where sw: "sw = (s, W)" by fastforce
    have d: "dominant_answer ?op ?interp w ?e ?left = Decided (s, W)" using ans_eq Decided sw by simp
    have "s = ?s" using dominant_family [OF d concrete op kept refl] sfam by simp
    then have "r = Some W" using body Decided sw by simp
    moreover have "least_width s W (result_values ?op ?interp w ?e ?left)"
      using d dominant_add_subtract [OF concrete _ kept] dominant_multiply [OF concrete] kept op
      by (cases "?op = PIGEN_BINARY_MULTIPLY") (auto simp: arithmetic_operator_def)
    ultimately show ?thesis using \<open>s = ?s\<close> by simp
  next
    case Undecided
    obtain p m2 where p: "arithmetic_range_endpoints m1 ?op ?interp w (exact_value rng) ?left = (p, m2)" by fastforce
    have v: "integer_valid m1 (exact_value rng)" "integer_value m1 (exact_value rng) = ?e"
      using extends_valid [OF ext1 i] extends_value [OF inv ext1 i] by auto
    have mf: "mf = m2" using body Undecided p wmax by (simp split: option.splits prod.splits)
    obtain lo hi a b where e: "p = Some (lo, hi)" "integer_inv m2" "integer_valid m2 lo" "integer_valid m2 hi"
      "concrete_values ?interp w = {a..b}" "a \<le> b"
      "range_ends ?op ?left ?e a b = (integer_value m2 lo, integer_value m2 hi)"
      using arithmetic_endpoints_compute [OF inv1 v(1), of w be ?interp ?op ?left p m2] v(2) w bits concrete op p room mf
      unfolding be_def by auto
    have r: "r = range_width_for_family m2 lo hi ?s" using body Undecided p e(1) wmax by auto
    note ends = range_ends [OF e(6) op e(7)]
    have le: "integer_value m2 lo \<le> integer_value m2 hi" using ends by blast
    have nn: "\<not> ?s \<Longrightarrow> 0 \<le> integer_value m2 lo"
      using unsigned_family_nonneg [OF concrete op kept e(5-7)] sfam by simp
    have mods: "moderate x" if "x \<in> operation_value ?op ?left ?e ` {a..b}" for x
    proof -
      from that obtain c where c: "c \<in> concrete_values ?interp w" "x = operation_value ?op ?left ?e c"
        using e(5) by auto
      have "\<bar>x\<bar> \<le> \<bar>c\<bar> + \<bar>?e\<bar> \<or> x = c * ?e"
        using op c(2) by (auto simp: arithmetic_operator_def operation_value_def)
      then have "\<bar>x\<bar> < 2 ^ (w + be + 2)"
        using result_magnitude [OF c(1) be_def [symmetric]] by auto
      then have "bit_length (nat \<bar>x\<bar>) \<le> w + be + 2" by (rule bits_below)
      then show ?thesis using w bits by (simp add: moderate_def be_def)
    qed
    obtain W where W: "range_width_for_family m2 lo hi ?s = Some W" "1 \<le> W"
      "\<forall>k \<ge> 1. W \<le> k \<longleftrightarrow> fits ?s k (integer_value m2 lo) \<and> fits ?s k (integer_value m2 hi)"
      using family_width [OF e(2-4) le mods [OF ends(1)] mods [OF ends(2)] nn] by blast
    have "least_width ?s W (result_values ?op ?interp w ?e ?left)"
      unfolding least_width_def result_values_def e(5)
      using W(2,3) ends fits_between by metis
    with W r show ?thesis by simp
  next
    case Impossible
    then show ?thesis
      using ans_eq op concrete
      by (auto simp: dominant_answer_def Let_def arithmetic_operator_def numerical_is_concrete_def split: if_splits)
  qed
qed

lemma power_width_least:
  assumes inv: "integer_inv m" and i: "integer_valid m (exact_value rng)"
    and mod: "moderate (integer_value m (exact_value rng))" and nonneg: "0 \<le> integer_value m (exact_value rng)"
    and w: "1 \<le> w" and concrete: "numerical_is_concrete (concrete_interpretation rng)"
    and op: "range_operator rng = PIGEN_BINARY_POWER"
    and family: "result_is_signed rng \<longleftrightarrow> concrete_interpretation rng = PIGEN_NUMERICAL_SIGNED_INTEGER \<and>
      odd (integer_value m (exact_value rng))"
  shows "pigen_data_type_evaluate_numerical_range_width m rng (Some w) = (Some W, mf) \<Longrightarrow> W < UINT64_MAX \<Longrightarrow>
      least_width (result_is_signed rng) W (result_values PIGEN_BINARY_POWER (concrete_interpretation rng) w
        (integer_value m (exact_value rng)) left)"
    and "power_answer (concrete_interpretation rng) w (nat (integer_value m (exact_value rng))) \<le> 2 ^ 63 \<Longrightarrow>
      pigen_data_type_evaluate_numerical_range_width m rng (Some w) =
        (Some (power_answer (concrete_interpretation rng) w (nat (integer_value m (exact_value rng)))), m)"
proof -
  let ?e = "integer_value m (exact_value rng)" and ?interp = "concrete_interpretation rng"
  note closed = closed_power_range_width [OF inv i mod nonneg w concrete]
  have odd: "pigen_integer_is_odd m (exact_value rng) \<longleftrightarrow> odd ?e" by (rule integer_is_odd [OF inv i])
  have e: "int (nat ?e) = ?e" using nonneg by simp
  have odd': "odd (nat ?e) \<longleftrightarrow> odd ?e" using nonneg by (simp add: even_nat_iff)
  have body: "pigen_data_type_evaluate_numerical_range_width m rng (Some w) =
    (case closed_power_range_width m ?interp w (exact_value rng) of
       Decided v \<Rightarrow> (Some v, m) | _ \<Rightarrow> (None, m))"
    using op family odd closed(1)
    by (simp add: pigen_data_type_evaluate_numerical_range_width_def split: width_answer.split)
  show "least_width (result_is_signed rng) W (result_values PIGEN_BINARY_POWER ?interp w ?e left)"
    if "pigen_data_type_evaluate_numerical_range_width m rng (Some w) = (Some W, mf)" "W < UINT64_MAX"
  proof -
    have "closed_power_range_width m ?interp w (exact_value rng) = Decided W"
      using that(1) body by (simp split: width_answer.splits)
    from closed(2) [OF this that(2)] have "W = power_answer ?interp w (nat ?e)" .
    then show ?thesis
      using power_answer_least [OF concrete w, of "nat ?e" left] e odd' family by simp
  qed
  show "pigen_data_type_evaluate_numerical_range_width m rng (Some w) = (Some (power_answer ?interp w (nat ?e)), m)"
    if "power_answer ?interp w (nat ?e) \<le> 2 ^ 63"
    using closed(3) [OF that] body by simp
qed

end
