(* ===== verification/RangeWidthProperties.thy ===== *)
theory RangeWidthProperties
  imports RangeWidths IntegerProperties
begin

text \<open>
  The properties of the inferred numerical widths of src/src/data_type.c, applied to an 8-bit
  unsigned field and exact operands of the sample arena.
\<close>

definition sample_sum :: pigen_numerical_range_width where
  "sample_sum =
     \<lparr>range_operator = PIGEN_BINARY_ADD, concrete_interpretation = PIGEN_NUMERICAL_UNSIGNED_INTEGER,
      concrete_width = 0, exact_value = 1, exact_is_left = False, result_is_signed = False\<rparr>"

definition sample_power :: pigen_numerical_range_width where
  "sample_power =
     \<lparr>range_operator = PIGEN_BINARY_POWER, concrete_interpretation = PIGEN_NUMERICAL_UNSIGNED_INTEGER,
      concrete_width = 0, exact_value = 2, exact_is_left = False, result_is_signed = False\<rparr>"

text \<open>
  C2: For a sum, difference or product of a field of \<open>w\<close> bits and an exact integer, the
  evaluated result width exists and is the least width of a field of the result's family that
  holds the result for every value of the operand; this covers the dominant closed forms as well
  as the computation on exact endpoints. The result family must be the one the symbolic resolution
  computes, an exact zero is resolved away before (except as the left side of a difference), and
  the arena must have room for the endpoint values.
\<close>

theorem arithmetic_result_width:
  assumes "integer_inv m" and "integer_valid m (exact_value rng)"
    and "1 \<le> w" and "w \<le> 2 ^ 56" and "bit_length (nat \<bar>integer_value m (exact_value rng)\<bar>) \<le> 2 ^ 56"
    and "numerical_is_concrete (concrete_interpretation rng)"
    and "arithmetic_operator (range_operator rng)"
    and "integer_value m (exact_value rng) = 0 \<longrightarrow>
      range_operator rng = PIGEN_BINARY_SUBTRACT \<and> exact_is_left rng"
    and "result_is_signed rng = symbolic_arithmetic_result_is_signed m (range_operator rng)
      (concrete_interpretation rng) (exact_value rng) (exact_is_left rng)"
    and "pigen_data_type_evaluate_numerical_range_width m rng (Some w) = (r, mf)"
    and "\<not> integers_exhausted mf ((w + bit_length (nat \<bar>integer_value m (exact_value rng)\<bar>) + 33) div 32)"
  shows "\<exists>W. r = Some W \<and> least_width (result_is_signed rng) W
    (result_values (range_operator rng) (concrete_interpretation rng) w
      (integer_value m (exact_value rng)) (exact_is_left rng))"
  by (rule arithmetic_width_least [OF assms])

theorem arithmetic_result_width_witness:
  "\<exists>W. fst (pigen_data_type_evaluate_numerical_range_width sample_arena sample_sum (Some 8)) = Some W \<and>
     least_width False W (result_values PIGEN_BINARY_ADD PIGEN_NUMERICAL_UNSIGNED_INTEGER 8 1 False)"
proof -
  let ?r = "pigen_data_type_evaluate_numerical_range_width sample_arena sample_sum (Some 8)"
  have sum: "range_operator sample_sum = PIGEN_BINARY_ADD" "exact_value sample_sum = 1"
    "concrete_interpretation sample_sum = PIGEN_NUMERICAL_UNSIGNED_INTEGER"
    "exact_is_left sample_sum = False" "result_is_signed sample_sum = False"
    by (simp_all add: sample_sum_def)
  have neg: "\<not> pigen_integer_is_negative sample_arena 1" "\<not> pigen_integer_is_zero sample_arena 1"
    using integer_is_negative [OF sample_inv, of 1] integer_is_zero [OF sample_inv, of 1] by simp_all
  have one: "pigen_integer_intern_u64 sample_arena 1 = (1, sample_arena)"
    by (simp add: pigen_integer_intern_u64_def integer_intern_def sample_arena_def normalize_def
        limbs_equal_def limbs_of_def slice_def PIGEN_INVALID_ID_def SIZE_MAX_def u32_def)
  have width: "pigen_integer_unsigned_width sample_arena 1 = 1"
    by (simp add: pigen_integer_unsigned_width_def integer_get_def sample_arena_def limbs_or_empty_def
        limbs_missing_def limbs_of_def slice_def magnitude_width_def PIGEN_INVALID_ID_def clz_width)
  have equal: "pigen_integer_compare sample_arena 1 1 = 0"
    using integer_compare [OF sample_inv, of 1 1] by simp
  have run: "?r = (Some 9, sample_arena)"
    unfolding pigen_data_type_evaluate_numerical_range_width_def dominant_arithmetic_range_width_def sum
    using neg one width equal
    by (simp add: numerical_is_concrete_def grown_def add_width_def UINT64_MAX_def)
  have room: "\<not> integers_exhausted sample_arena 1"
    by (simp add: integers_exhausted_def sample_arena_def PIGEN_INVALID_ID_def SIZE_MAX_def)
  show ?thesis
    using arithmetic_result_width [of sample_arena sample_sum 8 "Some 9" sample_arena] run room neg
    by (simp add: sum numerical_is_concrete_def arithmetic_operator_def symbolic_arithmetic_result_is_signed_def)
qed

text \<open>
  C17: For a power of a field of \<open>w\<close> bits by an exact exponent that is not negative, every width
  the compiler reports below \<open>UINT64_MAX\<close> is the least width of a field of the result's family
  holding all the powers, and a width is reported whenever the least one is at most \<open>2 ^ 63\<close>.
\<close>

theorem power_result_width:
  assumes "integer_inv m" and "integer_valid m (exact_value rng)"
    and "moderate (integer_value m (exact_value rng))" and "0 \<le> integer_value m (exact_value rng)"
    and "1 \<le> w" and "numerical_is_concrete (concrete_interpretation rng)"
    and "range_operator rng = PIGEN_BINARY_POWER"
    and "result_is_signed rng \<longleftrightarrow> concrete_interpretation rng = PIGEN_NUMERICAL_SIGNED_INTEGER \<and>
      odd (integer_value m (exact_value rng))"
  shows "(\<forall>W mf. pigen_data_type_evaluate_numerical_range_width m rng (Some w) = (Some W, mf) \<and>
        W < UINT64_MAX \<longrightarrow>
      least_width (result_is_signed rng) W (result_values PIGEN_BINARY_POWER (concrete_interpretation rng) w
        (integer_value m (exact_value rng)) False)) \<and>
    (power_answer (concrete_interpretation rng) w (nat (integer_value m (exact_value rng))) \<le> 2 ^ 63 \<longrightarrow>
      fst (pigen_data_type_evaluate_numerical_range_width m rng (Some w)) \<noteq> None)"
  using power_width_least [OF assms] by auto

theorem power_result_width_witness:
  "least_width False 40 (result_values PIGEN_BINARY_POWER PIGEN_NUMERICAL_UNSIGNED_INTEGER 8 5 False)"
proof -
  have neg: "\<not> pigen_integer_is_negative sample_arena 2"
    using integer_is_negative [OF sample_inv, of 2] by simp
  have exponent: "pigen_integer_to_u64 sample_arena 2 = Some 5"
    using integer_to_u64(1) [OF sample_inv, of 2]
    by (auto simp: UINT64_MAX_def word_uint_eq_iff split: option.splits)
  have width: "pigen_integer_unsigned_width sample_arena 2 = 3"
    by (simp add: bit_length_eqI [of 2 5] pigen_integer_unsigned_width_def integer_get_def sample_arena_def limbs_or_empty_def
        limbs_missing_def limbs_of_def slice_def magnitude_width_def PIGEN_INVALID_ID_def clz_width)
  have run: "pigen_data_type_evaluate_numerical_range_width sample_arena sample_power (Some 8) =
      (Some 40, sample_arena)"
    using neg exponent width
    by (simp add: pigen_data_type_evaluate_numerical_range_width_def sample_power_def
        closed_power_range_width_def numerical_is_concrete_def multiply_width_def UINT64_MAX_def)
  show ?thesis
    using power_result_width [of sample_arena sample_power 8] run
    by (simp add: sample_power_def numerical_is_concrete_def UINT64_MAX_def)
qed

end
