(* ===== verification/SourceText.thy ===== *)
theory SourceText
  imports Prelude
begin

text \<open>
  The lexical utilities of src/src/util.c. A buffer is a string holding exactly its bytes, a
  pointer into it an index, and a pair of pointers \<open>cursor\<close>, \<open>end\<close> a pair of indices. A call of
  \<open>pigen_fail\<close> prints a diagnostic and exits, which is the outcome \<open>Fail\<close>; reading a byte outside
  the buffer has no defined result, which is the outcome \<open>Undefined\<close>.
\<close>

datatype 'a outcome = Value 'a | Fail string | Undefined

fun and_then :: "'a outcome \<Rightarrow> ('a \<Rightarrow> 'b outcome) \<Rightarrow> 'b outcome" where
  "and_then (Value x) f = f x"
| "and_then (Fail msg) f = Fail msg"
| "and_then Undefined f = Undefined"

lemma and_then_Value [simp]: "and_then r f = Value y \<longleftrightarrow> (\<exists>x. r = Value x \<and> f x = Value y)"
  by (cases r) auto

lemma and_then_Undefined [simp]:
  "and_then r f = Undefined \<longleftrightarrow> r = Undefined \<or> (\<exists>x. r = Value x \<and> f x = Undefined)"
  by (cases r) auto

section \<open>Character classes\<close>

text \<open>\<open>isspace\<close>, \<open>isdigit\<close> and \<open>isalnum\<close> of the C locale.\<close>

abbreviation newline :: char where "newline \<equiv> CHR 0x0A"
abbreviation slash :: char where "slash \<equiv> CHR 0x2F"
abbreviation star :: char where "star \<equiv> CHR 0x2A"
abbreviation quote :: char where "quote \<equiv> CHR 0x22"
abbreviation backslash :: char where "backslash \<equiv> CHR 0x5C"

definition isspace :: "char \<Rightarrow> bool" where
  "isspace c \<longleftrightarrow> c \<in> {CHR 0x20, CHR 0x09, CHR 0x0A, CHR 0x0B, CHR 0x0C, CHR 0x0D}"

definition isdigit :: "char \<Rightarrow> bool" where
  "isdigit c \<longleftrightarrow> (of_char c :: nat) \<in> {48..57}"

definition isalpha :: "char \<Rightarrow> bool" where
  "isalpha c \<longleftrightarrow> (of_char c :: nat) \<in> {65..90} \<or> (of_char c :: nat) \<in> {97..122}"

definition pigen_is_identifier_char :: "char \<Rightarrow> bool" where
  "pigen_is_identifier_char c \<longleftrightarrow> (isalpha c \<or> isdigit c) \<or> c = CHR ''_'' \<or> c = CHR 0x24"

definition pigen_is_word :: "string \<Rightarrow> string \<Rightarrow> bool" where
  "pigen_is_word src word1 \<longleftrightarrow> length src = length word1 \<and> src = word1"

lemma isdigit_identifier: "isdigit c \<Longrightarrow> pigen_is_identifier_char c"
  by (simp add: pigen_is_identifier_char_def)

section \<open>Skipping\<close>

text \<open>The loop \<open>while (cursor < end && P(cursor)) cursor++;\<close>.\<close>

function skip_while :: "(nat \<Rightarrow> bool) \<Rightarrow> nat \<Rightarrow> nat \<Rightarrow> nat" where
  "skip_while P cursor end1 = (if cursor < end1 \<and> P cursor then skip_while P (cursor + 1) end1 else cursor)"
  by auto
termination by (relation "measure (\<lambda>(_, cursor, end1). end1 - cursor)") auto

declare skip_while.simps [simp del]

lemma skip_while_step: "cursor < end1 \<Longrightarrow> P cursor \<Longrightarrow> skip_while P cursor end1 = skip_while P (Suc cursor) end1"
  by (simp add: skip_while.simps [of P cursor])

lemma skip_while_done: "\<not> (cursor < end1 \<and> P cursor) \<Longrightarrow> skip_while P cursor end1 = cursor"
  by (subst skip_while.simps) (simp only: if_False)

lemma skip_while:
  "cursor \<le> skip_while P cursor end1 \<and>
   (cursor \<le> end1 \<longrightarrow> skip_while P cursor end1 \<le> end1) \<and>
   (\<forall>i. cursor \<le> i \<and> i < skip_while P cursor end1 \<longrightarrow> P i) \<and>
   \<not> (skip_while P cursor end1 < end1 \<and> P (skip_while P cursor end1))"
proof (induction P cursor end1 rule: skip_while.induct)
  case (1 P cursor end1)
  show ?case
  proof (cases "cursor < end1 \<and> P cursor")
    case True
    let ?r = "skip_while P (Suc cursor) end1"
    have ih: "Suc cursor \<le> ?r" "Suc cursor \<le> end1 \<longrightarrow> ?r \<le> end1"
      "\<forall>i. Suc cursor \<le> i \<and> i < ?r \<longrightarrow> P i" "\<not> (?r < end1 \<and> P ?r)"
      using "1.IH" [OF True] by simp_all
    have "P i" if "cursor \<le> i" "i < ?r" for i
      using that True ih(3) by (cases "i = cursor") auto
    moreover have "skip_while P cursor end1 = ?r" using True by (simp add: skip_while_step)
    ultimately show ?thesis using ih(1,2,4) True by auto
  next
    case False
    then have "skip_while P cursor end1 = cursor" by (rule skip_while_done)
    with False show ?thesis by auto
  qed
qed

lemmas skip_while_ge = skip_while [THEN conjunct1]
  and skip_while_le = skip_while [THEN conjunct2, THEN conjunct1, rule_format]
  and skip_while_all = skip_while [THEN conjunct2, THEN conjunct2, THEN conjunct1, rule_format]
  and skip_while_stop = skip_while [THEN conjunct2, THEN conjunct2, THEN conjunct2]

lemma skip_while_eqI:
  assumes "cursor \<le> e" and "e \<le> end1" and "\<And>i. cursor \<le> i \<Longrightarrow> i < e \<Longrightarrow> P i" and "e = end1 \<or> \<not> P e"
  shows "skip_while P cursor end1 = e"
proof (rule ccontr)
  let ?r = "skip_while P cursor end1"
  assume "?r \<noteq> e"
  then consider "?r < e" | "e < ?r" by linarith
  then show False
  proof cases
    case 1
    then show ?thesis
      using assms(2) assms(3) [of ?r] skip_while_ge [of cursor P end1] skip_while_stop [of P cursor end1] by auto
  next
    case 2
    then show ?thesis
      using assms(1,2,4) skip_while_all [of cursor e P end1] skip_while_le [of cursor end1 P] by auto
  qed
qed

definition pigen_skip_spaces :: "string \<Rightarrow> nat \<Rightarrow> nat \<Rightarrow> nat" where
  "pigen_skip_spaces src cursor end1 = skip_while (\<lambda>i. isspace (src ! i)) cursor end1"

fun pigen_trim_end :: "string \<Rightarrow> nat \<Rightarrow> nat \<Rightarrow> nat" where
  "pigen_trim_end src start 0 = 0"
| "pigen_trim_end src start (Suc e) =
     (if start < Suc e \<and> isspace (src ! e) then pigen_trim_end src start e else Suc e)"

definition skip_to_newline :: "string \<Rightarrow> nat \<Rightarrow> nat \<Rightarrow> nat" where
  "skip_to_newline src cursor end1 = skip_while (\<lambda>i. src ! i \<noteq> newline) cursor end1"

text \<open>The loop on \<open>cursor + 1 < end\<close>.\<close>

definition skip_to_comment_end :: "string \<Rightarrow> nat \<Rightarrow> nat \<Rightarrow> nat" where
  "skip_to_comment_end src cursor end1 =
     skip_while (\<lambda>i. \<not> (src ! i = star \<and> src ! (i + 1) = slash)) cursor (end1 - 1)"

function skip_string_body :: "string \<Rightarrow> nat \<Rightarrow> nat \<Rightarrow> nat option outcome" where
  "skip_string_body src cursor end1 =
     (if cursor < end1 then
        if src ! cursor = backslash \<and> cursor + 1 < end1 then skip_string_body src (cursor + 2) end1
        else if src ! cursor = quote then Value (Some (cursor + 1))
        else skip_string_body src (cursor + 1) end1
      else Fail ''unterminated string literal'')"
  by auto
termination by (relation "measure (\<lambda>(_, cursor, end1). end1 - cursor)") auto

declare skip_string_body.simps [simp del]

definition pigen_skip_opaque :: "string \<Rightarrow> nat \<Rightarrow> nat \<Rightarrow> nat option outcome" where
  "pigen_skip_opaque src cursor end1 =
     (if cursor + 1 < end1 \<and> src ! cursor = slash \<and> src ! (cursor + 1) = slash
      then Value (Some (skip_to_newline src (cursor + 2) end1))
      else if cursor + 1 < end1 \<and> src ! cursor = slash \<and> src ! (cursor + 1) = star
      then let after = skip_to_comment_end src (cursor + 2) end1
           in if after = end1 \<or> after + 1 = end1 then Fail ''unterminated block comment''
              else Value (Some (after + 2))
      else if cursor < end1 \<and> src ! cursor = quote then skip_string_body src (cursor + 1) end1
      else Value None)"

lemma skip_string_body_step:
  "cursor < end1 \<Longrightarrow> skip_string_body src cursor end1 =
     (if src ! cursor = backslash \<and> cursor + 1 < end1 then skip_string_body src (cursor + 2) end1
      else if src ! cursor = quote then Value (Some (cursor + 1))
      else skip_string_body src (cursor + 1) end1)"
  "\<not> cursor < end1 \<Longrightarrow> skip_string_body src cursor end1 = Fail ''unterminated string literal''"
  by (simp_all add: skip_string_body.simps [of src cursor])

lemma skip_string_body_bounds:
  "skip_string_body src cursor end1 = Value r \<Longrightarrow> \<exists>e. r = Some e \<and> cursor < e \<and> e \<le> end1 \<and> src ! (e - 1) = quote"
proof (induction src cursor end1 rule: skip_string_body.induct)
  case (1 src cursor end1)
  have lt: "cursor < end1" using "1.prems" skip_string_body_step(2) by fastforce
  show ?case
    using "1.prems" "1.IH" lt skip_string_body_step(1) [OF lt, of src]
    by (fastforce split: if_splits)
qed

lemma skip_to_comment_end_le:
  assumes "cursor \<le> end1" and "skip_to_comment_end src cursor end1 \<noteq> end1"
    and "skip_to_comment_end src cursor end1 + 1 \<noteq> end1"
  shows "skip_to_comment_end src cursor end1 + 2 \<le> end1"
proof (cases "cursor \<le> end1 - 1")
  case True
  have "skip_to_comment_end src cursor end1 \<le> end1 - 1"
    unfolding skip_to_comment_end_def by (rule skip_while_le [OF True])
  with assms show ?thesis by linarith
next
  case False
  then have "skip_to_comment_end src cursor end1 = cursor"
    by (simp add: skip_to_comment_end_def skip_while_done)
  with False assms show ?thesis by linarith
qed

lemma skip_opaque_cases:
  assumes "pigen_skip_opaque src cursor end1 = Value (Some e)"
  obtains (line) "cursor + 1 < end1" "src ! cursor = slash" "src ! (cursor + 1) = slash"
      "e = skip_to_newline src (cursor + 2) end1"
    | (block) "cursor + 1 < end1" "src ! cursor = slash" "src ! (cursor + 1) = star"
      "e = skip_to_comment_end src (cursor + 2) end1 + 2" "e \<le> end1"
    | (literal) "cursor < end1" "src ! cursor = quote"
      "skip_string_body src (cursor + 1) end1 = Value (Some e)"
proof -
  have "cursor + 1 < end1 \<Longrightarrow> cursor + 2 \<le> end1" by simp
  then show ?thesis
    using assms that skip_to_comment_end_le [of "cursor + 2" end1 src]
    unfolding pigen_skip_opaque_def Let_def by (auto split: if_splits)
qed

lemma skip_opaque_progress:
  assumes "pigen_skip_opaque src cursor end1 = Value (Some e)"
  shows "cursor < e \<and> e \<le> end1 \<and> cursor < end1"
  using assms
proof (cases rule: skip_opaque_cases)
  case line
  have "cursor + 2 \<le> e" unfolding line(4) skip_to_newline_def by (rule skip_while_ge)
  moreover have "e \<le> end1" unfolding line(4) skip_to_newline_def by (rule skip_while_le) (use line(1) in simp)
  ultimately show ?thesis using line(1) by simp
next
  case block
  have "cursor + 2 \<le> skip_to_comment_end src (cursor + 2) end1"
    unfolding skip_to_comment_end_def by (rule skip_while_ge)
  with block show ?thesis by linarith
next
  case literal
  with skip_string_body_bounds [OF literal(3)] show ?thesis by auto
qed

text \<open>
  Every round of the loop in \<open>pigen_skip_trivia\<close> that continues has moved past a comment or a
  string literal.
\<close>

function pigen_skip_trivia :: "string \<Rightarrow> nat \<Rightarrow> nat \<Rightarrow> nat outcome" where
  "pigen_skip_trivia src cursor end1 =
     (let spaced = pigen_skip_spaces src cursor end1
      in case pigen_skip_opaque src spaced end1 of
           Value (Some opaque) \<Rightarrow> pigen_skip_trivia src opaque end1
         | Value None \<Rightarrow> Value spaced
         | Fail msg \<Rightarrow> Fail msg
         | Undefined \<Rightarrow> Undefined)"
  by auto
termination
proof (relation "measure (\<lambda>(_, cursor, end1). end1 - cursor)", goal_cases)
  case 1
  then show ?case by simp
next
  case (2 src cursor end1 x z y)
  then have "pigen_skip_opaque src (pigen_skip_spaces src cursor end1) end1 = Value (Some y)" by simp
  from skip_opaque_progress [OF this]
  have "cursor < y" "y \<le> end1" by (auto simp: pigen_skip_spaces_def intro: le_less_trans [OF skip_while_ge])
  then show ?case by simp
qed

declare pigen_skip_trivia.simps [simp del]

end
