(* ===== verification/Sources.thy ===== *)
theory Sources
  imports SourceText
begin

text \<open>
  Source ownership of src/src/source.c: the manager keeps a copy of each file's path and bytes and
  the table of its line starts, and locates a span by binary search in that table. The diagnostics
  of src/src/util.c compute the same line and column by walking the text.
\<close>

record pigen_source_span =
  span_source :: id
  span_start :: nat
  span_end :: nat

record pigen_source_location =
  location_line :: nat
  location_column :: nat

record pigen_source_file =
  source_path :: string
  source_text :: string
  line_starts :: "nat list"

type_synonym pigen_source_manager = "pigen_source_file list"

section \<open>Adding a file\<close>

text \<open>The loop that counts lines, and the loop that fills \<open>line_starts\<close>.\<close>

fun count_lines :: "string \<Rightarrow> nat \<Rightarrow> nat" where
  "count_lines [] line = line"
| "count_lines (c # cs) line = count_lines cs (if c = newline then line + 1 else line)"

fun fill_line_starts :: "string \<Rightarrow> nat \<Rightarrow> nat \<Rightarrow> nat list \<Rightarrow> nat list" where
  "fill_line_starts [] cursor line starts = starts"
| "fill_line_starts (c # cs) cursor line starts =
     (if c = newline then fill_line_starts cs (cursor + 1) (line + 1) (starts[line := cursor + 1])
      else fill_line_starts cs (cursor + 1) line starts)"

text \<open>
  The allocated table starts with arbitrary contents \<open>garbage\<close>; every entry is written.
\<close>

definition pigen_source_add ::
    "nat list \<Rightarrow> pigen_source_manager \<Rightarrow> string \<Rightarrow> string \<Rightarrow> (id \<times> pigen_source_manager) outcome" where
  "pigen_source_add garbage manager path bytes =
     (if length manager = PIGEN_INVALID_ID then Fail ''too many source files''
      else
        let lines = count_lines bytes 1;
            starts = (take lines garbage @ replicate (lines - length garbage) 0)[0 := 0];
            file = \<lparr>source_path = path, source_text = bytes,
              line_starts = fill_line_starts bytes 0 1 starts\<rparr>
        in Value (u32 (length manager), manager @ [file]))"

definition pigen_source_get :: "pigen_source_manager \<Rightarrow> id \<Rightarrow> pigen_source_file option" where
  "pigen_source_get manager source =
     (if source = PIGEN_INVALID_ID \<or> source \<ge> length manager then None else Some (manager ! source))"

definition pigen_source_span_valid :: "pigen_source_manager \<Rightarrow> pigen_source_span \<Rightarrow> bool" where
  "pigen_source_span_valid manager sp =
     (case pigen_source_get manager (span_source sp) of
        None \<Rightarrow> False
      | Some file \<Rightarrow> span_start sp \<le> span_end sp \<and> span_end sp \<le> length (source_text file))"

section \<open>Locating a span\<close>

function locate_line :: "nat list \<Rightarrow> nat \<Rightarrow> nat \<Rightarrow> nat \<Rightarrow> nat" where
  "locate_line starts position first after =
     (if first + 1 < after then
        let middle = first + (after - first) div 2
        in if starts ! middle \<le> position then locate_line starts position middle after
           else locate_line starts position first middle
      else first)"
  by auto
termination by (relation "measure (\<lambda>(_, _, first, after). after - first)") auto

declare locate_line.simps [simp del]

definition pigen_source_locate :: "pigen_source_manager \<Rightarrow> pigen_source_span \<Rightarrow> pigen_source_location" where
  "pigen_source_locate manager sp =
     (if \<not> pigen_source_span_valid manager sp then \<lparr>location_line = 0, location_column = 0\<rparr>
      else case pigen_source_get manager (span_source sp) of
        None \<Rightarrow> \<lparr>location_line = 0, location_column = 0\<rparr>
      | Some file \<Rightarrow>
          let first = locate_line (line_starts file) (span_start sp) 0 (length (line_starts file))
          in \<lparr>location_line = first + 1,
               location_column = span_start sp - line_starts file ! first + 1\<rparr>)"

definition pigen_source_span_text :: "pigen_source_manager \<Rightarrow> pigen_source_span \<Rightarrow> string option" where
  "pigen_source_span_text manager sp =
     (if \<not> pigen_source_span_valid manager sp then None
      else map_option (\<lambda>file. slice (span_start sp) (span_end sp - span_start sp) (source_text file))
        (pigen_source_get manager (span_source sp)))"

definition pigen_free_sources :: "pigen_source_manager \<Rightarrow> pigen_source_manager" where
  "pigen_free_sources manager = []"

section \<open>Positions by walking the text\<close>

text \<open>
  The loop of \<open>pigen_fail\<close> and \<open>pigen_warn\<close> over the bytes before the diagnostic position.
\<close>

fun walk_position :: "string \<Rightarrow> nat \<times> nat \<Rightarrow> nat \<times> nat" where
  "walk_position [] (line, column) = (line, column)"
| "walk_position (c # cs) (line, column) =
     walk_position cs (if c = newline then (line + 1, 1) else (line, column + 1))"

definition diagnostic_line_column :: "string \<Rightarrow> nat \<Rightarrow> nat \<times> nat" where
  "diagnostic_line_column source position = walk_position (take position source) (1, 1)"

section \<open>The table of line starts\<close>

text \<open>The specification: position 0 and the position after each newline, in order.\<close>

definition line_start_table :: "string \<Rightarrow> nat list" where
  "line_start_table bytes = 0 # map Suc (filter (\<lambda>i. bytes ! i = newline) [0..<length bytes])"

lemma count_lines: "count_lines cs line = line + length (filter ((=) newline) cs)"
  by (induction cs arbitrary: line) auto

lemma fill_line_starts:
  "line + length (filter ((=) newline) cs) = length starts \<Longrightarrow>
   fill_line_starts cs cursor line starts =
     take line starts @ map (\<lambda>i. cursor + Suc i) (filter (\<lambda>i. cs ! i = newline) [0..<length cs])"
proof (induction cs arbitrary: cursor line starts)
  case Nil
  then show ?case by simp
next
  case (Cons c cs)
  have up: "[0..<length (c # cs)] = 0 # map Suc [0..<length cs]"
    by (simp only: length_Cons upt_conv_Cons zero_less_Suc map_Suc_upt)
  have rest: "map (\<lambda>i. cursor + Suc i) (filter (\<lambda>i. (c # cs) ! i = newline) [0..<length (c # cs)]) =
      (if c = newline then [cursor + 1] else []) @
      map (\<lambda>i. Suc cursor + Suc i) (filter (\<lambda>i. cs ! i = newline) [0..<length cs])"
    by (simp only: up) (simp add: filter_map comp_def del: upt_Suc)
  show ?case
  proof (cases "c = newline")
    case True
    then have lt: "line < length starts" using Cons.prems by simp
    have "fill_line_starts (c # cs) cursor line starts =
        take (Suc line) (starts[line := cursor + 1]) @
        map (\<lambda>i. Suc cursor + Suc i) (filter (\<lambda>i. cs ! i = newline) [0..<length cs])"
      using True Cons.prems Cons.IH [of "Suc line" "starts[line := Suc cursor]" "Suc cursor"] by simp
    with True lt rest show ?thesis by (simp add: take_Suc_conv_app_nth)
  next
    case False
    with Cons.prems Cons.IH [of line starts "Suc cursor"] rest show ?thesis by simp
  qed
qed

lemma source_add_starts:
  assumes "lines = count_lines bytes 1"
  shows "fill_line_starts bytes 0 1 ((take lines garbage @ replicate (lines - length garbage) 0)[0 := 0]) =
    line_start_table bytes"
proof -
  let ?s = "(take lines garbage @ replicate (lines - length garbage) (0 :: nat))[0 := 0]"
  have len: "length ?s = 1 + length (filter ((=) newline) bytes)"
    using assms by (simp add: count_lines)
  then have "?s ! 0 = 0" "?s \<noteq> []" by (simp, fastforce)
  then have "take 1 ?s = [0]" by (cases ?s) auto
  with len fill_line_starts [of 1 bytes ?s 0] show ?thesis by (simp add: line_start_table_def)
qed

lemma sorted_line_starts: "sorted_wrt (<) (line_start_table bytes)"
  by (auto simp: line_start_table_def sorted_wrt_map intro: sorted_wrt_filter)

section \<open>Binary search\<close>

lemma locate_line_range:
  assumes "first < after" and "after \<le> length starts" and "sorted_wrt (<) starts"
    and "starts ! first \<le> position" and "after = length starts \<or> position < starts ! after"
  shows "locate_line starts position first after < length starts \<and>
    starts ! locate_line starts position first after \<le> position \<and>
    (locate_line starts position first after + 1 = length starts \<or>
     position < starts ! (locate_line starts position first after + 1))"
  using assms
proof (induction starts position first after rule: locate_line.induct)
  case (1 starts position first after)
  let ?m = "first + (after - first) div 2"
  show ?case
  proof (cases "first + 1 < after")
    case True
    then have m: "first < ?m" "?m < after" by auto
    show ?thesis
    proof (cases "starts ! ?m \<le> position")
      case le: True
      have "locate_line starts position first after = locate_line starts position ?m after"
        using True le by (subst locate_line.simps) (simp add: Let_def)
      with "1.IH"(1) [OF True refl le m(2)] "1.prems" le show ?thesis by simp
    next
      case False
      have "locate_line starts position first after = locate_line starts position first ?m"
        using True False by (subst locate_line.simps) (simp add: Let_def)
      with "1.IH"(2) [OF True refl False m(1)] "1.prems" False m(2) show ?thesis by simp
    qed
  next
    case False
    then have "locate_line starts position first after = first" by (subst locate_line.simps) simp
    moreover have "after = first + 1" using False "1.prems"(1) by linarith
    ultimately show ?thesis using "1.prems" by auto
  qed
qed

text \<open>The entry of the table that the walk over the text would be on.\<close>

lemma walk_append: "walk_position (xs @ ys) p = walk_position ys (walk_position xs p)"
  by (induction xs p rule: walk_position.induct) auto

lemma walk_position_table:
  "n \<le> length bytes \<Longrightarrow> walk_position (take n bytes) (1, 1) =
    (length (filter (\<lambda>s. s \<le> n) (line_start_table bytes)),
     n - last (filter (\<lambda>s. s \<le> n) (line_start_table bytes)) + 1)"
proof (induction n)
  case 0
  then show ?case by (simp add: line_start_table_def filter_map comp_def)
next
  case (Suc n)
  let ?nl = "\<lambda>i. bytes ! i = newline"
  have split: "filter (\<lambda>s. s \<le> k) (line_start_table bytes) = 0 # map Suc (filter ?nl [0..<k])"
    if "k \<le> length bytes" for k
  proof -
    have up: "[0..<length bytes] = [0..<k] @ [k..<length bytes]"
      using that upt_add_eq_append [of 0 k "length bytes - k"] by simp
    have "filter (\<lambda>i. Suc i \<le> k) (filter ?nl [0..<length bytes]) = filter ?nl [0..<k]"
      by (auto simp: up filter_empty_conv intro!: filter_cong)
    then show ?thesis by (simp add: line_start_table_def filter_map comp_def)
  qed
  have le: "last (0 # map Suc (filter ?nl [0..<n])) \<le> n"
  proof -
    have "last (0 # map Suc (filter ?nl [0..<n])) \<in> set (0 # map Suc (filter ?nl [0..<n]))"
      by (rule last_in_set) simp
    then show ?thesis by auto
  qed
  have "take (Suc n) bytes = take n bytes @ [bytes ! n]"
    using Suc.prems by (simp add: take_Suc_conv_app_nth)
  with Suc le show ?case by (auto simp: walk_append split Suc_diff_le)
qed

lemma filter_le_take:
  assumes "sorted_wrt (<) (xs :: nat list)" and "i < length xs" and "xs ! i \<le> n"
    and "i + 1 = length xs \<or> n < xs ! (i + 1)"
  shows "filter (\<lambda>s. s \<le> n) xs = take (i + 1) xs"
proof -
  have "x \<le> n" if x: "x \<in> set (take (i + 1) xs)" for x
  proof -
    from x obtain j where "j < i + 1" "x = xs ! j" by (auto simp: in_set_conv_nth)
    with assms(1-3) sorted_wrt_nth_less [of "(<)" xs j i] show ?thesis by (cases "j = i") force+
  qed
  moreover have "\<not> x \<le> n" if x: "x \<in> set (drop (i + 1) xs)" for x
  proof -
    from x obtain j where "j < length xs - (i + 1)" "x = xs ! (i + 1 + j)" by (auto simp: in_set_conv_nth)
    then have j: "i + 1 + j < length xs" "x = xs ! (i + 1 + j)" by auto
    then have "n < xs ! (i + 1)" using assms(4) by auto
    with j assms(1) sorted_wrt_nth_less [of "(<)" xs "i + 1" "i + 1 + j"] show ?thesis by (cases j) force+
  qed
  ultimately have "filter (\<lambda>s. s \<le> n) (take (i + 1) xs @ drop (i + 1) xs) = take (i + 1) xs"
    by (simp only: filter_append) (simp add: filter_id_conv filter_empty_conv)
  then show ?thesis by simp
qed

text \<open>A managed file has the line table of its bytes.\<close>

definition managed :: "pigen_source_manager \<Rightarrow> bool" where
  "managed manager \<longleftrightarrow>
     length manager \<le> PIGEN_INVALID_ID \<and> (\<forall>file \<in> set manager. line_starts file = line_start_table (source_text file))"

lemma source_add:
  assumes "managed manager" and "pigen_source_add garbage manager path bytes = Value (i, manager')"
  shows "managed manager' \<and> i = length manager \<and>
    manager' = manager @ [\<lparr>source_path = path, source_text = bytes, line_starts = line_start_table bytes\<rparr>]"
  using assms by (auto simp: pigen_source_add_def managed_def Let_def source_add_starts [OF refl, simplified] split: if_splits)

lemma source_locate:
  assumes "managed manager" and "pigen_source_span_valid manager sp"
    and "pigen_source_get manager (span_source sp) = Some file"
  shows "(location_line (pigen_source_locate manager sp), location_column (pigen_source_locate manager sp)) =
    diagnostic_line_column (source_text file) (span_start sp)"
proof -
  let ?t = "line_start_table (source_text file)" and ?n = "span_start sp"
  have starts: "line_starts file = ?t"
    using assms(1,3) by (auto simp: managed_def pigen_source_get_def split: if_splits)
  define l where "l = locate_line ?t ?n 0 (length ?t)"
  have n: "?n \<le> length (source_text file)"
    using assms(2,3) by (simp add: pigen_source_span_valid_def)
  have "0 < length ?t" "?t ! 0 \<le> ?n" by (simp_all add: line_start_table_def)
  with locate_line_range [OF _ order.refl sorted_line_starts, of 0 "source_text file" ?n]
  have l: "l < length ?t" "?t ! l \<le> ?n" "l + 1 = length ?t \<or> ?n < ?t ! (l + 1)"
    by (auto simp: l_def)
  have f: "filter (\<lambda>s. s \<le> ?n) ?t = take (l + 1) ?t"
    by (rule filter_le_take [OF sorted_line_starts l])
  then have "last (filter (\<lambda>s. s \<le> ?n) ?t) = ?t ! l" "length (filter (\<lambda>s. s \<le> ?n) ?t) = l + 1"
    using l(1) by (simp_all add: take_Suc_conv_app_nth)
  with walk_position_table [OF n] assms(2,3) starts show ?thesis
    by (simp add: pigen_source_locate_def diagnostic_line_column_def l_def Let_def)
qed

end
