(* ===== verification/Lexer.thy ===== *)
theory Lexer
  imports Sources
begin

text \<open>
  The source-spanned lexer of src/src/lexer.c. A scanning position is the triple of the variables
  \<open>cursor\<close>, \<open>line\<close> and \<open>column\<close>; one iteration of the main loop is \<open>lex_step\<close>. Every byte is read through
  \<open>byte_at\<close>, which is \<open>Undefined\<close> past the last one, and the conditions are evaluated from left to right
  as in C; so a read that the code does not guard is an outcome of the model.
\<close>

datatype pigen_token_kind =
    PIGEN_TOKEN_EOF | PIGEN_TOKEN_IDENTIFIER | PIGEN_TOKEN_NUMBER | PIGEN_TOKEN_STRING | PIGEN_TOKEN_SYMBOL

record pigen_token =
  token_kind :: pigen_token_kind
  token_start :: nat
  token_end :: nat
  token_line :: nat
  token_column :: nat

type_synonym scan = "nat \<times> nat \<times> nat"

section \<open>Reading\<close>

definition byte_at :: "string \<Rightarrow> nat \<Rightarrow> char outcome" where
  "byte_at source i = (if i < length source then Value (source ! i) else Undefined)"

text \<open>The tests \<open>P(source[i])\<close>, \<open>memcmp(source + i, s, strlen(s)) == 0\<close> and \<open>p && q\<close>, \<open>p || q\<close>.\<close>

definition byte_is :: "string \<Rightarrow> (char \<Rightarrow> bool) \<Rightarrow> nat \<Rightarrow> bool outcome" where
  "byte_is source P i = and_then (byte_at source i) (\<lambda>c. Value (P c))"

definition bytes_equal :: "string \<Rightarrow> nat \<Rightarrow> string \<Rightarrow> bool outcome" where
  "bytes_equal source i s = (if i + length s \<le> length source then Value (slice i (length s) source = s) else Undefined)"

definition both :: "bool outcome \<Rightarrow> bool outcome \<Rightarrow> bool outcome" where
  "both p q = and_then p (\<lambda>x. if x then q else Value False)"

definition either :: "bool outcome \<Rightarrow> bool outcome \<Rightarrow> bool outcome" where
  "either p q = and_then p (\<lambda>x. if x then Value True else q)"

definition opposite :: "bool outcome \<Rightarrow> bool outcome" where
  "opposite p = and_then p (\<lambda>x. Value (\<not> x))"

text \<open>The statement \<open>if (p) a else b\<close>.\<close>

definition decide :: "bool outcome \<Rightarrow> 'a outcome \<Rightarrow> 'a outcome \<Rightarrow> 'a outcome" where
  "decide p a b = and_then p (\<lambda>x. if x then a else b)"

definition moved :: "string \<Rightarrow> scan \<Rightarrow> scan" where
  "moved source st =
     (case st of (cursor, line, column) \<Rightarrow>
        if source ! cursor = newline then (cursor + 1, line + 1, 1) else (cursor + 1, line, column + 1))"

definition advance :: "string \<Rightarrow> scan \<Rightarrow> scan outcome" where
  "advance source st =
     (case st of (cursor, line, column) \<Rightarrow>
        and_then (byte_at source cursor) (\<lambda>c.
          Value (if c = newline then (cursor + 1, line + 1, 1) else (cursor + 1, line, column + 1))))"

lemma advance_moved: "advance source st = (if fst st < length source then Value (moved source st) else Undefined)"
  by (simp add: advance_def moved_def byte_at_def split: prod.split)

lemma moved_fst [simp]: "fst (moved source st) = Suc (fst st)"
  by (simp add: moved_def split: prod.split)

lemma advance_progress: "advance source st = Value st1 \<Longrightarrow> fst st1 = Suc (fst st) \<and> fst st < length source"
  by (auto simp: advance_moved split: if_splits)

lemma decide_Value: "decide p a b = Value x \<Longrightarrow> a = Value x \<or> b = Value x"
  by (auto simp: decide_def split: if_splits)

text \<open>A loop \<open>while (P(cursor)) advance(...)\<close>.\<close>

function advance_while :: "(nat \<Rightarrow> bool outcome) \<Rightarrow> string \<Rightarrow> scan \<Rightarrow> scan outcome" where
  "advance_while P source st =
     (case P (fst st) of
        Value True \<Rightarrow>
          (case advance source st of
             Value st1 \<Rightarrow> advance_while P source st1
           | Fail msg \<Rightarrow> Fail msg
           | Undefined \<Rightarrow> Undefined)
      | Value False \<Rightarrow> Value st
      | Fail msg \<Rightarrow> Fail msg
      | Undefined \<Rightarrow> Undefined)"
  by pat_completeness auto
termination
  by (relation "measure (\<lambda>(_, source, st). length source - fst st)") (auto dest!: advance_progress)

declare advance_while.simps [simp del]

section \<open>Symbols\<close>

definition symbols :: "string list" where
  "symbols = [
     ''<<<='', ''>>>='', ''<<='', ''>>='', ''==='', ''!=='', ''==?'', ''!=?'',
     ''<<<'', ''>>>'', ''**'', ''<='', ''>='', ''=='', ''!='', ''&&'', ''||'',
     ''<<'', ''>>'', ''~&'', ''~|'', ''~^'', ''^~'', ''+:'', ''-:'', ''++'', ''--'',
     ''+='', ''-='', ''*='', ''/='', ''%='', ''&='', ''|='', ''^='', ''->'', ''::'']"

fun match_symbol :: "string list \<Rightarrow> string \<Rightarrow> nat \<Rightarrow> nat \<Rightarrow> nat outcome" where
  "match_symbol [] source cursor remaining = Value 1"
| "match_symbol (s # ss) source cursor remaining =
     decide (both (Value (length s \<le> remaining)) (bytes_equal source cursor s))
       (Value (length s)) (match_symbol ss source cursor remaining)"

definition symbol_length :: "string \<Rightarrow> nat \<Rightarrow> nat \<Rightarrow> nat outcome" where
  "symbol_length source cursor remaining = match_symbol symbols source cursor remaining"

section \<open>One iteration\<close>

text \<open>The loop over the bytes of a string literal.\<close>

function advance_string :: "string \<Rightarrow> scan \<Rightarrow> scan outcome" where
  "advance_string source st =
     (case both (Value (fst st < length source)) (byte_is source (\<lambda>c. c \<noteq> quote) (fst st)) of
        Value True \<Rightarrow>
          (case decide (both (byte_is source (\<lambda>c. c = backslash) (fst st)) (Value (fst st + 1 < length source)))
                (advance source st) (Value st) of
             Value st1 \<Rightarrow>
               (case advance source st1 of
                  Value st2 \<Rightarrow> advance_string source st2
                | Fail msg \<Rightarrow> Fail msg
                | Undefined \<Rightarrow> Undefined)
           | Fail msg \<Rightarrow> Fail msg
           | Undefined \<Rightarrow> Undefined)
      | Value False \<Rightarrow> Value st
      | Fail msg \<Rightarrow> Fail msg
      | Undefined \<Rightarrow> Undefined)"
  by pat_completeness auto
termination
  by (relation "measure (\<lambda>(source, st). length source - fst st)")
    (auto dest!: advance_progress decide_Value)

declare advance_string.simps [simp del]

definition lexed :: "pigen_token_kind \<Rightarrow> scan \<Rightarrow> scan \<Rightarrow> (pigen_token option \<times> scan) outcome" where
  "lexed kind st st' =
     (case st of (start, line, column) \<Rightarrow>
        Value (Some \<lparr>token_kind = kind, token_start = start, token_end = fst st',
          token_line = line, token_column = column\<rparr>, st'))"

definition lex_step :: "string \<Rightarrow> scan \<Rightarrow> (pigen_token option \<times> scan) outcome" where
  "lex_step source st =
     (let cursor = fst st;
          len = length source;
          is_byte = (\<lambda>c i. byte_is source (\<lambda>d. d = c) i);
          next_is = (\<lambda>c. both (both (Value (cursor + 1 < len)) (is_byte slash cursor)) (is_byte c (cursor + 1)))
      in decide (byte_is source isspace cursor)
           (and_then (advance source st) (\<lambda>st1. Value (None, st1)))
         (decide (next_is slash)
           (and_then (advance_while (\<lambda>i. both (Value (i < len)) (byte_is source (\<lambda>c. c \<noteq> newline) i)) source st)
             (\<lambda>st1. Value (None, st1)))
         (decide (next_is star)
           (and_then (advance source st) (\<lambda>st1. and_then (advance source st1) (\<lambda>st2.
             and_then (advance_while (\<lambda>i. both (Value (i + 1 < len))
                 (opposite (both (is_byte star i) (is_byte slash (i + 1))))) source st2) (\<lambda>st3.
               if fst st3 + 1 = len then Fail ''unterminated block comment''
               else and_then (advance source st3) (\<lambda>st4. and_then (advance source st4) (\<lambda>st5.
                 Value (None, st5)))))))
         (decide (byte_is source isdigit cursor)
           (and_then (advance_while (\<lambda>i. both (Value (i < len))
               (either (byte_is source pigen_is_identifier_char i) (is_byte (CHR 0x27) i))) source st)
             (lexed PIGEN_TOKEN_NUMBER st))
         (decide (byte_is source pigen_is_identifier_char cursor)
           (and_then (advance_while (\<lambda>i. both (Value (i < len)) (byte_is source pigen_is_identifier_char i)) source st)
             (lexed PIGEN_TOKEN_IDENTIFIER st))
         (decide (is_byte quote cursor)
           (and_then (advance source st) (\<lambda>st1. and_then (advance_string source st1) (\<lambda>st2.
             if fst st2 = len then Fail ''unterminated string literal''
             else and_then (advance source st2) (lexed PIGEN_TOKEN_STRING st))))
         (and_then (symbol_length source cursor (len - cursor)) (\<lambda>n.
           and_then (advance_while (\<lambda>i. Value (i < cursor + n)) source st) (lexed PIGEN_TOKEN_SYMBOL st)))))))))"

section \<open>The iteration without reads that leave the text\<close>

text \<open>
  On a position inside the text the guards of the code make every read but one defined. The same
  iteration with these reads performed is \<open>scan_step\<close>; it is easier to reason about.
\<close>

function scan_while :: "(nat \<Rightarrow> bool) \<Rightarrow> string \<Rightarrow> scan \<Rightarrow> scan" where
  "scan_while P source st =
     (if fst st < length source \<and> P (fst st) then scan_while P source (moved source st) else st)"
  by auto
termination
  by (relation "measure (\<lambda>(_, source, st). length source - fst st)") (auto simp: moved_def split: prod.splits)

declare scan_while.simps [simp del]

function scan_string :: "string \<Rightarrow> scan \<Rightarrow> scan" where
  "scan_string source st =
     (if fst st < length source \<and> source ! fst st \<noteq> quote then
        scan_string source
          (moved source
            (if source ! fst st = backslash \<and> fst st + 1 < length source then moved source st else st))
      else st)"
  by auto
termination
  by (relation "measure (\<lambda>(source, st). length source - fst st)") (auto simp: moved_def split: prod.splits)

declare scan_string.simps [simp del]

fun first_symbol :: "string list \<Rightarrow> string \<Rightarrow> nat" where
  "first_symbol [] rest = 1"
| "first_symbol (s # ss) rest = (if take (length s) rest = s then length s else first_symbol ss rest)"

definition scan_step :: "string \<Rightarrow> scan \<Rightarrow> (pigen_token option \<times> scan) outcome" where
  "scan_step source st =
     (let cursor = fst st; len = length source
      in if isspace (source ! cursor) then and_then (advance source st) (\<lambda>st1. Value (None, st1))
         else if cursor + 1 < len \<and> source ! cursor = slash \<and> source ! (cursor + 1) = slash
         then Value (None, scan_while (\<lambda>i. source ! i \<noteq> newline) source st)
         else if cursor + 1 < len \<and> source ! cursor = slash \<and> source ! (cursor + 1) = star
         then and_then (advance source st) (\<lambda>st1. and_then (advance source st1) (\<lambda>st2.
           let st3 = scan_while (\<lambda>i. i + 1 < len \<and> \<not> (source ! i = star \<and> source ! (i + 1) = slash))
                 source st2
           in if fst st3 + 1 = len then Fail ''unterminated block comment''
              else and_then (advance source st3) (\<lambda>st4. and_then (advance source st4) (\<lambda>st5.
                Value (None, st5)))))
         else if isdigit (source ! cursor)
         then lexed PIGEN_TOKEN_NUMBER st
           (scan_while (\<lambda>i. pigen_is_identifier_char (source ! i) \<or> source ! i = CHR 0x27) source st)
         else if pigen_is_identifier_char (source ! cursor)
         then lexed PIGEN_TOKEN_IDENTIFIER st
           (scan_while (\<lambda>i. pigen_is_identifier_char (source ! i)) source st)
         else if source ! cursor = quote
         then and_then (advance source st) (\<lambda>st1.
           let st2 = scan_string source st1
           in if fst st2 = len then Fail ''unterminated string literal''
              else and_then (advance source st2) (\<lambda>st3. lexed PIGEN_TOKEN_STRING st st3))
         else lexed PIGEN_TOKEN_SYMBOL st
           (scan_while (\<lambda>i. i < cursor + first_symbol symbols (drop cursor source)) source st))"

lemma byte_is_inside [simp]: "i < length source \<Longrightarrow> byte_is source P i = Value (P (source ! i))"
  by (simp add: byte_is_def byte_at_def)

lemma tests_on_values [simp]:
  "both (Value a) (Value b) = Value (a \<and> b)" "either (Value a) (Value b) = Value (a \<or> b)"
  "opposite (Value a) = Value (\<not> a)" "decide (Value a) x y = (if a then x else y)"
  by (simp_all add: both_def either_def opposite_def decide_def)

lemma both_False [simp]: "both (Value False) q = Value False"
  by (simp add: both_def)

lemma scan_while_step:
  "fst st < length source \<Longrightarrow> P (fst st) \<Longrightarrow> scan_while P source st = scan_while P source (moved source st)"
  by (subst scan_while.simps) simp

lemma scan_while_done: "\<not> (fst st < length source \<and> P (fst st)) \<Longrightarrow> scan_while P source st = st"
  by (subst scan_while.simps) (simp only: if_False)

lemma advance_while_inside:
  assumes "\<And>i. i < length source \<Longrightarrow> P i = Value (Q i)" and "P (length source) = Value False"
  shows "fst st \<le> length source \<Longrightarrow> advance_while P source st = Value (scan_while Q source st)"
proof (induction "length source - fst st" arbitrary: st rule: less_induct)
  case less
  show ?case
  proof (cases "fst st < length source \<and> Q (fst st)")
    case True
    then have "advance_while P source (moved source st) = Value (scan_while Q source (moved source st))"
      by (intro less.hyps) auto
    then show ?thesis
      using True assms(1) by (subst advance_while.simps) (simp add: advance_moved scan_while_step)
  next
    case False
    then have "P (fst st) = Value False"
      using less.prems assms by (cases "fst st = length source") auto
    then show ?thesis by (subst advance_while.simps) (simp add: scan_while_done [of st source Q, OF False])
  qed
qed

lemma scan_string_step:
  "scan_string source st =
     (if fst st < length source \<and> source ! fst st \<noteq> quote then
        scan_string source
          (moved source
            (if source ! fst st = backslash \<and> fst st + 1 < length source then moved source st else st))
      else st)"
  by (subst scan_string.simps) rule

lemma advance_string_inside:
  "fst st \<le> length source \<Longrightarrow> advance_string source st = Value (scan_string source st)"
proof (induction "length source - fst st" arbitrary: st rule: less_induct)
  case less
  show ?case
  proof (cases "fst st < length source \<and> source ! fst st \<noteq> quote")
    case True
    let ?st1 = "if source ! fst st = backslash \<and> fst st + 1 < length source then moved source st else st"
    have le: "fst ?st1 < length source" using True by auto
    have "advance_string source (moved source ?st1) = Value (scan_string source (moved source ?st1))"
      using True le by (intro less.hyps) auto
    moreover have "scan_string source st = scan_string source (moved source ?st1)"
      by (subst scan_string_step) (simp only: True if_True simp_thms)
    moreover have "advance_string source st = advance_string source (moved source ?st1)"
      using True le by (subst advance_string.simps) (auto simp: advance_moved)
    ultimately show ?thesis by simp
  next
    case False
    then have "both (Value (fst st < length source)) (byte_is source (\<lambda>c. c \<noteq> quote) (fst st)) = Value False"
      by (cases "fst st < length source") auto
    then have "advance_string source st = Value st" by (subst advance_string.simps) simp
    moreover have "scan_string source st = st" using False by (subst scan_string_step) (simp only: if_False)
    ultimately show ?thesis by simp
  qed
qed

text \<open>The guard \<open>length <= remaining\<close> keeps every comparison of \<open>symbol_length\<close> inside the text.\<close>

lemma match_symbol_inside:
  "c \<le> length source \<Longrightarrow> match_symbol ss source c (length source - c) = Value (first_symbol ss (drop c source))"
proof (induction ss)
  case (Cons s ss)
  have "both (Value (length s \<le> length source - c)) (bytes_equal source c s) =
      Value (take (length s) (drop c source) = s)"
  proof (cases "length s \<le> length source - c")
    case True
    then have "c + length s \<le> length source" using Cons.prems by simp
    with True show ?thesis by (simp add: bytes_equal_def slice_def)
  next
    case False
    then have "length (take (length s) (drop c source)) \<noteq> length s" by simp
    then have "take (length s) (drop c source) \<noteq> s" by metis
    with False show ?thesis by simp
  qed
  with Cons show ?case by simp
qed simp

lemma first_symbol_bounds:
  assumes "rest \<noteq> []" and "\<forall>s \<in> set ss. s \<noteq> []"
  shows "0 < first_symbol ss rest \<and> first_symbol ss rest \<le> length rest"
  using assms
proof (induction ss)
  case (Cons s ss)
  then show ?case by (auto simp: Suc_le_eq) (metis length_take min.cobounded1)
qed (simp add: Suc_le_eq)

lemma symbols_nonempty: "\<forall>s \<in> set symbols. s \<noteq> []"
  by (simp add: symbols_def)

lemma first_symbol_inside:
  "s < length source \<Longrightarrow> 0 < first_symbol symbols (drop s source) \<and>
    s + first_symbol symbols (drop s source) \<le> length source"
  using first_symbol_bounds [OF _ symbols_nonempty, of "drop s source"] by auto

lemma lex_step_inside:
  assumes lt: "fst st < length source"
  shows "lex_step source st = scan_step source st"
proof -
  let ?c = "fst st" and ?n = "length source"
  have le: "fst st \<le> ?n" using lt by simp
  have next_is: "both (both (Value (?c + 1 < ?n)) (byte_is source (\<lambda>d. d = slash) ?c)) (byte_is source (\<lambda>d. d = c) (?c + 1)) =
      Value (?c + 1 < ?n \<and> source ! ?c = slash \<and> source ! (?c + 1) = c)" for c
    using lt by (cases "?c + 1 < ?n") simp_all
  have line: "advance_while (\<lambda>i. both (Value (i < ?n)) (byte_is source P i)) source st =
      Value (scan_while (\<lambda>i. P (source ! i)) source st)" for P
    by (rule advance_while_inside [OF _ _ le]) simp_all
  have number: "advance_while (\<lambda>i. both (Value (i < ?n))
      (either (byte_is source pigen_is_identifier_char i) (byte_is source (\<lambda>d. d = CHR 0x27) i))) source st =
      Value (scan_while (\<lambda>i. pigen_is_identifier_char (source ! i) \<or> source ! i = CHR 0x27) source st)"
    by (rule advance_while_inside [OF _ _ le]) simp_all
  have block: "advance_while (\<lambda>i. both (Value (i + 1 < ?n))
      (opposite (both (byte_is source (\<lambda>d. d = star) i) (byte_is source (\<lambda>d. d = slash) (i + 1))))) source st2 =
      Value (scan_while (\<lambda>i. i + 1 < ?n \<and> \<not> (source ! i = star \<and> source ! (i + 1) = slash)) source st2)"
    if "fst st2 \<le> ?n" for st2
  proof (rule advance_while_inside [OF _ _ that])
    fix i assume "i < ?n"
    then show "both (Value (i + 1 < ?n)) (opposite (both (byte_is source (\<lambda>d. d = star) i)
        (byte_is source (\<lambda>d. d = slash) (i + 1)))) =
      Value (i + 1 < ?n \<and> \<not> (source ! i = star \<and> source ! (i + 1) = slash))"
      by (cases "i + 1 < ?n") simp_all
  qed simp
  have sym: "symbol_length source ?c (?n - ?c) = Value (first_symbol symbols (drop ?c source))"
    unfolding symbol_length_def by (rule match_symbol_inside [OF le])
  have symbol: "advance_while (\<lambda>i. Value (i < ?c + first_symbol symbols (drop ?c source))) source st =
      Value (scan_while (\<lambda>i. i < ?c + first_symbol symbols (drop ?c source)) source st)"
    by (rule advance_while_inside [OF _ _ le]) (use first_symbol_inside [OF lt] in simp_all)
  have string: "advance_string source (moved source st) = Value (scan_string source (moved source st))"
    using lt by (intro advance_string_inside) simp
  show ?thesis
    using lt unfolding lex_step_def scan_step_def Let_def next_is line number sym
    by (auto simp: advance_moved block [simplified] string symbol)
qed


section \<open>Where an iteration stops\<close>

definition at_position :: "string \<Rightarrow> scan \<Rightarrow> bool" where
  "at_position source st \<longleftrightarrow> fst st \<le> length source \<and> snd st = diagnostic_line_column source (fst st)"

lemma moved_position:
  "at_position source st \<Longrightarrow> fst st < length source \<Longrightarrow> at_position source (moved source st)"
  by (cases "diagnostic_line_column source (fst st)"; cases st)
    (simp add: at_position_def moved_def diagnostic_line_column_def take_Suc_conv_app_nth walk_append)

lemma advance_Value: "advance source st = Value st' \<longleftrightarrow> fst st < length source \<and> st' = moved source st"
  by (auto simp: advance_moved)

lemma advance_Undefined: "advance source st = Undefined \<longleftrightarrow> length source \<le> fst st"
  by (auto simp: advance_moved)

lemma advance_Fail [simp]: "advance source st \<noteq> Fail msg"
  by (auto simp: advance_moved)

lemma scan_while_fst: "fst (scan_while P source st) = skip_while P (fst st) (length source)"
proof (induction P source st rule: scan_while.induct)
  case (1 P source st)
  then show ?case
    by (cases "fst st < length source \<and> P (fst st)")
      (simp_all add: scan_while_step skip_while_step scan_while_done skip_while_done)
qed

lemma scan_while_position:
  "at_position source st \<Longrightarrow> at_position source (scan_while P source st)"
proof (induction P source st rule: scan_while.induct)
  case (1 P source st)
  then show ?case
    by (cases "fst st < length source \<and> P (fst st)")
      (simp_all add: scan_while_step scan_while_done moved_position)
qed

lemma scan_string_position:
  assumes "at_position source st"
  shows "at_position source (scan_string source st) \<and> fst st \<le> fst (scan_string source st) \<and>
    skip_string_body source (fst st) (length source) =
      (if fst (scan_string source st) = length source then Fail ''unterminated string literal''
       else Value (Some (fst (scan_string source st) + 1)))"
  using assms
proof (induction source st rule: scan_string.induct)
  case (1 source st)
  show ?case
  proof (cases "fst st < length source \<and> source ! fst st \<noteq> quote")
    case True
    let ?next = "moved source
      (if source ! fst st = backslash \<and> fst st + 1 < length source then moved source st else st)"
    have pos: "at_position source ?next"
      using "1.prems" True by (auto intro: moved_position)
    have step: "scan_string source st = scan_string source ?next"
      using True by (subst scan_string.simps) simp
    have body: "skip_string_body source (fst st) (length source) =
        skip_string_body source (fst ?next) (length source)"
      using True by (simp add: skip_string_body_step(1))
    show ?thesis using "1.IH" [OF True pos] unfolding step body by (auto split: if_splits)
  next
    case False
    then have "scan_string source st = st" by (subst scan_string.simps) auto
    then show ?thesis
      using "1.prems" False
      by (cases "fst st < length source")
        (auto simp: skip_string_body_step at_position_def)
  qed
qed

section \<open>One iteration, specified\<close>

text \<open>
  What the bytes \<open>[s, e)\<close> of a token of each kind are. Every token is as long as it can be: a symbol is
  the longest spelling of the table with which the rest of the text begins, or else one byte.
\<close>

definition longest_symbol :: "string \<Rightarrow> nat \<Rightarrow> bool" where
  "longest_symbol rest n \<longleftrightarrow>
     (if \<exists>t \<in> set symbols. take (length t) rest = t
      then take n rest \<in> set symbols \<and> (\<forall>t \<in> set symbols. take (length t) rest = t \<longrightarrow> length t \<le> n)
      else n = 1)"

definition lexeme :: "string \<Rightarrow> pigen_token_kind \<Rightarrow> nat \<Rightarrow> nat \<Rightarrow> bool" where
  "lexeme source kind s e \<longleftrightarrow>
     s < e \<and> e \<le> length source \<and> \<not> isspace (source ! s) \<and>
     (case kind of
        PIGEN_TOKEN_EOF \<Rightarrow> False
      | PIGEN_TOKEN_IDENTIFIER \<Rightarrow>
          \<not> isdigit (source ! s) \<and> (\<forall>i. s \<le> i \<and> i < e \<longrightarrow> pigen_is_identifier_char (source ! i)) \<and>
          \<not> (e < length source \<and> pigen_is_identifier_char (source ! e))
      | PIGEN_TOKEN_NUMBER \<Rightarrow>
          isdigit (source ! s) \<and>
          (\<forall>i. s \<le> i \<and> i < e \<longrightarrow> pigen_is_identifier_char (source ! i) \<or> source ! i = CHR 0x27) \<and>
          \<not> (e < length source \<and> (pigen_is_identifier_char (source ! e) \<or> source ! e = CHR 0x27))
      | PIGEN_TOKEN_STRING \<Rightarrow>
          source ! s = quote \<and> skip_string_body source (s + 1) (length source) = Value (Some e)
      | PIGEN_TOKEN_SYMBOL \<Rightarrow>
          \<not> pigen_is_identifier_char (source ! s) \<and> source ! s \<noteq> quote \<and>
          longest_symbol (drop s source) (e - s))"

text \<open>No spelling comes after a shorter one, so the first that matches is the longest.\<close>

lemma first_symbol_longest: "longest_symbol rest (first_symbol symbols rest)"
proof -
  have desc: "sorted_wrt (\<lambda>a b. length b \<le> length a) symbols" by (simp add: symbols_def)
  have "if \<exists>t \<in> set ss. take (length t) rest = t
      then take (first_symbol ss rest) rest \<in> set ss \<and>
        (\<forall>t \<in> set ss. take (length t) rest = t \<longrightarrow> length t \<le> first_symbol ss rest)
      else first_symbol ss rest = 1" if "sorted_wrt (\<lambda>a b. length b \<le> length a) ss" for ss
    using that by (induction ss) (auto split: if_splits)
  from this [OF desc] show ?thesis by (simp only: longest_symbol_def)
qed

lemma skip_whole:
  "i < n \<Longrightarrow> P i \<Longrightarrow> i < skip_while P i n"
  using skip_while_ge [of "Suc i" P n] by (simp add: skip_while_step)

lemma lexeme_lt: "lexeme source kind s e \<Longrightarrow> s < e"
  by (simp add: lexeme_def)

lemma lexed_token:
  assumes "lexed kind st st' = Value (tok, st2)" and "at_position source st" and "at_position source st'"
    and "lexeme source kind (fst st) (fst st')"
  shows "st2 = st' \<and> fst st < fst st2 \<and> at_position source st2 \<and>
    (\<exists>t. tok = Some t \<and> lexeme source (token_kind t) (token_start t) (token_end t) \<and>
      token_start t = fst st \<and> token_end t = fst st2 \<and>
      (token_line t, token_column t) = diagnostic_line_column source (fst st))"
  using assms lexeme_lt [OF assms(4)] by (auto simp: lexed_def at_position_def split: prod.splits)

definition stepped :: "string \<Rightarrow> scan \<Rightarrow> pigen_token option \<Rightarrow> scan \<Rightarrow> bool" where
  "stepped source st tok st2 \<longleftrightarrow>
     fst st < fst st2 \<and> at_position source st2 \<and>
     (case tok of
        None \<Rightarrow>
          isspace (source ! fst st) \<and> fst st2 = Suc (fst st) \<or>
          source ! fst st = slash \<and> pigen_skip_opaque source (fst st) (length source) = Value (Some (fst st2))
      | Some t \<Rightarrow> lexeme source (token_kind t) (token_start t) (token_end t) \<and>
          token_start t = fst st \<and> token_end t = fst st2 \<and>
          (token_line t, token_column t) = diagnostic_line_column source (fst st))"

lemma lexed_stepped:
  assumes "lexed kind st st' = Value (tok, st2)" and "at_position source st" and "at_position source st'"
    and "lexeme source kind (fst st) (fst st')"
  shows "stepped source st tok st2"
  using lexed_token [OF assms] by (auto simp: stepped_def)

lemma block_comment_scan:
  "skip_while (\<lambda>i. i + 1 < n \<and> Q i) i n = (if i < n then skip_while Q i (n - 1) else i)"
proof (cases "i < n")
  case True
  let ?e = "skip_while Q i (n - 1)"
  have le: "?e \<le> n - 1" using skip_while_le [of i "n - 1" Q] True by simp
  have "skip_while (\<lambda>i. i + 1 < n \<and> Q i) i n = ?e"
  proof (rule skip_while_eqI)
    show "i \<le> ?e" by (rule skip_while_ge)
    show "?e \<le> n" using le by simp
    show "k + 1 < n \<and> Q k" if "i \<le> k" "k < ?e" for k
      using skip_while_all [of i k Q "n - 1"] that le by auto
    show "?e = n \<or> \<not> (?e + 1 < n \<and> Q ?e)"
      using skip_while_stop [of Q i "n - 1"] by auto
  qed
  with True show ?thesis by simp
next
  case False
  then show ?thesis by (simp add: skip_while_done)
qed

lemma scan_step:
  assumes pos: "at_position source st" and lt: "fst st < length source"
    and run: "scan_step source st = Value (tok, st2)"
  shows "stepped source st tok st2"
proof -
  let ?c = "fst st" and ?n = "length source"
  have opaque: "source ! ?c \<in> {slash, quote} \<Longrightarrow> \<not> isspace (source ! ?c) \<and> \<not> pigen_is_identifier_char (source ! ?c)"
    by (auto simp: isspace_def pigen_is_identifier_char_def isalpha_def isdigit_def)
  consider (space) "isspace (source ! ?c)"
    | (line) "\<not> isspace (source ! ?c)" "?c + 1 < ?n" "source ! ?c = slash" "source ! (?c + 1) = slash"
    | (block) "\<not> isspace (source ! ?c)" "?c + 1 < ?n" "source ! ?c = slash" "source ! (?c + 1) = star"
    | (number) "\<not> isspace (source ! ?c)" "isdigit (source ! ?c)" "source ! ?c \<noteq> slash"
    | (ident) "\<not> isspace (source ! ?c)" "\<not> isdigit (source ! ?c)" "pigen_is_identifier_char (source ! ?c)"
        "source ! ?c \<noteq> slash"
    | (literal) "\<not> isspace (source ! ?c)" "source ! ?c = quote"
    | (sym) "\<not> isspace (source ! ?c)" "\<not> isdigit (source ! ?c)" "\<not> pigen_is_identifier_char (source ! ?c)"
        "source ! ?c \<noteq> quote" "\<not> (?c + 1 < ?n \<and> source ! ?c = slash \<and> source ! (?c + 1) \<in> {slash, star})"
    using isdigit_identifier [of "source ! ?c"] opaque by fastforce
  then show ?thesis
  proof cases
    case space
    then have "tok = None" "st2 = moved source st"
      using run by (auto simp: scan_step_def Let_def advance_Value)
    with space show ?thesis using moved_position [OF pos lt] by (simp add: stepped_def)
  next
    case line
    let ?P = "\<lambda>i. source ! i \<noteq> newline"
    have r: "tok = None" "st2 = scan_while ?P source st"
      using run line by (auto simp: scan_step_def Let_def)
    have "skip_while ?P ?c ?n = skip_while ?P (?c + 2) ?n"
      using line by (simp add: skip_while_step)
    then have "fst st2 = skip_to_newline source (?c + 2) ?n"
      by (simp add: r scan_while_fst skip_to_newline_def)
    moreover have "pigen_skip_opaque source ?c ?n = Value (Some (skip_to_newline source (?c + 2) ?n))"
      using line by (simp add: pigen_skip_opaque_def)
    ultimately show ?thesis
      using r line(3) skip_opaque_progress [of source ?c ?n "fst st2"] scan_while_position [OF pos]
      by (simp add: stepped_def)
  next
    case block
    let ?Q = "\<lambda>i. \<not> (source ! i = star \<and> source ! (i + 1) = slash)"
    let ?st2 = "moved source (moved source st)"
    let ?st3 = "scan_while (\<lambda>i. i + 1 < ?n \<and> ?Q i) source ?st2"
    have r: "tok = None" "fst ?st3 + 1 \<noteq> ?n" "fst ?st3 + 1 < ?n" "st2 = moved source (moved source ?st3)"
      using run block opaque by (auto simp: scan_step_def Let_def advance_Value split: if_splits)
    have pos2: "at_position source ?st2" using block moved_position [OF moved_position [OF pos lt]] by simp
    have pos3: "at_position source ?st3" by (rule scan_while_position [OF pos2])
    have e: "fst ?st3 = skip_to_comment_end source (?c + 2) ?n"
      using block r(3) block_comment_scan [of ?n ?Q "?c + 2"] skip_while_ge [of "?c + 2" "\<lambda>i. i + 1 < ?n \<and> ?Q i" ?n]
      by (simp add: scan_while_fst skip_to_comment_end_def split: if_splits)
    then have "pigen_skip_opaque source ?c ?n = Value (Some (fst st2))"
      using block r by (simp add: pigen_skip_opaque_def)
    moreover have "at_position source st2"
      using r moved_position [OF moved_position [OF pos3]] by simp
    ultimately show ?thesis
      using r(1) block(3) skip_opaque_progress [of source ?c ?n "fst st2"] by (simp add: stepped_def)
  next
    case number
    let ?P = "\<lambda>i. pigen_is_identifier_char (source ! i) \<or> source ! i = CHR 0x27"
    let ?e = "skip_while ?P ?c ?n"
    have r: "lexed PIGEN_TOKEN_NUMBER st (scan_while ?P source st) = Value (tok, st2)"
      using run number by (auto simp: scan_step_def Let_def)
    have "lexeme source PIGEN_TOKEN_NUMBER ?c ?e"
      using number lt skip_whole [of ?c ?n ?P] skip_while_le [of ?c ?n ?P] skip_while_all [of ?c _ ?P ?n]
        skip_while_stop [of ?P ?c ?n] isdigit_identifier
      by (auto simp: lexeme_def)
    then show ?thesis
      using lexed_stepped [OF r pos scan_while_position [OF pos]] by (simp add: scan_while_fst)
  next
    case ident
    let ?P = "\<lambda>i. pigen_is_identifier_char (source ! i)"
    let ?e = "skip_while ?P ?c ?n"
    have r: "lexed PIGEN_TOKEN_IDENTIFIER st (scan_while ?P source st) = Value (tok, st2)"
      using run ident by (auto simp: scan_step_def Let_def)
    have "lexeme source PIGEN_TOKEN_IDENTIFIER ?c ?e"
      using ident lt skip_whole [of ?c ?n ?P] skip_while_le [of ?c ?n ?P] skip_while_all [of ?c _ ?P ?n]
        skip_while_stop [of ?P ?c ?n]
      by (auto simp: lexeme_def)
    then show ?thesis
      using lexed_stepped [OF r pos scan_while_position [OF pos]] by (simp add: scan_while_fst)
  next
    case literal
    let ?st1 = "moved source st"
    let ?st2 = "scan_string source ?st1"
    have nid: "\<not> isdigit (source ! ?c)" "\<not> pigen_is_identifier_char (source ! ?c)"
      using literal opaque isdigit_identifier by auto
    have r: "fst ?st2 \<noteq> ?n" "fst ?st2 < ?n" "lexed PIGEN_TOKEN_STRING st (moved source ?st2) = Value (tok, st2)"
      using run literal nid lt by (auto simp: scan_step_def Let_def advance_Value split: if_splits)
    have s: "at_position source ?st2" "fst ?st1 \<le> fst ?st2"
        "skip_string_body source (?c + 1) ?n = Value (Some (fst ?st2 + 1))"
      using scan_string_position [OF moved_position [OF pos lt]] r(1) by auto
    then have "lexeme source PIGEN_TOKEN_STRING ?c (fst (moved source ?st2))"
      using literal r(2) by (simp add: lexeme_def)
    then show ?thesis
      using lexed_stepped [OF r(3) pos moved_position [OF s(1) r(2)]] by simp
  next
    case sym
    let ?len = "first_symbol symbols (drop ?c source)"
    let ?P = "\<lambda>i. i < ?c + ?len"
    have r: "lexed PIGEN_TOKEN_SYMBOL st (scan_while ?P source st) = Value (tok, st2)"
      using run sym by (auto simp: scan_step_def Let_def)
    have e: "skip_while ?P ?c ?n = ?c + ?len"
      by (rule skip_while_eqI) (use first_symbol_inside [OF lt] in auto)
    then have "lexeme source PIGEN_TOKEN_SYMBOL ?c (fst (scan_while ?P source st))"
      using sym first_symbol_inside [OF lt] first_symbol_longest [of "drop ?c source"]
        by (simp add: lexeme_def scan_while_fst e)
    then show ?thesis
      using lexed_stepped [OF r pos scan_while_position [OF pos]] by simp
  qed
qed

section \<open>Progress and undefined reads\<close>

lemma and_then_progress:
  "scan_step source st = Value (tok, st2) \<Longrightarrow> fst st < length source \<Longrightarrow> fst st < fst st2"
proof -
  assume run: "scan_step source st = Value (tok, st2)" and lt: "fst st < length source"
  obtain l k where "diagnostic_line_column source (fst st) = (l, k)" by fastforce
  have whole: "P (fst st) \<Longrightarrow> fst st < fst (scan_while P source st)" for P
    using lt by (simp add: scan_while_fst skip_whole)
  have ge: "fst st < Suc (Suc (fst (scan_while P source (moved source (moved source st)))))" for P
    using skip_while_ge [of "fst st + 2" P "length source"] by (simp add: scan_while_fst)
  have str: "fst st' \<le> fst (scan_string source st')" for st'
  proof (induction source st' rule: scan_string.induct)
    case (1 source st)
    then show ?case
      by (subst scan_string.simps) (auto intro: le_trans [rotated] split: if_splits)
  qed
  have "isdigit (source ! fst st) \<or> pigen_is_identifier_char (source ! fst st) \<Longrightarrow>
      pigen_is_identifier_char (source ! fst st)"
    using isdigit_identifier by auto
  moreover have "fst st < length source \<Longrightarrow> 0 < first_symbol symbols (drop (fst st) source)"
    using first_symbol_inside by simp
  ultimately show ?thesis
    using run lt whole ge str [of "moved source st"]
    unfolding scan_step_def Let_def
    by (auto simp: advance_Value lexed_def split: if_splits prod.splits)
qed

text \<open>
  The only unguarded read that can leave the buffer is the second \<open>advance\<close> after a block comment
  whose opening bytes are the last two of the file: the test \<open>cursor + 1 == length\<close> then compares
  \<open>length + 1\<close>.
\<close>

lemma scan_step_undefined:
  assumes lt: "fst st < length source" and run: "scan_step source st = Undefined"
  shows "fst st + 2 = length source \<and> source ! fst st = slash \<and> source ! (fst st + 1) = star"
proof -
  let ?c = "fst st" and ?n = "length source"
  let ?P = "\<lambda>i. i + 1 < ?n \<and> \<not> (source ! i = star \<and> source ! (i + 1) = slash)"
  let ?st3 = "scan_while ?P source (moved source (moved source st))"
  have str: "fst (scan_string source st') \<le> length source" if "fst st' \<le> length source" for st'
    using that
  proof (induction source st' rule: scan_string.induct)
    case (1 source st)
    then show ?case by (subst scan_string.simps) (auto split: if_splits)
  qed
  have "\<not> ?n \<le> ?c" using lt by simp
  moreover have "lexed kind st st' \<noteq> Undefined" for kind st'
    by (simp add: lexed_def split: prod.split)
  ultimately have "(?c + 1 < ?n \<and> source ! ?c = slash \<and> source ! (?c + 1) = star \<and> fst ?st3 + 1 \<noteq> ?n \<and>
      (?n \<le> fst ?st3 \<or> ?n \<le> fst ?st3 + 1)) \<or>
    (fst (scan_string source (moved source st)) \<noteq> ?n \<and> ?n \<le> fst (scan_string source (moved source st)))"
    using run unfolding scan_step_def Let_def
    by (auto simp: advance_Undefined advance_Value split: if_splits)
  moreover have "fst (scan_string source (moved source st)) \<le> ?n"
    using lt by (intro str) simp
  moreover have "fst ?st3 < ?n" if "?c + 2 < ?n"
  proof -
    have "fst ?st3 = skip_while (\<lambda>i. \<not> (source ! i = star \<and> source ! (i + 1) = slash)) (?c + 2) (?n - 1)"
      using block_comment_scan [of ?n "\<lambda>i. \<not> (source ! i = star \<and> source ! (i + 1) = slash)" "?c + 2"] that
      by (simp add: scan_while_fst)
    moreover have "?c + 2 \<le> ?n - 1" using that by simp
    ultimately have "fst ?st3 \<le> ?n - 1" by (simp only: skip_while_le)
    with that show ?thesis by linarith
  qed
  ultimately show ?thesis by linarith
qed

section \<open>The lexer\<close>

function lex_loop :: "string \<Rightarrow> scan \<Rightarrow> pigen_token list \<Rightarrow> (scan \<times> pigen_token list) outcome" where
  "lex_loop source st tokens =
     (if fst st < length source then
        case lex_step source st of
          Value (tok, st2) \<Rightarrow> lex_loop source st2 (tokens @ (case tok of None \<Rightarrow> [] | Some t \<Rightarrow> [t]))
        | Fail msg \<Rightarrow> Fail msg
        | Undefined \<Rightarrow> Undefined
      else Value (st, tokens))"
  by auto
termination
  by (relation "measure (\<lambda>(source, st, _). length source - fst st)")
    (auto simp: lex_step_inside dest: and_then_progress)

declare lex_loop.simps [simp del]

definition pigen_lex_source :: "string \<Rightarrow> pigen_token list \<Rightarrow> pigen_token list outcome" where
  "pigen_lex_source source tokens =
     and_then (lex_loop source (0, 1, 1) tokens) (\<lambda>((cursor, line, column), tokens).
       Value (tokens @ [\<lparr>token_kind = PIGEN_TOKEN_EOF, token_start = length source,
         token_end = length source, token_line = line, token_column = column\<rparr>]))"

definition pigen_token_is :: "string \<Rightarrow> pigen_token \<Rightarrow> string \<Rightarrow> bool" where
  "pigen_token_is source tok expected \<longleftrightarrow>
     token_end tok - token_start tok = length expected \<and>
     slice (token_start tok) (length expected) source = expected"

text \<open>
  The gaps between tokens hold only white space and comments: \<open>skipped source a b\<close> says that the
  bytes from \<open>a\<close> to \<open>b\<close> are such a gap.
\<close>

inductive skipped :: "string \<Rightarrow> nat \<Rightarrow> nat \<Rightarrow> bool" for source where
  skipped_nothing: "skipped source a a"
| skipped_space: "isspace (source ! a) \<Longrightarrow> skipped source (Suc a) b \<Longrightarrow> skipped source a b"
| skipped_comment: "source ! a = slash \<Longrightarrow> pigen_skip_opaque source a (length source) = Value (Some c) \<Longrightarrow>
    skipped source c b \<Longrightarrow> skipped source a b"

text \<open>\<open>tokenised source a ts\<close>: from byte \<open>a\<close> on, the source is gaps and the lexemes of \<open>ts\<close>.\<close>

fun tokenised :: "string \<Rightarrow> nat \<Rightarrow> pigen_token list \<Rightarrow> bool" where
  "tokenised source a [] \<longleftrightarrow> skipped source a (length source)"
| "tokenised source a (t # ts) \<longleftrightarrow>
     skipped source a (token_start t) \<and> lexeme source (token_kind t) (token_start t) (token_end t) \<and>
     (token_line t, token_column t) = diagnostic_line_column source (token_start t) \<and>
     tokenised source (token_end t) ts"

lemma tokenised_skip: "skipped source a b \<Longrightarrow> tokenised source b ts \<Longrightarrow> tokenised source a ts"
proof -
  have trans: "skipped source a b \<Longrightarrow> skipped source b c \<Longrightarrow> skipped source a c" for c
    by (induction rule: skipped.induct) (auto intro: skipped.intros)
  show "skipped source a b \<Longrightarrow> tokenised source b ts \<Longrightarrow> tokenised source a ts"
    by (cases ts) (auto intro: trans)
qed

lemma lex_loop_step:
  "fst st < length source \<Longrightarrow> lex_loop source st tokens =
     (case lex_step source st of
        Value (tok, st2) \<Rightarrow> lex_loop source st2 (tokens @ (case tok of None \<Rightarrow> [] | Some t \<Rightarrow> [t]))
      | Fail msg \<Rightarrow> Fail msg
      | Undefined \<Rightarrow> Undefined)"
  "\<not> fst st < length source \<Longrightarrow> lex_loop source st tokens = Value (st, tokens)"
  by (simp_all add: lex_loop.simps [of source st])

lemma lex_loop:
  assumes "at_position source st" and "lex_loop source st tokens = Value (st', tokens')"
  shows "\<exists>ts. tokens' = tokens @ ts \<and> at_position source st' \<and> fst st' = length source \<and>
    tokenised source (fst st) ts"
  using assms
proof (induction source st tokens rule: lex_loop.induct)
  case (1 source st tokens)
  show ?case
  proof (cases "fst st < length source")
    case True
    then obtain tok st2 where step: "lex_step source st = Value (tok, st2)"
      and rest: "lex_loop source st2 (tokens @ (case tok of None \<Rightarrow> [] | Some t \<Rightarrow> [t])) = Value (st', tokens')"
      using "1.prems"(2) by (auto simp: lex_loop_step split: outcome.splits)
    have s: "stepped source st tok st2" 
      by (rule scan_step [OF "1.prems"(1) True step [unfolded lex_step_inside [OF True]]])
    then have pos2: "at_position source st2" by (simp add: stepped_def)
    from "1.IH" [OF True step refl pos2 rest] obtain ts where
      ts: "tokens' = (tokens @ (case tok of None \<Rightarrow> [] | Some t \<Rightarrow> [t])) @ ts" "at_position source st'"
        "fst st' = length source" "tokenised source (fst st2) ts" by blast
    show ?thesis
    proof (cases tok)
      case None
      then have "skipped source (fst st) (fst st2)"
        using s by (auto simp: stepped_def intro: skipped_space [OF _ skipped_nothing]
            skipped_comment [OF _ _ skipped_nothing])
      with None ts tokenised_skip show ?thesis by auto
    next
      case (Some t)
      then have "tokenised source (fst st) (t # ts)"
        using s ts(4) by (auto simp: stepped_def intro: skipped.intros)
      with Some ts show ?thesis by auto
    qed
  next
    case False
    with "1.prems" show ?thesis
      by (auto simp: lex_loop_step at_position_def intro: skipped.intros exI [of _ "[]"])
  qed
qed

lemma lex_source:
  assumes "pigen_lex_source source tokens = Value tokens'"
  shows "\<exists>ts. tokens' = tokens @ ts @ [\<lparr>token_kind = PIGEN_TOKEN_EOF, token_start = length source,
      token_end = length source, token_line = fst (diagnostic_line_column source (length source)),
      token_column = snd (diagnostic_line_column source (length source))\<rparr>] \<and> tokenised source 0 ts"
proof -
  have "at_position source (0, 1, 1)" by (simp add: at_position_def diagnostic_line_column_def)
  moreover from assms obtain st tokens1 where run: "lex_loop source (0, 1, 1) tokens = Value (st, tokens1)"
    and out: "tokens' = tokens1 @ [\<lparr>token_kind = PIGEN_TOKEN_EOF, token_start = length source,
      token_end = length source, token_line = fst (snd st), token_column = snd (snd st)\<rparr>]"
    by (auto simp: pigen_lex_source_def split: prod.splits)
  ultimately obtain ts where "tokens1 = tokens @ ts" "at_position source st" "fst st = length source"
    "tokenised source 0 ts"
    using lex_loop [OF _ run] by auto
  with out show ?thesis by (simp add: at_position_def)
qed

lemma lex_loop_undefined:
  "lex_loop source st tokens = Undefined \<Longrightarrow>
   2 \<le> length source \<and> source ! (length source - 2) = slash \<and> source ! (length source - 1) = star"
proof (induction source st tokens rule: lex_loop.induct)
  case (1 source st tokens)
  have lt: "fst st < length source" using "1.prems" lex_loop_step(2) [of st source tokens] by fastforce
  show ?case
  proof (cases "lex_step source st")
    case (Value r)
    then obtain tok st2 where r: "lex_step source st = Value (tok, st2)" by (cases r) auto
    with "1.prems" lt show ?thesis using "1.IH" [OF lt r refl] by (simp add: lex_loop_step)
  next
    case (Fail msg)
    with "1.prems" lt show ?thesis by (simp add: lex_loop_step)
  next
    case Undefined
    from scan_step_undefined [OF lt Undefined [unfolded lex_step_inside [OF lt]]]
    have "fst st = length source - 2" "source ! fst st = slash" "source ! Suc (fst st) = star"
      "fst st + 2 = length source" by auto
    then show ?thesis by (metis add_2_eq_Suc' diff_Suc_1 le_add2)
  qed
qed

lemma tokenised_ordered:
  assumes "tokenised source a ts" and "a \<le> length source"
  shows "sorted_wrt (\<lambda>t u. token_end t \<le> token_start u) ts \<and> (\<forall>t \<in> set ts. a \<le> token_start t)"
proof -
  have ge: "skipped source a b \<Longrightarrow> a \<le> b" for a b
    by (induction rule: skipped.induct) (auto dest: skip_opaque_progress)
  show ?thesis
    using assms(1)
  proof (induction ts arbitrary: a)
    case Nil
    then show ?case by simp
  next
    case (Cons t ts)
    then have "a \<le> token_start t" "token_start t < token_end t"
      using ge lexeme_lt by auto
    with Cons.prems Cons.IH [of "token_end t"] show ?case by fastforce
  qed
qed

end
