(* ===== verification/SourceProperties.thy ===== *)
theory SourceProperties
  imports Lexer
begin

text \<open>
  The properties of source files and of the lexer (src/src/source.c, src/src/lexer.c), applied to
  a two-line file.
\<close>

definition sample_text :: string where
  "sample_text = ''a'' @ [newline] @ ''b<<='' @ ''/*c*/ 4'' "

definition sample_manager :: pigen_source_manager where
  "sample_manager = [\<lparr>source_path = ''s.pgn'', source_text = sample_text, line_starts = [0, 2]\<rparr>]"

lemma sample_managed [simp]: "managed sample_manager"
  by (simp add: managed_def sample_manager_def line_start_table_def sample_text_def PIGEN_INVALID_ID_def upt_rec)

definition sample_tokens :: "pigen_token list" where
  "sample_tokens =
     [\<lparr>token_kind = PIGEN_TOKEN_IDENTIFIER, token_start = 0, token_end = 1, token_line = 1, token_column = 1\<rparr>,
      \<lparr>token_kind = PIGEN_TOKEN_IDENTIFIER, token_start = 2, token_end = 3, token_line = 2, token_column = 1\<rparr>,
      \<lparr>token_kind = PIGEN_TOKEN_SYMBOL, token_start = 3, token_end = 6, token_line = 2, token_column = 2\<rparr>,
      \<lparr>token_kind = PIGEN_TOKEN_NUMBER, token_start = 12, token_end = 13, token_line = 2, token_column = 11\<rparr>,
      \<lparr>token_kind = PIGEN_TOKEN_EOF, token_start = 13, token_end = 13, token_line = 2, token_column = 12\<rparr>]"

lemma sample_lexed: "pigen_lex_source sample_text [] = Value sample_tokens"
  by code_simp

section \<open>Files and positions\<close>

text \<open>
  Adding a file records its path, its bytes and the table of its line starts, whatever the
  freshly allocated table held, under the next identity, and leaves the earlier files alone; it
  fails only when the identities are used up.
\<close>

theorem file_added:
  assumes "managed manager"
  shows "pigen_source_add garbage manager path bytes =
      (if length manager = PIGEN_INVALID_ID then Fail ''too many source files''
       else Value (length manager, manager @ [\<lparr>source_path = path, source_text = bytes,
         line_starts = line_start_table bytes\<rparr>])) \<and>
    (length manager \<noteq> PIGEN_INVALID_ID \<longrightarrow> managed (manager @ [\<lparr>source_path = path, source_text = bytes,
         line_starts = line_start_table bytes\<rparr>]))"
proof (cases "length manager = PIGEN_INVALID_ID")
  case True
  then show ?thesis by (simp add: pigen_source_add_def)
next
  case False
  then obtain i m where "pigen_source_add garbage manager path bytes = Value (i, m)"
    by (auto simp: pigen_source_add_def Let_def)
  with source_add [OF assms this] False show ?thesis by auto
qed

theorem file_added_witness:
  "pigen_source_add [7, 7, 7] sample_manager ''t'' [newline] =
     Value (1, sample_manager @ [\<lparr>source_path = ''t'', source_text = [newline], line_starts = [0, 1]\<rparr>])"
  using file_added [OF sample_managed, of "[7, 7, 7]" "''t''" "[newline]"]
  by (simp add: sample_manager_def PIGEN_INVALID_ID_def line_start_table_def)

text \<open>
  C19: The line and column the manager finds by binary search are those the diagnostics find by
  walking the text, for every valid span.
\<close>

theorem locate_is_walk:
  assumes "managed manager" and "pigen_source_span_valid manager sp"
    and "pigen_source_get manager (span_source sp) = Some file"
  shows "(location_line (pigen_source_locate manager sp), location_column (pigen_source_locate manager sp)) =
    diagnostic_line_column (source_text file) (span_start sp)"
  by (rule source_locate [OF assms])

theorem locate_is_walk_witness:
  "(location_line (pigen_source_locate sample_manager \<lparr>span_source = 0, span_start = 3, span_end = 4\<rparr>),
    location_column (pigen_source_locate sample_manager \<lparr>span_source = 0, span_start = 3, span_end = 4\<rparr>)) = (2, 2)"
  using locate_is_walk [OF sample_managed, of "\<lparr>span_source = 0, span_start = 3, span_end = 4\<rparr>"]
  by (simp add: sample_manager_def pigen_source_span_valid_def pigen_source_get_def PIGEN_INVALID_ID_def
      sample_text_def diagnostic_line_column_def)

section \<open>Tokens\<close>

text \<open>
  C3: A lexed file is a sequence of lexemes, each the longest of its kind (a symbol token is the longest
  operator spelling with which the text goes on, or a single byte if there is none), with only white
  space and comments (as the shared utilities skip them) between them and around them, in order and
  without overlaps; the last token is the end marker at the end of the file.
\<close>

theorem lexer_tokenises:
  assumes "pigen_lex_source source [] = Value tokens"
  shows "\<exists>ts eof. tokens = ts @ [eof] \<and> token_kind eof = PIGEN_TOKEN_EOF \<and>
    token_start eof = length source \<and> token_end eof = length source \<and>
    tokenised source 0 ts \<and> sorted_wrt (\<lambda>t u. token_end t \<le> token_start u) ts"
  using lex_source [OF assms] tokenised_ordered [of source 0] by auto

theorem lexer_tokenises_witness:
  "\<exists>ts eof. sample_tokens = ts @ [eof] \<and> token_kind eof = PIGEN_TOKEN_EOF \<and>
    token_start eof = length sample_text \<and> token_end eof = length sample_text \<and>
    tokenised sample_text 0 ts \<and> sorted_wrt (\<lambda>t u. token_end t \<le> token_start u) ts"
  by (rule lexer_tokenises [OF sample_lexed])

text \<open>
  C18: The line and column the lexer keeps incrementally in every token are those the manager
  finds for the token's span.
\<close>

theorem token_positions_agree:
  assumes "managed manager" and "pigen_source_get manager s = Some file"
    and "pigen_lex_source (source_text file) [] = Value tokens" and "t \<in> set tokens"
  shows "pigen_source_locate manager \<lparr>span_source = s, span_start = token_start t, span_end = token_end t\<rparr> =
    \<lparr>location_line = token_line t, location_column = token_column t\<rparr>"
proof -
  let ?n = "length (source_text file)"
  let ?sp = "\<lparr>span_source = s, span_start = token_start t, span_end = token_end t\<rparr>"
  have each: "\<forall>t \<in> set ts. token_start t \<le> token_end t \<and> token_end t \<le> ?n \<and>
      (token_line t, token_column t) = diagnostic_line_column (source_text file) (token_start t)"
    if "tokenised (source_text file) a ts" for a ts
    using that by (induction ts arbitrary: a) (auto simp: lexeme_def)
  have "token_start t \<le> token_end t \<and> token_end t \<le> ?n \<and>
      (token_line t, token_column t) = diagnostic_line_column (source_text file) (token_start t)"
    using lex_source [OF assms(3)] assms(4) each by auto
  moreover from this assms(2) have valid: "pigen_source_span_valid manager ?sp"
    by (simp add: pigen_source_span_valid_def)
  moreover have "pigen_source_get manager (span_source ?sp) = Some file" using assms(2) by simp
  ultimately have "(location_line (pigen_source_locate manager ?sp), location_column (pigen_source_locate manager ?sp)) =
      (token_line t, token_column t)"
    using source_locate [OF assms(1) valid] by simp
  then show ?thesis by (cases "pigen_source_locate manager ?sp") auto
qed

theorem token_positions_agree_witness:
  "pigen_source_locate sample_manager \<lparr>span_source = 0, span_start = 12, span_end = 13\<rparr> =
    \<lparr>location_line = 2, location_column = 11\<rparr>"
  using token_positions_agree [OF sample_managed, of 0 "sample_manager ! 0" sample_tokens "sample_tokens ! 3"]
    sample_lexed
  by (simp add: sample_manager_def pigen_source_get_def PIGEN_INVALID_ID_def sample_tokens_def)

text \<open>
  C20: Every byte the lexer reads, in conditions and in comparisons with the symbol table too, is a byte
  of the file, except on a file whose last two bytes open a block comment, where it does read past the
  end (as on the file with just these two bytes): every other file is lexed or rejected with a
  diagnostic.
\<close>

theorem lexer_reads_inside:
  "(pigen_lex_source source [] = Undefined \<longrightarrow>
      2 \<le> length source \<and> drop (length source - 2) source = [slash, star]) \<and>
    pigen_lex_source ''/*'' [] = Undefined"
proof (intro conjI impI)
  assume "pigen_lex_source source [] = Undefined"
  then have "lex_loop source (0, 1, 1) [] = Undefined" by (auto simp: pigen_lex_source_def split: prod.splits)
  from lex_loop_undefined [OF this]
  have n: "2 \<le> length source" and e: "source ! (length source - 2) = slash" "source ! (length source - 1) = star"
    by auto
  then show "2 \<le> length source" by simp
  have "drop (length source - 2) source = [source ! (length source - 2), source ! (length source - 1)]"
    using n by (intro nth_equalityI) (auto simp: less_Suc_eq numeral_2_eq_2 nth_Cons' intro!: arg_cong [of _ _ "(!) source"])
  with e show "drop (length source - 2) source = [slash, star]" by simp
qed code_simp

theorem lexer_reads_inside_witness:
  "pigen_lex_source ''/* c'' [] \<noteq> Undefined"
  using lexer_reads_inside [of "''/* c''"] by auto

end
