(* ===== verification/TransferTypes.thy ===== *)
theory TransferTypes
  imports SourceText
begin

text \<open>
  The transfer-type catalogue of src/src/transfer_type.c and the keyword table of the prototype in
  src/src/util.c. The tables are the C arrays, indexed by the numbers of their enumerations; a
  field that an initializer leaves out is zero.
\<close>

datatype pigen_transfer_type =
    PIGEN_TRANSFER_TYPE_ABSTRACT | PIGEN_TRANSFER_TYPE_WIRE | PIGEN_TRANSFER_TYPE_REG
  | PIGEN_TRANSFER_TYPE_LOGIC | PIGEN_TRANSFER_TYPE_BUF | PIGEN_TRANSFER_TYPE_PORT
  | PIGEN_TRANSFER_TYPE_FIFO | PIGEN_TRANSFER_TYPE_SKID

datatype pigen_transfer_parameter = PIGEN_TRANSFER_PARAMETER_NONE | PIGEN_TRANSFER_PARAMETER_DEPTH

datatype pigen_transfer_realization =
    PIGEN_TRANSFER_REALIZATION_INVALID | PIGEN_TRANSFER_REALIZATION_BOUNDARY
  | PIGEN_TRANSFER_REALIZATION_COMBINATIONAL_NET | PIGEN_TRANSFER_REALIZATION_PROCEDURAL_VARIABLE
  | PIGEN_TRANSFER_REALIZATION_ELASTIC_SLOT | PIGEN_TRANSFER_REALIZATION_PULSE_REGISTER
  | PIGEN_TRANSFER_REALIZATION_PARAMETERIZED_QUEUE | PIGEN_TRANSFER_REALIZATION_SKID_QUEUE

datatype pigen_transfer_capacity_source =
    PIGEN_TRANSFER_CAPACITY_INVALID | PIGEN_TRANSFER_CAPACITY_NONE
  | PIGEN_TRANSFER_CAPACITY_FIXED | PIGEN_TRANSFER_CAPACITY_ARGUMENT

datatype pigen_transfer_ready_dependency =
    PIGEN_TRANSFER_READY_INVALID | PIGEN_TRANSFER_READY_EXTERNAL | PIGEN_TRANSFER_READY_CONSTANT
  | PIGEN_TRANSFER_READY_DOWNSTREAM | PIGEN_TRANSFER_READY_OCCUPANCY

datatype pigen_transfer_reset =
    PIGEN_TRANSFER_RESET_INVALID | PIGEN_TRANSFER_RESET_NONE
  | PIGEN_TRANSFER_RESET_PROCEDURAL | PIGEN_TRANSFER_RESET_EMPTY

record pigen_transfer_realization_descriptor =
  capacity_source :: pigen_transfer_capacity_source
  fixed_capacity :: nat
  ready_dependency :: pigen_transfer_ready_dependency
  has_occupancy :: bool
  reset :: pigen_transfer_reset

record pigen_transfer_type_descriptor =
  spelling :: "string option"
  is_concrete :: bool
  is_static :: bool
  is_systemverilog_prefix :: bool
  accepts_write :: bool
  parameter :: pigen_transfer_parameter
  realization :: pigen_transfer_realization
  valid_constant :: int
  ready_constant :: int
  consumes_on_read :: int
  produces_on_write :: int
  requires_ownership :: int
  binds_domain :: int

section \<open>Enumeration numbers\<close>

fun transfer_type_number :: "pigen_transfer_type \<Rightarrow> nat" where
  "transfer_type_number PIGEN_TRANSFER_TYPE_ABSTRACT = 0"
| "transfer_type_number PIGEN_TRANSFER_TYPE_WIRE = 1"
| "transfer_type_number PIGEN_TRANSFER_TYPE_REG = 2"
| "transfer_type_number PIGEN_TRANSFER_TYPE_LOGIC = 3"
| "transfer_type_number PIGEN_TRANSFER_TYPE_BUF = 4"
| "transfer_type_number PIGEN_TRANSFER_TYPE_PORT = 5"
| "transfer_type_number PIGEN_TRANSFER_TYPE_FIFO = 6"
| "transfer_type_number PIGEN_TRANSFER_TYPE_SKID = 7"

text \<open>The cast \<open>(pigen_transfer_type)i\<close>.\<close>

definition transfer_type_of :: "nat \<Rightarrow> pigen_transfer_type" where
  "transfer_type_of i =
     [PIGEN_TRANSFER_TYPE_ABSTRACT, PIGEN_TRANSFER_TYPE_WIRE, PIGEN_TRANSFER_TYPE_REG,
      PIGEN_TRANSFER_TYPE_LOGIC, PIGEN_TRANSFER_TYPE_BUF, PIGEN_TRANSFER_TYPE_PORT,
      PIGEN_TRANSFER_TYPE_FIFO, PIGEN_TRANSFER_TYPE_SKID] ! i"

fun realization_number :: "pigen_transfer_realization \<Rightarrow> nat" where
  "realization_number PIGEN_TRANSFER_REALIZATION_INVALID = 0"
| "realization_number PIGEN_TRANSFER_REALIZATION_BOUNDARY = 1"
| "realization_number PIGEN_TRANSFER_REALIZATION_COMBINATIONAL_NET = 2"
| "realization_number PIGEN_TRANSFER_REALIZATION_PROCEDURAL_VARIABLE = 3"
| "realization_number PIGEN_TRANSFER_REALIZATION_ELASTIC_SLOT = 4"
| "realization_number PIGEN_TRANSFER_REALIZATION_PULSE_REGISTER = 5"
| "realization_number PIGEN_TRANSFER_REALIZATION_PARAMETERIZED_QUEUE = 6"
| "realization_number PIGEN_TRANSFER_REALIZATION_SKID_QUEUE = 7"

section \<open>The tables\<close>

definition realizations :: "pigen_transfer_realization_descriptor list" where
  "realizations =
     [\<lparr>capacity_source = PIGEN_TRANSFER_CAPACITY_INVALID, fixed_capacity = 0,
        ready_dependency = PIGEN_TRANSFER_READY_INVALID, has_occupancy = False, reset = PIGEN_TRANSFER_RESET_INVALID\<rparr>,
      \<lparr>capacity_source = PIGEN_TRANSFER_CAPACITY_NONE, fixed_capacity = 0,
        ready_dependency = PIGEN_TRANSFER_READY_EXTERNAL, has_occupancy = False, reset = PIGEN_TRANSFER_RESET_NONE\<rparr>,
      \<lparr>capacity_source = PIGEN_TRANSFER_CAPACITY_NONE, fixed_capacity = 0,
        ready_dependency = PIGEN_TRANSFER_READY_CONSTANT, has_occupancy = False, reset = PIGEN_TRANSFER_RESET_NONE\<rparr>,
      \<lparr>capacity_source = PIGEN_TRANSFER_CAPACITY_NONE, fixed_capacity = 0,
        ready_dependency = PIGEN_TRANSFER_READY_CONSTANT, has_occupancy = False, reset = PIGEN_TRANSFER_RESET_PROCEDURAL\<rparr>,
      \<lparr>capacity_source = PIGEN_TRANSFER_CAPACITY_FIXED, fixed_capacity = 1,
        ready_dependency = PIGEN_TRANSFER_READY_DOWNSTREAM, has_occupancy = True, reset = PIGEN_TRANSFER_RESET_EMPTY\<rparr>,
      \<lparr>capacity_source = PIGEN_TRANSFER_CAPACITY_FIXED, fixed_capacity = 1,
        ready_dependency = PIGEN_TRANSFER_READY_CONSTANT, has_occupancy = False, reset = PIGEN_TRANSFER_RESET_EMPTY\<rparr>,
      \<lparr>capacity_source = PIGEN_TRANSFER_CAPACITY_ARGUMENT, fixed_capacity = 0,
        ready_dependency = PIGEN_TRANSFER_READY_OCCUPANCY, has_occupancy = True, reset = PIGEN_TRANSFER_RESET_EMPTY\<rparr>,
      \<lparr>capacity_source = PIGEN_TRANSFER_CAPACITY_FIXED, fixed_capacity = 2,
        ready_dependency = PIGEN_TRANSFER_READY_OCCUPANCY, has_occupancy = True, reset = PIGEN_TRANSFER_RESET_EMPTY\<rparr>]"

definition transfer_types :: "pigen_transfer_type_descriptor list" where
  "transfer_types =
     [\<lparr>spelling = None, is_concrete = False, is_static = False, is_systemverilog_prefix = False,
        accepts_write = False, parameter = PIGEN_TRANSFER_PARAMETER_NONE,
        realization = PIGEN_TRANSFER_REALIZATION_BOUNDARY, valid_constant = - 1, ready_constant = - 1,
        consumes_on_read = - 1, produces_on_write = - 1, requires_ownership = - 1, binds_domain = - 1\<rparr>,
      \<lparr>spelling = Some ''wire'', is_concrete = True, is_static = True, is_systemverilog_prefix = True,
        accepts_write = False, parameter = PIGEN_TRANSFER_PARAMETER_NONE,
        realization = PIGEN_TRANSFER_REALIZATION_COMBINATIONAL_NET, valid_constant = 1, ready_constant = 0,
        consumes_on_read = 0, produces_on_write = 0, requires_ownership = 0, binds_domain = 0\<rparr>,
      \<lparr>spelling = Some ''reg'', is_concrete = True, is_static = True, is_systemverilog_prefix = True,
        accepts_write = True, parameter = PIGEN_TRANSFER_PARAMETER_NONE,
        realization = PIGEN_TRANSFER_REALIZATION_PROCEDURAL_VARIABLE, valid_constant = 1, ready_constant = 1,
        consumes_on_read = 0, produces_on_write = 0, requires_ownership = 0, binds_domain = 0\<rparr>,
      \<lparr>spelling = Some ''logic'', is_concrete = True, is_static = True, is_systemverilog_prefix = False,
        accepts_write = True, parameter = PIGEN_TRANSFER_PARAMETER_NONE,
        realization = PIGEN_TRANSFER_REALIZATION_PROCEDURAL_VARIABLE, valid_constant = 1, ready_constant = 1,
        consumes_on_read = 0, produces_on_write = 0, requires_ownership = 0, binds_domain = 0\<rparr>,
      \<lparr>spelling = Some ''buf'', is_concrete = True, is_static = False, is_systemverilog_prefix = False,
        accepts_write = True, parameter = PIGEN_TRANSFER_PARAMETER_NONE,
        realization = PIGEN_TRANSFER_REALIZATION_ELASTIC_SLOT, valid_constant = - 1, ready_constant = - 1,
        consumes_on_read = 1, produces_on_write = 1, requires_ownership = 1, binds_domain = 1\<rparr>,
      \<lparr>spelling = Some ''port'', is_concrete = True, is_static = False, is_systemverilog_prefix = False,
        accepts_write = True, parameter = PIGEN_TRANSFER_PARAMETER_NONE,
        realization = PIGEN_TRANSFER_REALIZATION_PULSE_REGISTER, valid_constant = - 1, ready_constant = 1,
        consumes_on_read = 1, produces_on_write = 1, requires_ownership = 1, binds_domain = 1\<rparr>,
      \<lparr>spelling = Some ''fifo'', is_concrete = True, is_static = False, is_systemverilog_prefix = False,
        accepts_write = True, parameter = PIGEN_TRANSFER_PARAMETER_DEPTH,
        realization = PIGEN_TRANSFER_REALIZATION_PARAMETERIZED_QUEUE, valid_constant = - 1, ready_constant = - 1,
        consumes_on_read = 1, produces_on_write = 1, requires_ownership = 1, binds_domain = 1\<rparr>,
      \<lparr>spelling = Some ''skid'', is_concrete = True, is_static = False, is_systemverilog_prefix = False,
        accepts_write = True, parameter = PIGEN_TRANSFER_PARAMETER_NONE,
        realization = PIGEN_TRANSFER_REALIZATION_SKID_QUEUE, valid_constant = - 1, ready_constant = - 1,
        consumes_on_read = 1, produces_on_write = 1, requires_ownership = 1, binds_domain = 1\<rparr>]"

section \<open>Lookups\<close>

definition pigen_transfer_realization_descriptor_get ::
    "pigen_transfer_realization \<Rightarrow> pigen_transfer_realization_descriptor option" where
  "pigen_transfer_realization_descriptor_get r =
     (if realization_number r \<ge> length realizations then None
      else
        let descriptor = realizations ! realization_number r
        in if capacity_source descriptor = PIGEN_TRANSFER_CAPACITY_INVALID \<or>
              ready_dependency descriptor = PIGEN_TRANSFER_READY_INVALID \<or>
              reset descriptor = PIGEN_TRANSFER_RESET_INVALID then None
           else if (capacity_source descriptor = PIGEN_TRANSFER_CAPACITY_FIXED) \<noteq>
              (fixed_capacity descriptor \<noteq> 0) then None
           else Some descriptor)"

definition pigen_transfer_realization_is_valid :: "pigen_transfer_realization \<Rightarrow> bool" where
  "pigen_transfer_realization_is_valid r \<longleftrightarrow> pigen_transfer_realization_descriptor_get r \<noteq> None"

definition pigen_transfer_type_is_valid :: "pigen_transfer_type \<Rightarrow> bool" where
  "pigen_transfer_type_is_valid t \<longleftrightarrow>
     transfer_type_number t < length transfer_types \<and>
     pigen_transfer_realization_is_valid (realization (transfer_types ! transfer_type_number t))"

definition pigen_transfer_type_descriptor_get ::
    "pigen_transfer_type \<Rightarrow> pigen_transfer_type_descriptor option" where
  "pigen_transfer_type_descriptor_get t =
     (if pigen_transfer_type_is_valid t then Some (transfer_types ! transfer_type_number t) else None)"

definition pigen_transfer_type_from_spelling :: "string \<Rightarrow> pigen_transfer_type option" where
  "pigen_transfer_type_from_spelling word1 =
     map_option transfer_type_of
       (first_index (\<lambda>i. pigen_transfer_type_is_valid (transfer_type_of i) \<and>
           (case spelling (transfer_types ! i) of None \<Rightarrow> False
            | Some s \<Rightarrow> length s = length word1 \<and> s = word1))
         [0..<length transfer_types])"

section \<open>The prototype's keywords\<close>

record pigen_prototype_transfer_descriptor =
  keyword :: string
  transfer_code :: char
  is_storage :: bool
  primitive_module :: "string option"

definition prototype_transfer_types :: "pigen_prototype_transfer_descriptor list" where
  "prototype_transfer_types =
     [\<lparr>keyword = ''wire'', transfer_code = CHR ''w'', is_storage = False, primitive_module = None\<rparr>,
      \<lparr>keyword = ''reg'', transfer_code = CHR ''r'', is_storage = False, primitive_module = None\<rparr>,
      \<lparr>keyword = ''logic'', transfer_code = CHR ''l'', is_storage = False, primitive_module = None\<rparr>,
      \<lparr>keyword = ''buf'', transfer_code = CHR ''b'', is_storage = True, primitive_module = Some ''pigen_buf''\<rparr>,
      \<lparr>keyword = ''fifo'', transfer_code = CHR ''f'', is_storage = True, primitive_module = Some ''pigen_fifo''\<rparr>,
      \<lparr>keyword = ''skid'', transfer_code = CHR ''s'', is_storage = True, primitive_module = Some ''pigen_skid''\<rparr>,
      \<lparr>keyword = ''port'', transfer_code = CHR ''h'', is_storage = True, primitive_module = Some ''pigen_port''\<rparr>,
      \<lparr>keyword = ''ingress'', transfer_code = CHR ''i'', is_storage = True, primitive_module = None\<rparr>]"

definition pigen_prototype_transfer_descriptor_get :: "char \<Rightarrow> pigen_prototype_transfer_descriptor option" where
  "pigen_prototype_transfer_descriptor_get code =
     map_option ((!) prototype_transfer_types)
       (first_index (\<lambda>d. transfer_code d = code) prototype_transfer_types)"

text \<open>No keyword is the result 0.\<close>

definition pigen_transfer_type_for_keyword :: "string \<Rightarrow> char" where
  "pigen_transfer_type_for_keyword word1 =
     (case first_index (\<lambda>d. pigen_is_word word1 (keyword d)) prototype_transfer_types of
        None \<Rightarrow> CHR 0x00
      | Some i \<Rightarrow> transfer_code (prototype_transfer_types ! i))"

section \<open>Facts\<close>

lemma transfer_type_of_number [simp]: "transfer_type_of (transfer_type_number t) = t"
  by (cases t) (simp_all add: transfer_type_of_def)

lemma transfer_type_number_lt: "transfer_type_number t < 8"
  by (cases t) simp_all

lemma length_transfer_types: "length transfer_types = 8"
  by (simp add: transfer_types_def)

lemma transfer_type_number_of: "i < 8 \<Longrightarrow> transfer_type_number (transfer_type_of i) = i"
  by (auto simp: transfer_type_of_def less_Suc_eq numeral_eq_Suc)

lemma transfer_type_valid [simp]: "pigen_transfer_type_is_valid t"
  by (cases t; simp add: pigen_transfer_type_is_valid_def pigen_transfer_realization_is_valid_def
      transfer_types_def pigen_transfer_realization_descriptor_get_def realizations_def)

lemma first_index_eqI:
  "i < length xs \<Longrightarrow> P (xs ! i) \<Longrightarrow> (\<And>j. j < i \<Longrightarrow> \<not> P (xs ! j)) \<Longrightarrow> first_index P xs = Some i"
proof (cases "first_index P xs")
  case None
  assume "i < length xs" "P (xs ! i)"
  with None show ?thesis by simp
next
  case (Some k)
  assume i: "P (xs ! i)" and before: "\<And>j. j < i \<Longrightarrow> \<not> P (xs ! j)"
  from first_index_Some [OF Some] i before show ?thesis by (metis Some linorder_neqE_nat)
qed

lemma spellings_distinct:
  assumes "i < 8" and "j < 8" and "spelling (transfer_types ! i) = Some s" and "spelling (transfer_types ! j) = Some s"
  shows "i = j"
proof -
  have "distinct (map spelling transfer_types)" by code_simp
  moreover have "map spelling transfer_types ! i = map spelling transfer_types ! j"
    using assms by (simp only: nth_map length_transfer_types)
  ultimately show ?thesis
    by (simp only: nth_eq_iff_index_eq length_map length_transfer_types assms(1,2))
qed

lemma from_spelling_iff:
  "pigen_transfer_type_from_spelling s = Some t \<longleftrightarrow> spelling (transfer_types ! transfer_type_number t) = Some s"
proof
  assume "pigen_transfer_type_from_spelling s = Some t"
  then obtain i where i: "first_index (\<lambda>i. case spelling (transfer_types ! i) of None \<Rightarrow> False
      | Some s' \<Rightarrow> length s' = length s \<and> s' = s) [0..<length transfer_types] = Some i" and t: "t = transfer_type_of i"
    by (auto simp: pigen_transfer_type_from_spelling_def)
  have "i < 8" using first_index_lt [OF i] by (simp add: length_transfer_types)
  with first_index_sat [OF i] t show "spelling (transfer_types ! transfer_type_number t) = Some s"
    by (simp add: length_transfer_types transfer_type_number_of split: option.splits)
next
  assume s: "spelling (transfer_types ! transfer_type_number t) = Some s"
  have "first_index (\<lambda>i. case spelling (transfer_types ! i) of None \<Rightarrow> False
      | Some s' \<Rightarrow> length s' = length s \<and> s' = s) [0..<length transfer_types] = Some (transfer_type_number t)"
  proof (rule first_index_eqI)
    show "transfer_type_number t < length [0..<length transfer_types]"
      using transfer_type_number_lt [of t] by (simp add: length_transfer_types)
    with s show "case spelling (transfer_types ! ([0..<length transfer_types] ! transfer_type_number t)) of
        None \<Rightarrow> False | Some s' \<Rightarrow> length s' = length s \<and> s' = s"
      by simp
    fix j
    assume j: "j < transfer_type_number t"
    then have "j < 8" using transfer_type_number_lt [of t] by simp
    then show "\<not> (case spelling (transfer_types ! ([0..<length transfer_types] ! j)) of
        None \<Rightarrow> False | Some s' \<Rightarrow> length s' = length s \<and> s' = s)"
      using spellings_distinct [OF _ transfer_type_number_lt _ s, of j] j
      by (auto simp: length_transfer_types split: option.splits simp del: upt_rec_numeral)
  qed
  then show "pigen_transfer_type_from_spelling s = Some t"
    by (simp add: pigen_transfer_type_from_spelling_def)
qed

section \<open>Properties\<close>

text \<open>
  C21: A spelling resolves to a transfer type exactly when it is that type's spelling: the two
  directions of the catalogue are inverse, and every concrete type has a spelling.
\<close>

theorem spelling_roundtrip:
  "(pigen_transfer_type_from_spelling s = Some t \<longleftrightarrow>
      map_option spelling (pigen_transfer_type_descriptor_get t) = Some (Some s)) \<and>
   (map_option is_concrete (pigen_transfer_type_descriptor_get t) = Some True \<longleftrightarrow>
      (\<exists>word1. pigen_transfer_type_from_spelling word1 = Some t))"
proof -
  have "is_concrete (transfer_types ! transfer_type_number t) \<longleftrightarrow>
      (\<exists>word1. spelling (transfer_types ! transfer_type_number t) = Some word1)"
    by (cases t) (simp_all add: transfer_types_def)
  then show ?thesis
    by (simp add: from_spelling_iff pigen_transfer_type_descriptor_get_def)
qed

text \<open>
  C22: The two front ends read the same keywords: a word that the prototype's table knows, other
  than the internal \<open>ingress\<close>, is the spelling of a transfer type, static exactly when the
  prototype has no storage for it, and conversely.
\<close>

theorem keyword_tables_agree:
  "(case pigen_transfer_type_from_spelling word1 of
      None \<Rightarrow> pigen_transfer_type_for_keyword word1 = CHR 0x00 \<or> word1 = ''ingress''
    | Some t \<Rightarrow>
        pigen_transfer_type_for_keyword word1 \<noteq> CHR 0x00 \<and>
        map_option (\<lambda>p. (keyword p, \<not> is_storage p))
          (pigen_prototype_transfer_descriptor_get (pigen_transfer_type_for_keyword word1)) =
        map_option (\<lambda>d. (word1, is_static d)) (pigen_transfer_type_descriptor_get t))"
proof (cases "word1 \<in> {''wire'', ''reg'', ''logic'', ''buf'', ''fifo'', ''skid'', ''port''}")
  case True
  then show ?thesis
    by (elim insertE emptyE) (simp only:, code_simp)+
next
  case False
  have "pigen_transfer_type_from_spelling word1 \<noteq> Some t" for t
    using False by (cases t) (auto simp: from_spelling_iff transfer_types_def)
  then have "pigen_transfer_type_from_spelling word1 = None" by (cases "pigen_transfer_type_from_spelling word1") auto
  with False show ?thesis
    by (auto simp: pigen_transfer_type_for_keyword_def prototype_transfer_types_def pigen_is_word_def)
qed

end
