(* ===== verification/SemanticModel.thy ===== *)
theory SemanticModel
  imports Powers RangeWidths Sources TransferTypes
begin

text \<open>
  The state of the semantic model (src/include/pigen/semantic.h): flat arenas of records that
  refer to each other by identity, next to the integer arena it extends. A tagged union is a
  datatype whose constructors carry the members; the capacities of the arrays are not
  represented, the model always has a source manager, and the buffers that only keep returned
  enumerations alive are left out.
\<close>

section \<open>Enumerations\<close>

datatype pigen_symbol_kind =
    PIGEN_SYMBOL_SIGNAL | PIGEN_SYMBOL_MODULE | PIGEN_SYMBOL_PARAMETER | PIGEN_SYMBOL_TYPEDEF
  | PIGEN_SYMBOL_PIPELINE | PIGEN_SYMBOL_STAGE | PIGEN_SYMBOL_FSM | PIGEN_SYMBOL_FABRIC

datatype pigen_semantic_direction =
    PIGEN_SEMANTIC_INTERNAL | PIGEN_SEMANTIC_INPUT | PIGEN_SEMANTIC_OUTPUT | PIGEN_SEMANTIC_INOUT

datatype pigen_semantic_edge = PIGEN_SEMANTIC_POSEDGE | PIGEN_SEMANTIC_NEGEDGE

type_synonym pigen_bit_state = "8 word"

datatype pigen_signedness =
    PIGEN_SIGN_INVALID | PIGEN_SIGN_IMPLICIT | PIGEN_SIGN_UNSIGNED | PIGEN_SIGN_SIGNED

datatype pigen_state_domain =
    PIGEN_DATA_TYPE_STATE_INVALID | PIGEN_DATA_TYPE_STATE_TWO | PIGEN_DATA_TYPE_STATE_FOUR

datatype data_type_constructor =
    PIGEN_DATA_TYPE_INVALID | PIGEN_DATA_TYPE_LOGIC | PIGEN_DATA_TYPE_BIT
  | PIGEN_DATA_TYPE_UNSIZED_INTEGER | PIGEN_DATA_TYPE_SIGNED_INTEGER
  | PIGEN_DATA_TYPE_UNSIGNED_INTEGER | PIGEN_DATA_TYPE_EXACT_INTEGER | PIGEN_DATA_TYPE_ALIAS

section \<open>Types, shapes, constants\<close>

record pigen_packed_dimension =
  dimension_left :: id
  dimension_right :: id

record pigen_data_type =
  data_constructor :: data_type_constructor
  data_signedness :: pigen_signedness
  data_alias :: id
  alias_target :: id
  intrinsic_width :: id
  data_exact_value :: id
  data_first_dimension :: nat
  data_dimension_count :: nat

datatype pigen_shape_dimension =
    PIGEN_SHAPE_DIMENSION_COUNT id
  | PIGEN_SHAPE_DIMENSION_RANGE id id

record pigen_semantic_shape =
  shape_first_dimension :: nat
  shape_dimension_count :: nat

datatype pigen_const_sequence_kind =
    PIGEN_CONST_EXPR_CONCATENATION | PIGEN_CONST_EXPR_WIDTH_SUM
  | PIGEN_CONST_EXPR_WIDTH_PRODUCT | PIGEN_CONST_EXPR_WIDTH_MAXIMUM

datatype pigen_const_expr_as =
    PIGEN_CONST_EXPR_INTEGER u64
  | PIGEN_CONST_EXPR_EXACT_INTEGER id
  | PIGEN_CONST_EXPR_BITS nat nat
  | PIGEN_CONST_EXPR_SYMBOL id
  | PIGEN_CONST_EXPR_UNARY pigen_unary_operation id
  | PIGEN_CONST_EXPR_BINARY pigen_binary_operation id id
  | PIGEN_CONST_EXPR_CONDITIONAL pigen_conditional_operation id id id
  | PIGEN_CONST_EXPR_CONVERSION pigen_conversion id
  | PIGEN_CONST_EXPR_INDEX id id
  | PIGEN_CONST_EXPR_SELECT id id id pigen_select_kind
  | PIGEN_CONST_EXPR_SELECT_WIDTH id id pigen_select_kind
  | PIGEN_CONST_EXPR_SEQUENCE pigen_const_sequence_kind nat nat
  | PIGEN_CONST_EXPR_NUMERICAL_RANGE_WIDTH pigen_numerical_range_width

record pigen_const_expr =
  const_data_type :: id
  const_as :: pigen_const_expr_as

section \<open>Expressions, predicates, lvalues\<close>

datatype pigen_semantic_expr_as =
    PIGEN_EXPR_INTEGER u64
  | PIGEN_EXPR_EXACT_INTEGER id
  | PIGEN_EXPR_BITS nat nat
  | PIGEN_EXPR_SYMBOL id
  | PIGEN_EXPR_GROUP id
  | PIGEN_EXPR_UNARY pigen_unary_operation id
  | PIGEN_EXPR_BINARY pigen_binary_operation id id
  | PIGEN_EXPR_CONDITIONAL pigen_conditional_operation id id id
  | PIGEN_EXPR_CONVERSION pigen_conversion id
  | PIGEN_EXPR_INDEX id id
  | PIGEN_EXPR_SELECT id id id pigen_select_kind
  | PIGEN_EXPR_CONCATENATION nat nat

record pigen_semantic_expr =
  expr_data_type :: id
  expr_shape :: id
  expr_span :: pigen_source_span
  expr_constant :: id
  expr_lvalue :: id
  expr_as :: pigen_semantic_expr_as

record pigen_predicate_atom =
  atom_condition :: id
  atom_expected :: bool

record pigen_predicate =
  first_atom :: nat
  atom_count :: nat
  impossible :: bool

datatype pigen_semantic_lvalue_as =
    PIGEN_LVALUE_PROJECTION id id
  | PIGEN_LVALUE_CONCATENATION nat nat

record pigen_semantic_lvalue =
  lvalue_expression :: id
  lvalue_data_type :: id
  lvalue_span :: pigen_source_span
  lvalue_as :: pigen_semantic_lvalue_as

section \<open>Scopes, symbols and the design\<close>

record pigen_scope =
  scope_parent :: id
  last_symbol :: id
  scope_span :: pigen_source_span

text \<open>The members of the union \<open>object\<close> are identities, of the object the symbol names.\<close>

record pigen_symbol =
  symbol_kind :: pigen_symbol_kind
  symbol_scope :: id
  previous_in_scope :: id
  symbol_data_type :: id
  symbol_name :: pigen_source_span
  symbol_declaration :: pigen_source_span
  symbol_object :: id

record pigen_semantic_module =
  module_syntax :: id
  module_symbol :: id
  module_scope :: id
  module_span :: pigen_source_span

record pigen_semantic_parameter =
  parameter_syntax :: id
  parameter_module :: id
  parameter_symbol :: id
  parameter_value :: id
  parameter_is_local :: int
  parameter_span :: pigen_source_span

record pigen_semantic_signal =
  signal_syntax :: id
  signal_module :: id
  signal_symbol :: id
  signal_data_type :: id
  signal_shape :: id
  signal_transfer_argument :: id
  signal_transfer_type :: pigen_transfer_type
  signal_direction :: pigen_semantic_direction
  signal_domain :: id
  signal_span :: pigen_source_span

record pigen_semantic_clock_domain =
  clock_symbol :: id
  clock_edge :: pigen_semantic_edge

record pigen_width_constraint =
  constraint_width :: id
  maximum_bits :: nat
  constraint_span :: pigen_source_span

record pigen_semantic_process =
  process_syntax :: id
  process_module :: id
  process_domain :: id
  process_clock :: id
  process_span :: pigen_source_span

record pigen_semantic_transfer =
  transfer_syntax :: id
  transfer_module :: id
  transfer_process :: id
  transfer_destination :: id
  transfer_value :: id
  transfer_guard :: id
  transfer_domain :: id
  first_signal_use :: nat
  signal_use_count :: nat
  transfer_span :: pigen_source_span

text \<open>The roles are a bit set: read 1, write 2, consumer 4, producer 8.\<close>

record pigen_transfer_signal_use =
  use_signal :: id
  use_roles :: "32 word"

section \<open>The model\<close>

record pigen_semantic_model = integer_arena +
  sources :: pigen_source_manager
  data_types :: "pigen_data_type list"
  data_type_dimensions :: "pigen_packed_dimension list"
  shapes :: "pigen_semantic_shape list"
  shape_dimensions :: "pigen_shape_dimension list"
  scopes :: "pigen_scope list"
  symbols_arena :: "pigen_symbol list"
  expressions :: "pigen_semantic_expr list"
  expression_children :: "id list"
  constant_expressions :: "pigen_const_expr list"
  constant_expression_children :: "id list"
  literal_states :: "pigen_bit_state list"
  predicates :: "pigen_predicate list"
  predicate_atoms :: "pigen_predicate_atom list"
  lvalues :: "pigen_semantic_lvalue list"
  lvalue_children :: "id list"
  modules :: "pigen_semantic_module list"
  parameters :: "pigen_semantic_parameter list"
  signals :: "pigen_semantic_signal list"
  clock_domains :: "pigen_semantic_clock_domain list"
  processes :: "pigen_semantic_process list"
  transfers :: "pigen_semantic_transfer list"
  transfer_signal_uses :: "pigen_transfer_signal_use list"
  width_constraints :: "pigen_width_constraint list"
  compilation_scope :: id
  unsized_integer_data_type :: id
  boolean_data_type :: id
  scalar_shape :: id
  true_predicate :: id
  false_predicate :: id

definition pigen_semantic_init :: "pigen_source_manager \<Rightarrow> pigen_semantic_model" where
  "pigen_semantic_init manager =
     \<lparr>integers = [], integer_limbs = [], sources = manager, data_types = [],
      data_type_dimensions = [], shapes = [], shape_dimensions = [], scopes = [], symbols_arena = [],
      expressions = [], expression_children = [], constant_expressions = [],
      constant_expression_children = [], literal_states = [], predicates = [],
      predicate_atoms = [], lvalues = [], lvalue_children = [], modules = [], parameters = [],
      signals = [], clock_domains = [], processes = [], transfers = [], transfer_signal_uses = [],
      width_constraints = [], compilation_scope = PIGEN_INVALID_ID,
      unsized_integer_data_type = PIGEN_INVALID_ID, boolean_data_type = PIGEN_INVALID_ID,
      scalar_shape = PIGEN_INVALID_ID, true_predicate = PIGEN_INVALID_ID,
      false_predicate = PIGEN_INVALID_ID\<rparr>"

section \<open>Lookup by identity\<close>

text \<open>Every \<open>..._get\<close> of the sources: the invalid identity and indices past the count give \<open>NULL\<close>.\<close>

definition arena_get :: "'a list \<Rightarrow> id \<Rightarrow> 'a option" where
  "arena_get xs i = (if i = PIGEN_INVALID_ID \<or> i \<ge> length xs then None else Some (xs ! i))"

lemma arena_get_Some [arena_simps]:
  "arena_get xs i = Some x \<longleftrightarrow> i \<noteq> PIGEN_INVALID_ID \<and> i < length xs \<and> x = xs ! i"
  by (auto simp: arena_get_def)

lemma arena_get_append: "arena_get xs i = Some x \<Longrightarrow> arena_get (xs @ ys) i = Some x"
  by (auto simp: arena_get_def nth_append split: if_splits)

lemma arena_get_invalid [simp]: "arena_get xs PIGEN_INVALID_ID = None"
  by (simp add: arena_get_def)

lemma arena_get_new [simp]: "length xs < PIGEN_INVALID_ID \<Longrightarrow> arena_get (xs @ [x]) (length xs) = Some x"
  by (simp add: arena_get_def)

abbreviation id_capacity_available :: "nat \<Rightarrow> bool" where
  "id_capacity_available count \<equiv> count < PIGEN_INVALID_ID"

definition pigen_shape_get :: "pigen_semantic_model \<Rightarrow> id \<Rightarrow> pigen_semantic_shape option" where
  "pigen_shape_get model i = arena_get (shapes model) i"

definition pigen_const_expr_get :: "pigen_semantic_model \<Rightarrow> id \<Rightarrow> pigen_const_expr option" where
  "pigen_const_expr_get model i = arena_get (constant_expressions model) i"

definition pigen_expr_get :: "pigen_semantic_model \<Rightarrow> id \<Rightarrow> pigen_semantic_expr option" where
  "pigen_expr_get model i = arena_get (expressions model) i"

definition pigen_lvalue_get :: "pigen_semantic_model \<Rightarrow> id \<Rightarrow> pigen_semantic_lvalue option" where
  "pigen_lvalue_get model i = arena_get (lvalues model) i"

definition pigen_scope_get :: "pigen_semantic_model \<Rightarrow> id \<Rightarrow> pigen_scope option" where
  "pigen_scope_get model i = arena_get (scopes model) i"

definition pigen_symbol_get :: "pigen_semantic_model \<Rightarrow> id \<Rightarrow> pigen_symbol option" where
  "pigen_symbol_get model i = arena_get (symbols_arena model) i"

definition pigen_module_get :: "pigen_semantic_model \<Rightarrow> id \<Rightarrow> pigen_semantic_module option" where
  "pigen_module_get model i = arena_get (modules model) i"

definition pigen_parameter_get :: "pigen_semantic_model \<Rightarrow> id \<Rightarrow> pigen_semantic_parameter option" where
  "pigen_parameter_get model i = arena_get (parameters model) i"

definition pigen_signal_get :: "pigen_semantic_model \<Rightarrow> id \<Rightarrow> pigen_semantic_signal option" where
  "pigen_signal_get model i = arena_get (signals model) i"

definition pigen_clock_domain_get :: "pigen_semantic_model \<Rightarrow> id \<Rightarrow> pigen_semantic_clock_domain option" where
  "pigen_clock_domain_get model i = arena_get (clock_domains model) i"

definition pigen_process_get :: "pigen_semantic_model \<Rightarrow> id \<Rightarrow> pigen_semantic_process option" where
  "pigen_process_get model i = arena_get (processes model) i"

definition pigen_transfer_get :: "pigen_semantic_model \<Rightarrow> id \<Rightarrow> pigen_semantic_transfer option" where
  "pigen_transfer_get model i = arena_get (transfers model) i"

definition pigen_predicate_get :: "pigen_semantic_model \<Rightarrow> id \<Rightarrow> pigen_predicate option" where
  "pigen_predicate_get model i = arena_get (predicates model) i"

definition data_type_get :: "pigen_semantic_model \<Rightarrow> id \<Rightarrow> pigen_data_type option" where
  "data_type_get model i = arena_get (data_types model) i"

definition pigen_data_type_exists :: "pigen_semantic_model \<Rightarrow> id \<Rightarrow> bool" where
  "pigen_data_type_exists model i \<longleftrightarrow> data_type_get model i \<noteq> None"

lemmas model_get_defs =
  pigen_shape_get_def pigen_const_expr_get_def pigen_expr_get_def pigen_lvalue_get_def
  pigen_scope_get_def pigen_symbol_get_def pigen_module_get_def pigen_parameter_get_def
  pigen_signal_get_def pigen_clock_domain_get_def pigen_process_get_def pigen_transfer_get_def
  pigen_predicate_get_def data_type_get_def pigen_data_type_exists_def

text \<open>
  The part \<open>[first, first + count)\<close> of a children array, when it lies inside the array.
\<close>

definition children_slice :: "'a list \<Rightarrow> nat \<Rightarrow> nat \<Rightarrow> 'a list option" where
  "children_slice xs first count =
     (if first > length xs \<or> count > length xs - first then None else Some (slice first count xs))"

definition pigen_const_expr_children :: "pigen_semantic_model \<Rightarrow> nat \<Rightarrow> nat \<Rightarrow> id list option" where
  "pigen_const_expr_children model first count =
     children_slice (constant_expression_children model) first count"

definition pigen_expr_children :: "pigen_semantic_model \<Rightarrow> nat \<Rightarrow> nat \<Rightarrow> id list option" where
  "pigen_expr_children model first count = children_slice (expression_children model) first count"

definition pigen_lvalue_children :: "pigen_semantic_model \<Rightarrow> nat \<Rightarrow> nat \<Rightarrow> id list option" where
  "pigen_lvalue_children model first count = children_slice (lvalue_children model) first count"

section \<open>Spans\<close>

definition span_contains :: "pigen_source_span \<Rightarrow> pigen_source_span \<Rightarrow> bool" where
  "span_contains outer inner \<longleftrightarrow>
     span_source outer = span_source inner \<and> span_start outer \<le> span_start inner \<and>
     span_end inner \<le> span_end outer"

definition spans_equal :: "pigen_source_span \<Rightarrow> pigen_source_span \<Rightarrow> bool" where
  "spans_equal left right \<longleftrightarrow>
     span_source left = span_source right \<and> span_start left = span_start right \<and>
     span_end left = span_end right"

definition same_name :: "pigen_semantic_model \<Rightarrow> pigen_source_span \<Rightarrow> pigen_source_span \<Rightarrow> bool" where
  "same_name model left right \<longleftrightarrow>
     (case (pigen_source_span_text (sources model) left, pigen_source_span_text (sources model) right) of
        (Some l, Some r) \<Rightarrow> length l = length r \<and> l = r
      | _ \<Rightarrow> False)"

definition pigen_width_constraint_add ::
    "pigen_semantic_model \<Rightarrow> id \<Rightarrow> nat \<Rightarrow> pigen_source_span \<Rightarrow> bool \<times> pigen_semantic_model" where
  "pigen_width_constraint_add model width bits sp =
     (if pigen_const_expr_get model width = None \<or> bits = 0 \<or> \<not> pigen_source_span_valid (sources model) sp
      then (False, model)
      else (True, model\<lparr>width_constraints := width_constraints model @
        [\<lparr>constraint_width = width, maximum_bits = bits, constraint_span = sp\<rparr>]\<rparr>))"

definition pigen_width_constraint_get :: "pigen_semantic_model \<Rightarrow> nat \<Rightarrow> pigen_width_constraint option" where
  "pigen_width_constraint_get model i =
     (if i < length (width_constraints model) then Some (width_constraints model ! i) else None)"

lemma spans_equal_iff [simp]: "spans_equal a b \<longleftrightarrow> a = b"
  by (cases a; cases b) (auto simp: spans_equal_def)

lemma same_name_sym: "same_name m a b \<Longrightarrow> same_name m b a"
  by (auto simp: same_name_def split: option.splits)

lemma same_name_trans: "same_name m a b \<Longrightarrow> same_name m b c \<Longrightarrow> same_name m a c"
  by (auto simp: same_name_def split: option.splits)

end
