(* ===== verification/Scopes.thy ===== *)
theory Scopes
  imports SemanticModel
begin

text \<open>
  Lexical scopes and symbols of src/src/semantic.c. The loops that follow \<open>previous_in_scope\<close> and
  \<open>parent\<close> links end only on well-formed chains, so they are partial functions whose value \<open>None\<close>
  stands for not returning; the invariant of the scope arena makes them total.
\<close>

datatype pigen_declare_result = PIGEN_DECLARE_INVALID | PIGEN_DECLARE_OK | PIGEN_DECLARE_DUPLICATE

definition pigen_scope_add ::
    "pigen_semantic_model \<Rightarrow> id \<Rightarrow> pigen_source_span \<Rightarrow> id \<times> pigen_semantic_model" where
  "pigen_scope_add model parent sp =
     (let span_valid = (if span_source sp = PIGEN_INVALID_ID then span_start sp = 0 \<and> span_end sp = 0
            else pigen_source_span_valid (sources model) sp)
      in if \<not> span_valid \<or> (parent \<noteq> PIGEN_INVALID_ID \<and> parent \<ge> length (scopes model)) \<or>
           \<not> id_capacity_available (length (scopes model))
         then (PIGEN_INVALID_ID, model)
         else (u32 (length (scopes model)),
           model\<lparr>scopes := scopes model @
             [\<lparr>scope_parent = parent, last_symbol = PIGEN_INVALID_ID, scope_span = sp\<rparr>]\<rparr>))"

partial_function (option) lookup_chain :: "pigen_semantic_model \<Rightarrow> pigen_source_span \<Rightarrow> id \<Rightarrow> id option" where
  "lookup_chain model name at =
     (if at = PIGEN_INVALID_ID then Some PIGEN_INVALID_ID
      else if same_name model (symbol_name (symbols_arena model ! at)) name then Some at
      else lookup_chain model name (previous_in_scope (symbols_arena model ! at)))"

definition lookup_local :: "pigen_semantic_model \<Rightarrow> id \<Rightarrow> pigen_source_span \<Rightarrow> id option" where
  "lookup_local model scope name = lookup_chain model name (last_symbol (scopes model ! scope))"

partial_function (option) pigen_symbol_lookup ::
    "pigen_semantic_model \<Rightarrow> id \<Rightarrow> pigen_source_span \<Rightarrow> id option" where
  "pigen_symbol_lookup model scope name =
     (case pigen_scope_get model scope of
        None \<Rightarrow> Some PIGEN_INVALID_ID
      | Some known \<Rightarrow>
          Option.bind (lookup_local model scope name) (\<lambda>found.
            if found \<noteq> PIGEN_INVALID_ID then Some found
            else pigen_symbol_lookup model (scope_parent known) name))"

text \<open>Whether the kind needs a data type, and whether it must not have one.\<close>

definition typed_symbol_kind :: "pigen_symbol_kind \<Rightarrow> bool" where
  "typed_symbol_kind kind \<longleftrightarrow>
     kind = PIGEN_SYMBOL_SIGNAL \<or> kind = PIGEN_SYMBOL_PARAMETER \<or> kind = PIGEN_SYMBOL_TYPEDEF"

definition pigen_symbol_declare ::
    "pigen_semantic_model \<Rightarrow> id \<Rightarrow> pigen_symbol_kind \<Rightarrow> id \<Rightarrow> pigen_source_span \<Rightarrow> pigen_source_span \<Rightarrow>
     ((pigen_declare_result \<times> id \<times> id) \<times> pigen_semantic_model) option" where
  "pigen_symbol_declare model scope kind data_type name declaration =
     (if pigen_scope_get model scope = None \<or>
         (typed_symbol_kind kind \<and> \<not> pigen_data_type_exists model data_type) \<or>
         (\<not> typed_symbol_kind kind \<and> data_type \<noteq> PIGEN_INVALID_ID) \<or>
         \<not> pigen_source_span_valid (sources model) name \<or> span_start name = span_end name \<or>
         \<not> pigen_source_span_valid (sources model) declaration \<or>
         \<not> span_contains declaration name \<or> \<not> id_capacity_available (length (symbols_arena model))
      then Some ((PIGEN_DECLARE_INVALID, PIGEN_INVALID_ID, PIGEN_INVALID_ID), model)
      else Option.bind (lookup_local model scope name) (\<lambda>existing.
        if existing \<noteq> PIGEN_INVALID_ID
        then Some ((PIGEN_DECLARE_DUPLICATE, existing, PIGEN_INVALID_ID), model)
        else
          let owner = scopes model ! scope
          in Option.bind
               (if scope_parent owner \<noteq> PIGEN_INVALID_ID
                then pigen_symbol_lookup model (scope_parent owner) name else Some PIGEN_INVALID_ID)
               (\<lambda>shadowed.
                 let result = u32 (length (symbols_arena model));
                     symbol = \<lparr>symbol_kind = kind, symbol_scope = scope,
                       previous_in_scope = last_symbol owner, symbol_data_type = data_type,
                       symbol_name = name, symbol_declaration = declaration,
                       symbol_object = PIGEN_INVALID_ID\<rparr>
                 in Some ((PIGEN_DECLARE_OK, result, shadowed),
                      model\<lparr>symbols_arena := symbols_arena model @ [symbol],
                        scopes := (scopes model)[scope := owner\<lparr>last_symbol := result\<rparr>]\<rparr>))))"

partial_function (option) scope_is_within :: "pigen_semantic_model \<Rightarrow> id \<Rightarrow> id \<Rightarrow> bool option" where
  "scope_is_within model scope ancestor =
     (case pigen_scope_get model scope of
        None \<Rightarrow> Some False
      | Some known \<Rightarrow>
          if scope = ancestor then Some True else scope_is_within model (scope_parent known) ancestor)"

section \<open>The invariant\<close>

text \<open>The last symbol of a scope among the first \<open>k\<close>.\<close>

fun last_before :: "pigen_symbol list \<Rightarrow> id \<Rightarrow> nat \<Rightarrow> id" where
  "last_before syms s 0 = PIGEN_INVALID_ID"
| "last_before syms s (Suc k) = (if symbol_scope (syms ! k) = s then k else last_before syms s k)"

definition declares :: "pigen_semantic_model \<Rightarrow> id \<Rightarrow> pigen_source_span \<Rightarrow> id \<Rightarrow> bool" where
  "declares m s name i \<longleftrightarrow>
     i < length (symbols_arena m) \<and> symbol_scope (symbols_arena m ! i) = s \<and>
     same_name m (symbol_name (symbols_arena m ! i)) name"

definition scope_inv :: "pigen_semantic_model \<Rightarrow> bool" where
  "scope_inv m \<longleftrightarrow>
     length (scopes m) \<le> PIGEN_INVALID_ID \<and> length (symbols_arena m) \<le> PIGEN_INVALID_ID \<and>
     (\<forall>s < length (scopes m). scope_parent (scopes m ! s) = PIGEN_INVALID_ID \<or> scope_parent (scopes m ! s) < s) \<and>
     (\<forall>s < length (scopes m). last_symbol (scopes m ! s) = last_before (symbols_arena m) s (length (symbols_arena m))) \<and>
     (\<forall>i < length (symbols_arena m). symbol_scope (symbols_arena m ! i) < length (scopes m) \<and>
        previous_in_scope (symbols_arena m ! i) = last_before (symbols_arena m) (symbol_scope (symbols_arena m ! i)) i) \<and>
     (\<forall>i < length (symbols_arena m). \<forall>s. declares m s (symbol_name (symbols_arena m ! i)) i \<longrightarrow>
        (\<forall>j. declares m s (symbol_name (symbols_arena m ! i)) j \<longrightarrow> j = i))"

text \<open>\<open>visible m s name i\<close>: symbol \<open>i\<close> is what \<open>name\<close> means in scope \<open>s\<close>, the innermost declaration.\<close>

inductive visible :: "pigen_semantic_model \<Rightarrow> id \<Rightarrow> pigen_source_span \<Rightarrow> id \<Rightarrow> bool" for m where
  visible_here: "s < length (scopes m) \<Longrightarrow> declares m s name i \<Longrightarrow> visible m s name i"
| visible_outer: "s < length (scopes m) \<Longrightarrow> (\<And>j. \<not> declares m s name j) \<Longrightarrow>
    visible m (scope_parent (scopes m ! s)) name i \<Longrightarrow> visible m s name i"

inductive_cases visibleE: "visible m s name i"

section \<open>Lookup\<close>

lemma lookup_chain_simps [simp]:
  "lookup_chain m name PIGEN_INVALID_ID = Some PIGEN_INVALID_ID"
  "at \<noteq> PIGEN_INVALID_ID \<Longrightarrow> lookup_chain m name at =
     (if same_name m (symbol_name (symbols_arena m ! at)) name then Some at
      else lookup_chain m name (previous_in_scope (symbols_arena m ! at)))"
  by (simp_all add: lookup_chain.simps)

lemma last_before_lt: "last_before syms s k \<noteq> PIGEN_INVALID_ID \<Longrightarrow> last_before syms s k < k"
  by (induction k) (auto split: if_splits)

lemma lookup_chain:
  assumes "scope_inv m"
  shows "k \<le> length (symbols_arena m) \<Longrightarrow> \<exists>r. lookup_chain m name (last_before (symbols_arena m) s k) = Some r \<and>
    (if r = PIGEN_INVALID_ID then \<forall>i < k. \<not> declares m s name i else r < k \<and> declares m s name r)"
proof (induction k)
  case 0
  then show ?case by simp
next
  case (Suc k)
  then obtain r where r: "lookup_chain m name (last_before (symbols_arena m) s k) = Some r"
    "if r = PIGEN_INVALID_ID then \<forall>i < k. \<not> declares m s name i else r < k \<and> declares m s name r"
    by auto
  have k: "k < length (symbols_arena m)" "k \<noteq> PIGEN_INVALID_ID"
    using Suc.prems assms by (auto simp: scope_inv_def)
  show ?case
  proof (cases "symbol_scope (symbols_arena m ! k) = s")
    case True
    then have prev: "previous_in_scope (symbols_arena m ! k) = last_before (symbols_arena m) s k"
      using assms k by (auto simp: scope_inv_def)
    show ?thesis
      using True k r prev by (auto simp: declares_def less_Suc_eq split: if_splits)
  next
    case False
    with r k show ?thesis by (auto simp: declares_def less_Suc_eq split: if_splits)
  qed
qed

lemma lookup_local:
  assumes "scope_inv m" and "s < length (scopes m)"
  shows "\<exists>r. lookup_local m s name = Some r \<and>
    (if r = PIGEN_INVALID_ID then \<forall>i. \<not> declares m s name i else declares m s name r)"
proof -
  have "last_symbol (scopes m ! s) = last_before (symbols_arena m) s (length (symbols_arena m))"
    using assms by (simp add: scope_inv_def)
  with lookup_chain [OF assms(1) order.refl, of name s] show ?thesis
    by (auto simp: lookup_local_def declares_def split: if_splits)
qed

lemma declares_unique:
  assumes "scope_inv m" and "declares m s name i" and "declares m s name j"
  shows "i = j"
proof -
  let ?n = "symbol_name (symbols_arena m ! i)"
  have "same_name m ?n ?n" "same_name m (symbol_name (symbols_arena m ! j)) ?n"
    using assms(2,3) by (auto simp: declares_def intro: same_name_trans same_name_sym)
  with assms show ?thesis by (auto simp: declares_def scope_inv_def)
qed

lemma visible_unique: "visible m s name i \<Longrightarrow> scope_inv m \<Longrightarrow> visible m s name j \<Longrightarrow> i = j"
proof (induction arbitrary: j rule: visible.induct)
  case (visible_here s name i)
  from visible_here.prems(2) show ?case
    by (rule visibleE) (use visible_here declares_unique in blast)+
next
  case (visible_outer s name i)
  from visible_outer.prems(2) show ?case
    by (rule visibleE) (use visible_outer in blast)+
qed

lemma symbol_lookup:
  assumes inv: "scope_inv m"
  shows "\<exists>r. pigen_symbol_lookup m s name = Some r \<and>
    (if r = PIGEN_INVALID_ID then \<forall>i. \<not> visible m s name i else visible m s name r)"
proof (induction s rule: less_induct)
  case (less s)
  show ?case
  proof (cases "pigen_scope_get m s")
    case None
    then have "\<not> s < length (scopes m)" using inv by (auto simp: model_get_defs arena_get_def scope_inv_def)
    with None show ?thesis by (auto simp: pigen_symbol_lookup.simps elim: visibleE)
  next
    case (Some known)
    then have s: "s < length (scopes m)" "known = scopes m ! s"
      by (auto simp: model_get_defs arena_get_Some)
    from lookup_local [OF inv s(1), of name] obtain f where f: "lookup_local m s name = Some f"
      "if f = PIGEN_INVALID_ID then \<forall>i. \<not> declares m s name i else declares m s name f" by blast
    show ?thesis
    proof (cases "f = PIGEN_INVALID_ID")
      case False
      with f Some s show ?thesis by (auto simp: pigen_symbol_lookup.simps [of m s] intro: visible_here)
    next
      case True
      let ?p = "scope_parent (scopes m ! s)"
      have "\<exists>r. pigen_symbol_lookup m ?p name = Some r \<and>
          (if r = PIGEN_INVALID_ID then \<forall>i. \<not> visible m ?p name i else visible m ?p name r)"
      proof (cases "?p = PIGEN_INVALID_ID")
        case True
        then have "pigen_symbol_lookup m ?p name = Some PIGEN_INVALID_ID"
          by (simp add: pigen_symbol_lookup.simps model_get_defs)
        moreover have "\<not> visible m ?p name i" for i
          using True inv by (auto simp: scope_inv_def elim: visibleE)
        ultimately show ?thesis by simp
      next
        case False
        with s inv have "?p < s" by (auto simp: scope_inv_def)
        then show ?thesis by (rule less.IH)
      qed
      then obtain r where r: "pigen_symbol_lookup m ?p name = Some r"
        "if r = PIGEN_INVALID_ID then \<forall>i. \<not> visible m ?p name i else visible m ?p name r" by blast
      have "pigen_symbol_lookup m s name = Some r"
        using Some s f(1) True r(1) by (simp add: pigen_symbol_lookup.simps [of m s])
      moreover have "if r = PIGEN_INVALID_ID then \<forall>i. \<not> visible m s name i else visible m s name r"
        using r(2) f(2) True s(1) by (auto intro: visible_outer elim: visibleE split: if_splits)
      ultimately show ?thesis by blast
    qed
  qed
qed

lemma visible_valid: "visible m s name i \<Longrightarrow> scope_inv m \<Longrightarrow> i \<noteq> PIGEN_INVALID_ID"
  by (induction rule: visible.induct) (auto simp: declares_def scope_inv_def)

lemma symbol_lookup_eq:
  assumes "scope_inv m"
  shows "pigen_symbol_lookup m s name = Some r \<longleftrightarrow>
    (if r = PIGEN_INVALID_ID then \<forall>i. \<not> visible m s name i else visible m s name r)"
proof -
  obtain r' where r': "pigen_symbol_lookup m s name = Some r'"
    "if r' = PIGEN_INVALID_ID then \<forall>i. \<not> visible m s name i else visible m s name r'"
    using symbol_lookup [OF assms] by blast
  show ?thesis
  proof (cases "r = r'")
    case True
    with r' show ?thesis by simp
  next
    case False
    have "\<not> (if r = PIGEN_INVALID_ID then \<forall>i. \<not> visible m s name i else visible m s name r)"
    proof (cases "r' = PIGEN_INVALID_ID")
      case True
      with r'(2) False show ?thesis by simp
    next
      case valid: False
      then have v: "visible m s name r'" using r'(2) by simp
      with False show ?thesis using visible_unique [OF v assms, of r] by auto
    qed
    with r'(1) False show ?thesis by simp
  qed
qed

section \<open>Adding scopes and symbols\<close>

lemma last_before_none: "(\<forall>i < k. symbol_scope (syms ! i) \<noteq> s) \<Longrightarrow> last_before syms s k = PIGEN_INVALID_ID"
  by (induction k) auto

lemma last_before_append: "k \<le> length syms \<Longrightarrow> last_before (syms @ ys) s k = last_before syms s k"
  by (induction k) (auto simp: nth_append)

lemma same_name_cong: "sources m' = sources m \<Longrightarrow> same_name m' = same_name m"
  by (intro ext) (simp add: same_name_def)

lemma declares_cong:
  "sources m' = sources m \<Longrightarrow> symbols_arena m' = symbols_arena m \<Longrightarrow> declares m' = declares m"
  using same_name_cong [of m' m] by (intro ext) (simp add: declares_def)

lemma scope_inv_cong:
  "sources m' = sources m \<Longrightarrow> symbols_arena m' = symbols_arena m \<Longrightarrow> scopes m' = scopes m \<Longrightarrow>
   scope_inv m' = scope_inv m"
  using declares_cong [of m' m] by (simp add: scope_inv_def)

lemma scope_add:
  assumes inv: "scope_inv m" and run: "pigen_scope_add m parent sp = (i, m')"
  shows "scope_inv m' \<and> symbols_arena m' = symbols_arena m \<and> sources m' = sources m \<and>
    (if i = PIGEN_INVALID_ID then m' = m
     else i = length (scopes m) \<and>
       scopes m' = scopes m @ [\<lparr>scope_parent = parent, last_symbol = PIGEN_INVALID_ID, scope_span = sp\<rparr>])"
proof (cases "i = PIGEN_INVALID_ID")
  case True
  then have "m' = m" using run by (auto simp: pigen_scope_add_def Let_def split: if_splits)
  with inv True show ?thesis by simp
next
  case False
  let ?m = "m\<lparr>scopes := scopes m @ [\<lparr>scope_parent = parent, last_symbol = PIGEN_INVALID_ID, scope_span = sp\<rparr>]\<rparr>"
  have m': "m' = ?m" "i = length (scopes m)" "length (scopes m) < PIGEN_INVALID_ID"
    and parent: "parent = PIGEN_INVALID_ID \<or> parent < length (scopes m)"
    using run False by (auto simp: pigen_scope_add_def Let_def split: if_splits)
  have none: "last_before (symbols_arena m) (length (scopes m)) (length (symbols_arena m)) = PIGEN_INVALID_ID"
    using inv by (intro last_before_none) (auto simp: scope_inv_def)
  have d: "declares ?m = declares m" by (rule declares_cong) simp_all
  have "scope_inv ?m"
    unfolding scope_inv_def d
    using inv none parent m'(3) by (simp add: scope_inv_def nth_append less_Suc_eq)
  with m' False show ?thesis by simp
qed

definition declared_model ::
    "pigen_semantic_model \<Rightarrow> id \<Rightarrow> pigen_symbol_kind \<Rightarrow> id \<Rightarrow> pigen_source_span \<Rightarrow> pigen_source_span \<Rightarrow>
     pigen_semantic_model" where
  "declared_model m s kind data_type name declaration =
     m\<lparr>symbols_arena := symbols_arena m @
         [\<lparr>symbol_kind = kind, symbol_scope = s, previous_in_scope = last_symbol (scopes m ! s),
           symbol_data_type = data_type, symbol_name = name, symbol_declaration = declaration,
           symbol_object = PIGEN_INVALID_ID\<rparr>],
       scopes := (scopes m)[s := (scopes m ! s)\<lparr>last_symbol := length (symbols_arena m)\<rparr>]\<rparr>"

lemma declares_declared:
  "declares (declared_model m s kind dt name decl) t nm i \<longleftrightarrow>
     declares m t nm i \<or> (i = length (symbols_arena m) \<and> t = s \<and> same_name m name nm)"
proof -
  have "same_name (declared_model m s kind dt name decl) = same_name m"
    by (rule same_name_cong) (simp add: declared_model_def)
  then show ?thesis
    by (cases "i < length (symbols_arena m)") (auto simp: declares_def declared_model_def nth_append)
qed

lemma declared_inv:
  assumes inv: "scope_inv m" and s: "s < length (scopes m)" and fresh: "\<forall>i. \<not> declares m s name i"
    and n: "length (symbols_arena m) < PIGEN_INVALID_ID"
  shows "scope_inv (declared_model m s kind dt name decl)" (is "scope_inv ?m")
proof -
  let ?syms = "symbols_arena m" and ?n = "length (symbols_arena m)"
  have syms: "symbols_arena ?m ! i = ?syms ! i" if "i < ?n" for i
    using that by (simp add: declared_model_def nth_append)
  have new: "symbol_scope (symbols_arena ?m ! ?n) = s" "symbol_name (symbols_arena ?m ! ?n) = name"
    "previous_in_scope (symbols_arena ?m ! ?n) = last_symbol (scopes m ! s)"
    "length (symbols_arena ?m) = Suc ?n"
    by (simp_all add: declared_model_def)
  have last: "last_before (symbols_arena ?m) t k = last_before ?syms t k" if "k \<le> ?n" for t k
    using that by (simp add: declared_model_def last_before_append)
  have parts: "length (scopes ?m) = length (scopes m)"
    "scope_parent (scopes ?m ! t) = scope_parent (scopes m ! t)"
    "last_symbol (scopes ?m ! t) = (if t = s then ?n else last_symbol (scopes m ! t))" for t
    using s by (auto simp: declared_model_def nth_list_update)
  have links: "last_symbol (scopes m ! t) = last_before ?syms t ?n" if "t < length (scopes m)" for t
    using inv that by (simp add: scope_inv_def)
  have unique: "j = i"
    if i: "i < Suc ?n" and "declares ?m t (symbol_name (symbols_arena ?m ! i)) i"
      and "declares ?m t (symbol_name (symbols_arena ?m ! i)) j" for i j t
  proof (cases "i = ?n")
    case True
    then have "t = s" "same_name m name name"
      using that(2) new(1,2) unfolding declares_declared by (auto simp: declares_def)
    with that(3) True new fresh show ?thesis by (auto simp: declares_declared)
  next
    case False
    then have lt: "i < ?n" using i by simp
    let ?x = "symbol_name (?syms ! i)"
    have di: "declares m t ?x i" using that(2) False by (simp add: declares_declared syms lt)
    have "declares m t ?x j \<or> j = ?n \<and> t = s \<and> same_name m name ?x"
      using that(3) by (simp add: declares_declared syms lt)
    then show ?thesis
    proof
      assume "declares m t ?x j"
      with di show ?thesis using declares_unique [OF inv] by blast
    next
      assume n: "j = ?n \<and> t = s \<and> same_name m name ?x"
      then have "declares m s name i"
        using di by (auto simp: declares_def intro: same_name_trans same_name_sym)
      with fresh show ?thesis by blast
    qed
  qed
  show ?thesis
    unfolding scope_inv_def parts new(4)
  proof (intro conjI allI impI)
    fix t assume t: "t < length (scopes m)"
    show "(if t = s then ?n else last_symbol (scopes m ! t)) = last_before (symbols_arena ?m) t (Suc ?n)"
      using t new last links by auto
  next
    fix i assume i: "i < Suc ?n"
    show "symbol_scope (symbols_arena ?m ! i) < length (scopes m)"
      using i s new syms inv by (cases "i = ?n") (auto simp: scope_inv_def)
    show "previous_in_scope (symbols_arena ?m ! i) =
        last_before (symbols_arena ?m) (symbol_scope (symbols_arena ?m ! i)) i"
      using i s new syms inv last links by (cases "i = ?n") (auto simp: scope_inv_def)
  next
    show "length (scopes m) \<le> PIGEN_INVALID_ID" using inv by (simp add: scope_inv_def)
    show "Suc ?n \<le> PIGEN_INVALID_ID" using n by simp
  next
    fix t assume "t < length (scopes m)"
    then show "scope_parent (scopes m ! t) = PIGEN_INVALID_ID \<or> scope_parent (scopes m ! t) < t"
      using inv by (simp add: scope_inv_def)
  next
    fix i t j
    assume "i < Suc ?n" "declares ?m t (symbol_name (symbols_arena ?m ! i)) i"
      "declares ?m t (symbol_name (symbols_arena ?m ! i)) j"
    then show "j = i" by (rule unique)
  qed
qed

text \<open>
  The requests a scope can take: a scope of the model, a data type exactly for the kinds of symbol
  that have one, a name that is a nonempty part of its declaration in a source text, and an
  identity left.
\<close>

definition declarable ::
    "pigen_semantic_model \<Rightarrow> id \<Rightarrow> pigen_symbol_kind \<Rightarrow> id \<Rightarrow> pigen_source_span \<Rightarrow> pigen_source_span \<Rightarrow> bool" where
  "declarable m s kind dt name decl \<longleftrightarrow>
     s < length (scopes m) \<and>
     (if typed_symbol_kind kind then pigen_data_type_exists m dt else dt = PIGEN_INVALID_ID) \<and>
     pigen_source_span_valid (sources m) name \<and> span_start name \<noteq> span_end name \<and>
     pigen_source_span_valid (sources m) decl \<and> span_contains decl name \<and>
     length (symbols_arena m) < PIGEN_INVALID_ID"

text \<open>
  Declaring never fails to return; it rejects invalid arguments, reports the previous declaration
  of the name in the same scope, and otherwise adds the symbol.
\<close>

lemma symbol_declare:
  assumes inv: "scope_inv m"
  shows "\<exists>res d sh m'. pigen_symbol_declare m s kind dt name decl = Some ((res, d, sh), m') \<and> scope_inv m' \<and>
    (case res of
       PIGEN_DECLARE_INVALID \<Rightarrow> \<not> declarable m s kind dt name decl \<and> m' = m \<and>
         d = PIGEN_INVALID_ID \<and> sh = PIGEN_INVALID_ID
     | PIGEN_DECLARE_DUPLICATE \<Rightarrow> declarable m s kind dt name decl \<and> m' = m \<and>
         declares m s name d \<and> sh = PIGEN_INVALID_ID
     | PIGEN_DECLARE_OK \<Rightarrow> declarable m s kind dt name decl \<and> s < length (scopes m) \<and> (\<forall>i. \<not> declares m s name i) \<and>
         d = length (symbols_arena m) \<and> m' = declared_model m s kind dt name decl \<and>
         pigen_source_span_valid (sources m) name \<and>
         (if sh = PIGEN_INVALID_ID then \<forall>i. \<not> visible m (scope_parent (scopes m ! s)) name i
          else visible m (scope_parent (scopes m ! s)) name sh))"
proof -
  let ?bad = "pigen_scope_get m s = None \<or>
         (typed_symbol_kind kind \<and> \<not> pigen_data_type_exists m dt) \<or>
         (\<not> typed_symbol_kind kind \<and> dt \<noteq> PIGEN_INVALID_ID) \<or>
         \<not> pigen_source_span_valid (sources m) name \<or> span_start name = span_end name \<or>
         \<not> pigen_source_span_valid (sources m) decl \<or>
         \<not> span_contains decl name \<or> \<not> id_capacity_available (length (symbols_arena m))"
  have bad: "?bad \<longleftrightarrow> \<not> declarable m s kind dt name decl"
    using inv by (auto simp: declarable_def model_get_defs arena_get_def scope_inv_def)
  show ?thesis
  proof (cases ?bad)
    case True
    have refused: "\<not> declarable m s kind dt name decl" using True unfolding bad .
    from True have "pigen_symbol_declare m s kind dt name decl =
        Some ((PIGEN_DECLARE_INVALID, PIGEN_INVALID_ID, PIGEN_INVALID_ID), m)"
      by (simp only: pigen_symbol_declare_def if_True)
    with inv refused show ?thesis by simp
  next
    case False
    have ok: "declarable m s kind dt name decl" using False unfolding bad by (rule notnotD)
    note run = pigen_symbol_declare_def [of m s kind dt name decl, unfolded if_not_P [OF False]]
    from False have s: "s < length (scopes m)" and n: "length (symbols_arena m) < PIGEN_INVALID_ID"
      and valid: "pigen_source_span_valid (sources m) name"
      by (auto simp: model_get_defs arena_get_def split: if_splits)
    from lookup_local [OF inv s, of name] obtain e where e: "lookup_local m s name = Some e"
      "if e = PIGEN_INVALID_ID then \<forall>i. \<not> declares m s name i else declares m s name e" by blast
    show ?thesis
    proof (cases "e = PIGEN_INVALID_ID")
      case False
      with e run inv ok show ?thesis by simp
    next
      case True
      let ?p = "scope_parent (scopes m ! s)"
      have "\<exists>sh. (if ?p \<noteq> PIGEN_INVALID_ID then pigen_symbol_lookup m ?p name else Some PIGEN_INVALID_ID) = Some sh \<and>
          (if sh = PIGEN_INVALID_ID then \<forall>i. \<not> visible m ?p name i else visible m ?p name sh)"
      proof (cases "?p = PIGEN_INVALID_ID")
        case True
        then have "\<not> visible m ?p name i" for i using inv by (auto simp: scope_inv_def elim: visibleE)
        with True show ?thesis by simp
      next
        case False
        with symbol_lookup [OF inv, of ?p name] show ?thesis by auto
      qed
      then obtain sh where sh: "(if ?p \<noteq> PIGEN_INVALID_ID then pigen_symbol_lookup m ?p name
            else Some PIGEN_INVALID_ID) = Some sh"
        "if sh = PIGEN_INVALID_ID then \<forall>i. \<not> visible m ?p name i else visible m ?p name sh" by blast
      have fresh: "\<forall>i. \<not> declares m s name i" using e True by simp
      have u: "u32 (length (symbols_arena m)) = length (symbols_arena m)" using n by simp
      have "pigen_symbol_declare m s kind dt name decl =
          Some ((PIGEN_DECLARE_OK, length (symbols_arena m), sh), declared_model m s kind dt name decl)"
        unfolding run e(1) using True sh(1) u
        by (simp only: bind.bind_lunit if_False Let_def declared_model_def not_True_eq_False refl if_True)
      with declared_inv [OF inv s fresh n] fresh s sh(2) valid ok show ?thesis by simp
    qed
  qed
qed

text \<open>What a declaration changes: the name in its own scope, and nothing about other names.\<close>

lemma visible_declared_self:
  assumes "s < length (scopes m)" and "same_name m name name"
  shows "visible (declared_model m s kind dt name decl) s name (length (symbols_arena m))"
  using assms by (intro visible_here) (auto simp: declares_declared, simp add: declared_model_def)

lemma visible_declared_other:
  assumes "\<not> same_name m name nm"
  shows "visible (declared_model m s kind dt name decl) t nm i \<longleftrightarrow> visible m t nm i" (is "visible ?m t nm i \<longleftrightarrow> _")
proof
  have len: "length (scopes ?m) = length (scopes m)"
    "scope_parent (scopes ?m ! t) = scope_parent (scopes m ! t)" for t
    by (simp_all add: declared_model_def)
      (cases "s < length (scopes m)"; cases "t = s"; simp add: nth_list_update list_update_beyond not_less)
  have d: "declares ?m u nm j \<longleftrightarrow> declares m u nm j" for u j
    using assms by (simp add: declares_declared)
  show "visible m t nm i" if "visible ?m t nm i"
    using that assms
  proof (induction t nm i rule: visible.induct)
    case (visible_here t nm i)
    then show ?case using len by (auto simp: declares_declared intro: visible.visible_here)
  next
    case (visible_outer t nm i)
    then show ?case using len by (auto simp: declares_declared intro: visible.visible_outer)
  qed
  show "visible ?m t nm i" if "visible m t nm i"
    using that assms
  proof (induction t nm i rule: visible.induct)
    case (visible_here t nm i)
    then show ?case using len by (auto simp: declares_declared intro: visible.visible_here)
  next
    case (visible_outer t nm i)
    then show ?case using len by (auto simp: declares_declared intro: visible.visible_outer)
  qed
qed

section \<open>Enclosing scopes\<close>

inductive within :: "pigen_semantic_model \<Rightarrow> id \<Rightarrow> id \<Rightarrow> bool" for m where
  within_here: "s < length (scopes m) \<Longrightarrow> within m s s"
| within_outer: "s < length (scopes m) \<Longrightarrow> within m (scope_parent (scopes m ! s)) a \<Longrightarrow> within m s a"

lemma scope_is_within:
  assumes inv: "scope_inv m"
  shows "scope_is_within m s a = Some (within m s a)"
proof (induction s rule: less_induct)
  case (less s)
  show ?case
  proof (cases "pigen_scope_get m s")
    case None
    then have "\<not> s < length (scopes m)" using inv by (auto simp: model_get_defs arena_get_def scope_inv_def)
    with None show ?thesis by (auto simp: scope_is_within.simps elim: within.cases)
  next
    case (Some known)
    then have s: "s < length (scopes m)" "known = scopes m ! s" by (auto simp: model_get_defs arena_get_Some)
    let ?p = "scope_parent (scopes m ! s)"
    have parent: "scope_is_within m ?p a = Some (within m ?p a)"
    proof (cases "?p = PIGEN_INVALID_ID")
      case True
      then have "\<not> within m ?p a" using inv by (auto simp: scope_inv_def elim: within.cases)
      with True show ?thesis by (simp add: scope_is_within.simps model_get_defs)
    next
      case False
      with s inv have "?p < s" by (auto simp: scope_inv_def)
      then show ?thesis by (rule less.IH)
    qed
    have "within m s a \<longleftrightarrow> s = a \<or> within m ?p a"
      using s(1) by (auto intro: within.intros elim: within.cases)
    with Some s parent show ?thesis by (simp add: scope_is_within.simps [of m s])
  qed
qed

end
