(* ===== verification/Design.thy ===== *)
theory Design
  imports Scopes
begin

text \<open>
  Modules, parameters, signals, clock domains, processes and transfers of src/src/semantic.c: each
  operation checks the records it refers to and appends one record, and the records of a symbol
  and of its object refer to each other.
\<close>

section \<open>Objects of symbols\<close>

definition object_symbol :: "pigen_semantic_model \<Rightarrow> id \<Rightarrow> pigen_symbol option" where
  "object_symbol model i = (if i < length (symbols_arena model) then Some (symbols_arena model ! i) else None)"

definition pigen_symbol_module :: "pigen_semantic_model \<Rightarrow> id \<Rightarrow> id" where
  "pigen_symbol_module model i =
     (case pigen_symbol_get model i of
        None \<Rightarrow> PIGEN_INVALID_ID
      | Some symbol \<Rightarrow>
          if symbol_kind symbol \<noteq> PIGEN_SYMBOL_MODULE then PIGEN_INVALID_ID
          else case pigen_module_get model (symbol_object symbol) of
            None \<Rightarrow> PIGEN_INVALID_ID
          | Some module \<Rightarrow> if module_symbol module = i then symbol_object symbol else PIGEN_INVALID_ID)"

definition pigen_symbol_parameter :: "pigen_semantic_model \<Rightarrow> id \<Rightarrow> id" where
  "pigen_symbol_parameter model i =
     (case pigen_symbol_get model i of
        None \<Rightarrow> PIGEN_INVALID_ID
      | Some symbol \<Rightarrow>
          if symbol_kind symbol \<noteq> PIGEN_SYMBOL_PARAMETER then PIGEN_INVALID_ID
          else case pigen_parameter_get model (symbol_object symbol) of
            None \<Rightarrow> PIGEN_INVALID_ID
          | Some known \<Rightarrow> if parameter_symbol known = i then symbol_object symbol else PIGEN_INVALID_ID)"

definition pigen_symbol_signal :: "pigen_semantic_model \<Rightarrow> id \<Rightarrow> id" where
  "pigen_symbol_signal model i =
     (case pigen_symbol_get model i of
        None \<Rightarrow> PIGEN_INVALID_ID
      | Some symbol \<Rightarrow>
          if symbol_kind symbol \<noteq> PIGEN_SYMBOL_SIGNAL then PIGEN_INVALID_ID
          else case pigen_signal_get model (symbol_object symbol) of
            None \<Rightarrow> PIGEN_INVALID_ID
          | Some signal \<Rightarrow> if signal_symbol signal = i then symbol_object symbol else PIGEN_INVALID_ID)"

definition pigen_expr_constant :: "pigen_semantic_model \<Rightarrow> id \<Rightarrow> id" where
  "pigen_expr_constant model i =
     (case pigen_expr_get model i of None \<Rightarrow> PIGEN_INVALID_ID | Some known \<Rightarrow> expr_constant known)"

text \<open>The assignment \<open>symbol->object = result\<close>.\<close>

definition set_symbol_object :: "id \<Rightarrow> id \<Rightarrow> pigen_semantic_model \<Rightarrow> pigen_semantic_model" where
  "set_symbol_object i result model =
     model\<lparr>symbols_arena := (symbols_arena model)[i := (symbols_arena model ! i)\<lparr>symbol_object := result\<rparr>]\<rparr>"

section \<open>Modules and parameters\<close>

definition pigen_module_add ::
    "pigen_semantic_model \<Rightarrow> id \<Rightarrow> id \<Rightarrow> id \<Rightarrow> pigen_source_span \<Rightarrow> id \<times> pigen_semantic_model" where
  "pigen_module_add model syn symbol_id scope sp =
     (case (object_symbol model symbol_id, pigen_scope_get model scope) of
        (Some symbol, Some known_scope) \<Rightarrow>
          if symbol_kind symbol \<noteq> PIGEN_SYMBOL_MODULE \<or> symbol_object symbol \<noteq> PIGEN_INVALID_ID \<or>
             symbol_scope symbol \<noteq> compilation_scope model \<or>
             scope_parent known_scope \<noteq> compilation_scope model \<or>
             \<not> spans_equal (symbol_declaration symbol) sp \<or> \<not> spans_equal (scope_span known_scope) sp \<or>
             syn = PIGEN_INVALID_ID \<or> \<not> pigen_source_span_valid (sources model) sp \<or>
             \<not> id_capacity_available (length (modules model))
          then (PIGEN_INVALID_ID, model)
          else
            let result = u32 (length (modules model))
            in (result, set_symbol_object symbol_id result
                 (model\<lparr>modules := modules model @
                   [\<lparr>module_syntax = syn, module_symbol = symbol_id, module_scope = scope, module_span = sp\<rparr>]\<rparr>))
      | _ \<Rightarrow> (PIGEN_INVALID_ID, model))"

definition pigen_parameter_add ::
    "pigen_semantic_model \<Rightarrow> id \<Rightarrow> id \<Rightarrow> id \<Rightarrow> id \<Rightarrow> int \<Rightarrow> pigen_source_span \<Rightarrow> id \<times> pigen_semantic_model" where
  "pigen_parameter_add model syn module_id symbol_id val is_local sp =
     (case (pigen_module_get model module_id, pigen_expr_get model val, object_symbol model symbol_id) of
        (Some module, Some expression, Some symbol) \<Rightarrow>
          if symbol_kind symbol \<noteq> PIGEN_SYMBOL_PARAMETER \<or> symbol_object symbol \<noteq> PIGEN_INVALID_ID \<or>
             symbol_scope symbol \<noteq> module_scope module \<or>
             symbol_data_type symbol \<noteq> expr_data_type expression \<or>
             \<not> spans_equal (symbol_declaration symbol) sp \<or>
             pigen_expr_constant model val = PIGEN_INVALID_ID \<or>
             syn = PIGEN_INVALID_ID \<or> (is_local \<noteq> 0 \<and> is_local \<noteq> 1) \<or>
             \<not> pigen_source_span_valid (sources model) sp \<or>
             \<not> id_capacity_available (length (parameters model))
          then (PIGEN_INVALID_ID, model)
          else
            let result = u32 (length (parameters model))
            in (result, set_symbol_object symbol_id result
                 (model\<lparr>parameters := parameters model @
                   [\<lparr>parameter_syntax = syn, parameter_module = module_id, parameter_symbol = symbol_id,
                     parameter_value = val, parameter_is_local = is_local, parameter_span = sp\<rparr>]\<rparr>))
      | _ \<Rightarrow> (PIGEN_INVALID_ID, model))"

section \<open>Signals and clock domains\<close>

text \<open>
  The operation calls \<open>scope_is_within\<close>, which may not return on a cyclic scope chain; then
  neither does it.
\<close>

definition pigen_signal_add ::
    "pigen_semantic_model \<Rightarrow> id \<Rightarrow> id \<Rightarrow> id \<Rightarrow> id \<Rightarrow> id \<Rightarrow> id \<Rightarrow> pigen_transfer_type \<Rightarrow>
     pigen_semantic_direction \<Rightarrow> pigen_source_span \<Rightarrow> (id \<times> pigen_semantic_model) option" where
  "pigen_signal_add model syn module_id symbol_id data_type shape transfer_argument transfer_type direction sp =
     (case (pigen_module_get model module_id, object_symbol model symbol_id) of
        (Some module, Some symbol) \<Rightarrow>
          if symbol_kind symbol \<noteq> PIGEN_SYMBOL_SIGNAL \<or> symbol_object symbol \<noteq> PIGEN_INVALID_ID
          then Some (PIGEN_INVALID_ID, model)
          else Option.bind (scope_is_within model (symbol_scope symbol) (module_scope module)) (\<lambda>inside.
            case pigen_transfer_type_descriptor_get transfer_type of
              None \<Rightarrow> Some (PIGEN_INVALID_ID, model)
            | Some descriptor \<Rightarrow>
                if \<not> inside \<or> symbol_data_type symbol \<noteq> data_type \<or>
                   \<not> spans_equal (symbol_declaration symbol) sp \<or>
                   \<not> pigen_data_type_exists model data_type \<or> pigen_shape_get model shape = None \<or>
                   (\<not> is_concrete descriptor \<and> direction \<noteq> PIGEN_SEMANTIC_INPUT) \<or>
                   (parameter descriptor = PIGEN_TRANSFER_PARAMETER_DEPTH \<and>
                     (pigen_expr_get model transfer_argument = None \<or>
                      pigen_expr_constant model transfer_argument = PIGEN_INVALID_ID)) \<or>
                   (parameter descriptor = PIGEN_TRANSFER_PARAMETER_NONE \<and>
                     transfer_argument \<noteq> PIGEN_INVALID_ID) \<or>
                   syn = PIGEN_INVALID_ID \<or> \<not> pigen_source_span_valid (sources model) sp \<or>
                   \<not> id_capacity_available (length (signals model))
                then Some (PIGEN_INVALID_ID, model)
                else
                  let result = u32 (length (signals model))
                  in Some (result, set_symbol_object symbol_id result
                       (model\<lparr>signals := signals model @
                         [\<lparr>signal_syntax = syn, signal_module = module_id, signal_symbol = symbol_id,
                           signal_data_type = data_type, signal_shape = shape,
                           signal_transfer_argument = transfer_argument,
                           signal_transfer_type = transfer_type, signal_direction = direction,
                           signal_domain = PIGEN_INVALID_ID, signal_span = sp\<rparr>]\<rparr>)))
      | _ \<Rightarrow> Some (PIGEN_INVALID_ID, model))"

definition pigen_signal_bind_domain ::
    "pigen_semantic_model \<Rightarrow> id \<Rightarrow> id \<Rightarrow> bool \<times> pigen_semantic_model" where
  "pigen_signal_bind_domain model signal_id domain =
     (if \<not> signal_id < length (signals model) then (False, model)
      else
        let signal = signals model ! signal_id
        in case pigen_transfer_type_descriptor_get (signal_transfer_type signal) of
             None \<Rightarrow> (False, model)
           | Some descriptor \<Rightarrow>
               if pigen_clock_domain_get model domain = None then (False, model)
               else if binds_domain descriptor = 0 then (True, model)
               else if signal_domain signal = PIGEN_INVALID_ID
               then (True, model\<lparr>signals := (signals model)[signal_id := signal\<lparr>signal_domain := domain\<rparr>]\<rparr>)
               else (signal_domain signal = domain, model))"

definition pigen_clock_domain_intern ::
    "pigen_semantic_model \<Rightarrow> id \<Rightarrow> pigen_semantic_edge \<Rightarrow> id \<times> pigen_semantic_model" where
  "pigen_clock_domain_intern model clock edge =
     (case pigen_symbol_get model clock of
        None \<Rightarrow> (PIGEN_INVALID_ID, model)
      | Some symbol \<Rightarrow>
          if symbol_kind symbol \<noteq> PIGEN_SYMBOL_SIGNAL \<or> pigen_symbol_signal model clock = PIGEN_INVALID_ID
          then (PIGEN_INVALID_ID, model)
          else case first_index (\<lambda>d. clock_symbol d = clock \<and> clock_edge d = edge) (clock_domains model) of
            Some i \<Rightarrow> (u32 i, model)
          | None \<Rightarrow>
              if \<not> id_capacity_available (length (clock_domains model)) then (PIGEN_INVALID_ID, model)
              else (u32 (length (clock_domains model)),
                model\<lparr>clock_domains := clock_domains model @ [\<lparr>clock_symbol = clock, clock_edge = edge\<rparr>]\<rparr>))"

section \<open>Processes and transfers\<close>

definition pigen_process_add ::
    "pigen_semantic_model \<Rightarrow> id \<Rightarrow> id \<Rightarrow> id \<Rightarrow> id \<Rightarrow> pigen_source_span \<Rightarrow> id \<times> pigen_semantic_model" where
  "pigen_process_add model syn module_id domain_id clock sp =
     (case (pigen_module_get model module_id, pigen_clock_domain_get model domain_id, pigen_expr_get model clock) of
        (Some module, Some domain, Some clock_expression) \<Rightarrow>
          if (case expr_as clock_expression of PIGEN_EXPR_SYMBOL s \<Rightarrow> s \<noteq> clock_symbol domain | _ \<Rightarrow> True) \<or>
             \<not> span_contains sp (expr_span clock_expression) \<or> syn = PIGEN_INVALID_ID \<or>
             \<not> pigen_source_span_valid (sources model) sp \<or>
             \<not> id_capacity_available (length (processes model))
          then (PIGEN_INVALID_ID, model)
          else (u32 (length (processes model)),
            model\<lparr>processes := processes model @
              [\<lparr>process_syntax = syn, process_module = module_id, process_domain = domain_id,
                process_clock = clock, process_span = sp\<rparr>]\<rparr>)
      | _ \<Rightarrow> (PIGEN_INVALID_ID, model))"

definition signal_role_mask :: "32 word" where
  "signal_role_mask = 1 OR 2 OR 4 OR 8"

fun signal_uses_valid ::
    "pigen_semantic_model \<Rightarrow> pigen_transfer_signal_use list \<Rightarrow> pigen_transfer_signal_use list \<Rightarrow> bool" where
  "signal_uses_valid model before [] = True"
| "signal_uses_valid model before (u # us) =
     (if pigen_signal_get model (use_signal u) = None \<or> use_roles u = 0 \<or>
         use_roles u AND NOT signal_role_mask \<noteq> 0 then False
      else if \<exists>b \<in> set before. use_signal b = use_signal u then False
      else signal_uses_valid model (before @ [u]) us)"

definition pigen_transfer_add ::
    "pigen_semantic_model \<Rightarrow> id \<Rightarrow> id \<Rightarrow> id \<Rightarrow> id \<Rightarrow> id \<Rightarrow> id \<Rightarrow> id \<Rightarrow> pigen_transfer_signal_use list \<Rightarrow>
     pigen_source_span \<Rightarrow> id \<times> pigen_semantic_model" where
  "pigen_transfer_add model syn module_id process_id destination val guard domain_id signal_uses sp =
     (case (pigen_module_get model module_id, pigen_process_get model process_id,
            pigen_lvalue_get model destination, pigen_expr_get model val) of
        (Some module, Some process, Some destination_value, Some source_expression) \<Rightarrow>
          (case pigen_expr_get model (lvalue_expression destination_value) of
             None \<Rightarrow> (PIGEN_INVALID_ID, model)
           | Some destination_expression \<Rightarrow>
               if process_module process \<noteq> module_id \<or> process_domain process \<noteq> domain_id \<or>
                  pigen_clock_domain_get model domain_id = None \<or>
                  lvalue_data_type destination_value \<noteq> expr_data_type source_expression \<or>
                  expr_shape destination_expression \<noteq> expr_shape source_expression \<or>
                  guard = PIGEN_INVALID_ID \<or> guard \<ge> length (predicates model) \<or>
                  \<not> span_contains (process_span process) sp \<or> syn = PIGEN_INVALID_ID \<or>
                  \<not> pigen_source_span_valid (sources model) sp \<or>
                  \<not> id_capacity_available (length (transfers model))
               then (PIGEN_INVALID_ID, model)
               else if \<not> signal_uses_valid model [] signal_uses then (PIGEN_INVALID_ID, model)
               else (u32 (length (transfers model)),
                 model\<lparr>transfers := transfers model @
                     [\<lparr>transfer_syntax = syn, transfer_module = module_id, transfer_process = process_id,
                       transfer_destination = destination, transfer_value = val, transfer_guard = guard,
                       transfer_domain = domain_id,
                       first_signal_use = length (transfer_signal_uses model),
                       signal_use_count = length signal_uses, transfer_span = sp\<rparr>],
                   transfer_signal_uses := transfer_signal_uses model @ signal_uses\<rparr>))
      | _ \<Rightarrow> (PIGEN_INVALID_ID, model))"

definition pigen_transfer_signal_uses ::
    "pigen_semantic_model \<Rightarrow> id \<Rightarrow> pigen_transfer_signal_use list option" where
  "pigen_transfer_signal_uses model i =
     (case pigen_transfer_get model i of
        None \<Rightarrow> None
      | Some t \<Rightarrow>
          if signal_use_count t = 0 \<or>
             size_wrap (first_signal_use t + signal_use_count t) > length (transfer_signal_uses model)
          then None
          else Some (slice (first_signal_use t) (signal_use_count t) (transfer_signal_uses model)))"

section \<open>Enumerations by owner\<close>

text \<open>The first loop counts, the second fills; \<open>NULL\<close> with count 0 when there is nothing.\<close>

definition owned_indices :: "('a \<Rightarrow> bool) \<Rightarrow> 'a list \<Rightarrow> id list" where
  "owned_indices owned xs = map u32 (filter (\<lambda>i. owned (xs ! i)) [0..<length xs])"

definition pigen_module_processes :: "pigen_semantic_model \<Rightarrow> id \<Rightarrow> id list option" where
  "pigen_module_processes model i =
     (if i = PIGEN_INVALID_ID \<or> i \<ge> length (modules model) then None
      else if length (filter (\<lambda>p. process_module p = i) (processes model)) = 0 then None
      else Some (owned_indices (\<lambda>p. process_module p = i) (processes model)))"

definition pigen_process_transfers :: "pigen_semantic_model \<Rightarrow> id \<Rightarrow> id list option" where
  "pigen_process_transfers model i =
     (if i = PIGEN_INVALID_ID \<or> i \<ge> length (processes model) then None
      else if length (filter (\<lambda>t. transfer_process t = i) (transfers model)) = 0 then None
      else Some (owned_indices (\<lambda>t. transfer_process t = i) (transfers model)))"

end
