(* ===== verification/DesignInvariant.thy ===== *)
theory DesignInvariant
  imports Design
begin

text \<open>
  The invariant of the design part of the semantic model, kept by every operation of
  \<open>Scopes\<close> and \<open>Design\<close> and by everything that only grows the other arenas; and the transition
  system of these operations.
\<close>

section \<open>Symbols and their objects\<close>

definition objects_linked :: "pigen_symbol list \<Rightarrow> pigen_symbol_kind \<Rightarrow> id list \<Rightarrow> bool" where
  "objects_linked syms kind owners \<longleftrightarrow>
     (\<forall>i < length owners. owners ! i < length syms \<and> symbol_kind (syms ! (owners ! i)) = kind \<and>
        symbol_object (syms ! (owners ! i)) = i) \<and>
     (\<forall>j < length syms. symbol_kind (syms ! j) = kind \<and> symbol_object (syms ! j) \<noteq> PIGEN_INVALID_ID \<longrightarrow>
        symbol_object (syms ! j) < length owners \<and> owners ! symbol_object (syms ! j) = j)"

lemma objects_linked_declare:
  "objects_linked syms kind owners \<Longrightarrow> symbol_object x = PIGEN_INVALID_ID \<Longrightarrow> objects_linked (syms @ [x]) kind owners"
  by (auto simp: objects_linked_def nth_append less_Suc_eq)

lemma objects_linked_new:
  assumes "objects_linked syms kind owners" and "s < length syms" and "symbol_kind (syms ! s) = kind"
    and "symbol_object (syms ! s) = PIGEN_INVALID_ID" and "length owners < PIGEN_INVALID_ID"
  shows "objects_linked (syms[s := (syms ! s)\<lparr>symbol_object := length owners\<rparr>]) kind (owners @ [s])"
proof -
  have "owners ! i \<noteq> s" if "i < length owners" for i
    using assms(1,4,5) that by (auto simp: objects_linked_def)
  with assms show ?thesis
    by (auto simp: objects_linked_def nth_append nth_list_update less_Suc_eq)
qed

lemma objects_linked_other:
  "objects_linked syms kind owners \<Longrightarrow> s < length syms \<Longrightarrow> symbol_kind (syms ! s) \<noteq> kind \<Longrightarrow>
   objects_linked (syms[s := (syms ! s)\<lparr>symbol_object := v\<rparr>]) kind owners"
  by (auto simp: objects_linked_def nth_list_update)

lemma last_before_cong:
  "(\<And>i. i < k \<Longrightarrow> symbol_scope (xs ! i) = symbol_scope (ys ! i)) \<Longrightarrow> last_before xs s k = last_before ys s k"
  by (induction k) auto

lemma scope_inv_set_object:
  assumes inv: "scope_inv m" and s: "s < length (symbols_arena m)"
  shows "scope_inv (set_symbol_object s v m)" (is "scope_inv ?m")
proof -
  let ?x = "symbols_arena m" and ?y = "symbols_arena ?m"
  have same: "symbol_scope (?y ! i) = symbol_scope (?x ! i)" "symbol_name (?y ! i) = symbol_name (?x ! i)"
    "previous_in_scope (?y ! i) = previous_in_scope (?x ! i)" for i
    using s by (cases "i = s"; simp add: set_symbol_object_def)+
  have len: "length ?y = length ?x" "scopes ?m = scopes m" by (simp_all add: set_symbol_object_def)
  have last: "last_before ?y t k = last_before ?x t k" for t k
    by (rule last_before_cong) (rule same)
  have "same_name ?m = same_name m" by (rule same_name_cong) (simp add: set_symbol_object_def)
  then have "declares ?m = declares m" by (intro ext) (simp add: declares_def same len)
  with inv show ?thesis by (simp add: scope_inv_def same len last)
qed

section \<open>The invariant\<close>

definition signal_uses_inv :: "pigen_semantic_model \<Rightarrow> pigen_transfer_signal_use list \<Rightarrow> bool" where
  "signal_uses_inv m us \<longleftrightarrow>
     distinct (map use_signal us) \<and>
     (\<forall>u \<in> set us. use_signal u < length (signals m) \<and> use_roles u \<noteq> 0 \<and>
        use_roles u AND NOT signal_role_mask = 0)"

definition counts_inv :: "pigen_semantic_model \<Rightarrow> bool" where
  "counts_inv m \<longleftrightarrow>
     length (modules m) \<le> PIGEN_INVALID_ID \<and> length (parameters m) \<le> PIGEN_INVALID_ID \<and>
     length (signals m) \<le> PIGEN_INVALID_ID \<and> length (clock_domains m) \<le> PIGEN_INVALID_ID \<and>
     length (processes m) \<le> PIGEN_INVALID_ID \<and> length (transfers m) \<le> PIGEN_INVALID_ID"

definition links_inv :: "pigen_semantic_model \<Rightarrow> bool" where
  "links_inv m \<longleftrightarrow>
     objects_linked (symbols_arena m) PIGEN_SYMBOL_MODULE (map module_symbol (modules m)) \<and>
     objects_linked (symbols_arena m) PIGEN_SYMBOL_PARAMETER (map parameter_symbol (parameters m)) \<and>
     objects_linked (symbols_arena m) PIGEN_SYMBOL_SIGNAL (map signal_symbol (signals m))"

definition objects_inv :: "pigen_semantic_model \<Rightarrow> bool" where
  "objects_inv m \<longleftrightarrow>
     (\<forall>x \<in> set (modules m). module_scope x < length (scopes m)) \<and>
     (\<forall>x \<in> set (parameters m). parameter_module x < length (modules m) \<and>
        parameter_value x < length (expressions m)) \<and>
     (\<forall>x \<in> set (signals m). signal_module x < length (modules m) \<and>
        signal_data_type x < length (data_types m) \<and> signal_shape x < length (shapes m) \<and>
        (signal_domain x = PIGEN_INVALID_ID \<or> signal_domain x < length (clock_domains m)))"

definition domains_inv :: "pigen_semantic_model \<Rightarrow> bool" where
  "domains_inv m \<longleftrightarrow>
     distinct (clock_domains m) \<and>
     (\<forall>d \<in> set (clock_domains m). clock_symbol d < length (symbols_arena m) \<and>
        symbol_kind (symbols_arena m ! clock_symbol d) = PIGEN_SYMBOL_SIGNAL \<and>
        symbol_object (symbols_arena m ! clock_symbol d) \<noteq> PIGEN_INVALID_ID)"

definition activity_inv :: "pigen_semantic_model \<Rightarrow> bool" where
  "activity_inv m \<longleftrightarrow>
     (\<forall>p \<in> set (processes m). process_module p < length (modules m) \<and>
        process_domain p < length (clock_domains m) \<and> process_clock p < length (expressions m)) \<and>
     (\<forall>t \<in> set (transfers m). transfer_process t < length (processes m) \<and>
        process_module (processes m ! transfer_process t) = transfer_module t \<and>
        process_domain (processes m ! transfer_process t) = transfer_domain t \<and>
        transfer_destination t < length (lvalues m) \<and> transfer_value t < length (expressions m) \<and>
        transfer_guard t < length (predicates m) \<and>
        first_signal_use t + signal_use_count t \<le> length (transfer_signal_uses m) \<and>
        signal_uses_inv m (slice (first_signal_use t) (signal_use_count t) (transfer_signal_uses m)))"

definition design_inv :: "pigen_semantic_model \<Rightarrow> bool" where
  "design_inv m \<longleftrightarrow>
     scope_inv m \<and> counts_inv m \<and> links_inv m \<and> objects_inv m \<and> domains_inv m \<and> activity_inv m"

lemmas design_invs = counts_inv_def links_inv_def objects_inv_def domains_inv_def activity_inv_def

section \<open>Preservation\<close>

text \<open>Only the other arenas change, and they grow.\<close>

definition design_frame :: "pigen_semantic_model \<Rightarrow> pigen_semantic_model \<Rightarrow> bool" where
  "design_frame m m' \<longleftrightarrow>
     sources m' = sources m \<and> scopes m' = scopes m \<and> symbols_arena m' = symbols_arena m \<and>
     modules m' = modules m \<and> parameters m' = parameters m \<and> signals m' = signals m \<and>
     clock_domains m' = clock_domains m \<and> processes m' = processes m \<and> transfers m' = transfers m \<and>
     transfer_signal_uses m' = transfer_signal_uses m \<and> compilation_scope m' = compilation_scope m \<and>
     length (data_types m) \<le> length (data_types m') \<and> length (shapes m) \<le> length (shapes m') \<and>
     length (expressions m) \<le> length (expressions m') \<and> length (lvalues m) \<le> length (lvalues m') \<and>
     length (predicates m) \<le> length (predicates m')"

lemma design_frame_refl [simp]: "design_frame m m"
  by (simp add: design_frame_def)

lemma design_frame_trans: "design_frame a b \<Longrightarrow> design_frame b c \<Longrightarrow> design_frame a c"
  by (auto simp: design_frame_def)

lemma frame_inv: "design_inv m \<Longrightarrow> design_frame m m' \<Longrightarrow> design_inv m'"
  using scope_inv_cong [of m' m]
  by (auto simp: design_inv_def design_frame_def counts_inv_def links_inv_def objects_inv_def
      domains_inv_def activity_inv_def signal_uses_inv_def intro: less_le_trans)

lemma arena_get_lt: "arena_get xs i \<noteq> None \<Longrightarrow> i < length xs"
  by (auto simp: arena_get_def split: if_splits)

lemma scope_add_inv:
  assumes "design_inv m" and "pigen_scope_add m parent sp = (i, m')"
  shows "design_inv m' \<and> design_inv (m'\<lparr>compilation_scope := c\<rparr>)"
proof -
  have "scope_inv m'" using scope_add [OF _ assms(2)] assms(1) by (simp add: design_inv_def)
  moreover have "m' = m \<or> m' = m\<lparr>scopes := scopes m @
      [\<lparr>scope_parent = parent, last_symbol = PIGEN_INVALID_ID, scope_span = sp\<rparr>]\<rparr>"
    using assms(2) by (auto simp: pigen_scope_add_def Let_def split: if_splits)
  ultimately have d: "design_inv m'"
    using assms(1)
    by (auto simp: design_inv_def counts_inv_def links_inv_def objects_inv_def domains_inv_def
        activity_inv_def signal_uses_inv_def less_Suc_eq)
  moreover have "scope_inv (m'\<lparr>compilation_scope := c\<rparr>) = scope_inv m'"
    by (rule scope_inv_cong) simp_all
  ultimately show ?thesis
    by (simp add: design_inv_def counts_inv_def links_inv_def objects_inv_def domains_inv_def
        activity_inv_def signal_uses_inv_def)
qed

lemma declare_inv:
  assumes inv: "design_inv m" and run: "pigen_symbol_declare m s kind dt name decl = Some ((res, d, sh), m')"
  shows "design_inv m'"
proof -
  have si: "scope_inv m" using inv by (simp add: design_inv_def)
  from symbol_declare [OF si, of s kind dt name decl] run have si': "scope_inv m'"
    and cases: "m' = m \<or> m' = declared_model m s kind dt name decl"
    by (auto split: pigen_declare_result.splits)
  from cases show ?thesis
  proof
    assume "m' = m"
    with inv show ?thesis by simp
  next
    assume m': "m' = declared_model m s kind dt name decl"
    have "links_inv m'"
      using inv unfolding m' design_inv_def links_inv_def declared_model_def
      by (auto intro!: objects_linked_declare)
    moreover have "domains_inv m'"
      using inv unfolding m' design_inv_def domains_inv_def declared_model_def
      by (auto simp: nth_append)
    moreover have "counts_inv m'" "objects_inv m'" "activity_inv m'"
      using inv unfolding m' design_inv_def counts_inv_def objects_inv_def activity_inv_def
        declared_model_def signal_uses_inv_def by auto
    ultimately show ?thesis using si' by (simp add: design_inv_def)
  qed
qed

lemma domains_set_object:
  "domains_inv m \<Longrightarrow> s < length (symbols_arena m) \<Longrightarrow> v \<noteq> PIGEN_INVALID_ID \<Longrightarrow> domains_inv (set_symbol_object s v m)"
  by (auto simp: domains_inv_def set_symbol_object_def nth_list_update)

lemma module_add_inv:
  assumes inv: "design_inv m" and run: "pigen_module_add m syn s sc sp = (i, m')"
  shows "design_inv m'"
proof (cases "i = PIGEN_INVALID_ID")
  case True
  then show ?thesis
    using run inv by (auto simp: pigen_module_add_def Let_def counts_inv_def design_inv_def split: option.splits if_splits)
next
  case False
  let ?n = "length (modules m)"
  let ?m = "m\<lparr>modules := modules m @ [\<lparr>module_syntax = syn, module_symbol = s, module_scope = sc, module_span = sp\<rparr>]\<rparr>"
  have m': "m' = set_symbol_object s ?n ?m" and n: "?n < PIGEN_INVALID_ID"
    and s: "s < length (symbols_arena m)" "symbol_kind (symbols_arena m ! s) = PIGEN_SYMBOL_MODULE"
      "symbol_object (symbols_arena m ! s) = PIGEN_INVALID_ID" and sc: "sc < length (scopes m)"
    using run False
    by (auto simp: pigen_module_add_def Let_def object_symbol_def pigen_scope_get_def arena_get_Some
        split: option.splits if_splits)
  have "scope_inv ?m" using inv scope_inv_cong [of ?m m] by (simp add: design_inv_def)
  then have "scope_inv m'" unfolding m' by (rule scope_inv_set_object) (simp add: s)
  moreover have "counts_inv m'" using inv n by (simp add: m' design_inv_def counts_inv_def set_symbol_object_def)
  moreover have "links_inv m'"
    using inv s n objects_linked_new [of "symbols_arena m" PIGEN_SYMBOL_MODULE "map module_symbol (modules m)" s]
    by (simp add: m' design_inv_def links_inv_def set_symbol_object_def objects_linked_other)
  moreover have "objects_inv m'"
    using inv sc by (auto simp: m' design_inv_def objects_inv_def set_symbol_object_def less_Suc_eq)
  moreover have "domains_inv m'"
    unfolding m' using inv s n by (intro domains_set_object) (auto simp: design_inv_def domains_inv_def)
  moreover have "activity_inv m'"
    using inv by (auto simp: m' design_inv_def activity_inv_def set_symbol_object_def signal_uses_inv_def less_Suc_eq)
  ultimately show ?thesis by (simp add: design_inv_def)
qed

lemma parameter_add_inv:
  assumes inv: "design_inv m" and run: "pigen_parameter_add m syn md s v l sp = (i, m')"
  shows "design_inv m'"
proof (cases "i = PIGEN_INVALID_ID")
  case True
  then show ?thesis
    using run inv by (auto simp: pigen_parameter_add_def Let_def counts_inv_def design_inv_def split: option.splits if_splits)
next
  case False
  let ?n = "length (parameters m)"
  let ?m = "m\<lparr>parameters := parameters m @ [\<lparr>parameter_syntax = syn, parameter_module = md,
    parameter_symbol = s, parameter_value = v, parameter_is_local = l, parameter_span = sp\<rparr>]\<rparr>"
  have m': "m' = set_symbol_object s ?n ?m" and n: "?n < PIGEN_INVALID_ID"
    and s: "s < length (symbols_arena m)" "symbol_kind (symbols_arena m ! s) = PIGEN_SYMBOL_PARAMETER"
      "symbol_object (symbols_arena m ! s) = PIGEN_INVALID_ID"
    and md: "md < length (modules m)" "v < length (expressions m)"
    using run False
    by (auto simp: pigen_parameter_add_def Let_def object_symbol_def pigen_module_get_def pigen_expr_get_def arena_get_Some
        split: option.splits if_splits)
  have "scope_inv ?m" using inv scope_inv_cong [of ?m m] by (simp add: design_inv_def)
  then have "scope_inv m'" unfolding m' by (rule scope_inv_set_object) (simp add: s)
  moreover have "counts_inv m'" using inv n by (simp add: m' design_inv_def counts_inv_def set_symbol_object_def)
  moreover have "links_inv m'"
    using inv s n objects_linked_new [of "symbols_arena m" PIGEN_SYMBOL_PARAMETER "map parameter_symbol (parameters m)" s]
    by (simp add: m' design_inv_def links_inv_def set_symbol_object_def objects_linked_other)
  moreover have "objects_inv m'"
    using inv md by (auto simp: m' design_inv_def objects_inv_def set_symbol_object_def less_Suc_eq)
  moreover have "domains_inv m'"
    unfolding m' using inv s n by (intro domains_set_object) (auto simp: design_inv_def domains_inv_def)
  moreover have "activity_inv m'"
    using inv by (auto simp: m' design_inv_def activity_inv_def set_symbol_object_def signal_uses_inv_def less_Suc_eq)
  ultimately show ?thesis by (simp add: design_inv_def)
qed

lemma signal_add_inv:
  assumes inv: "design_inv m" and run: "pigen_signal_add m syn md s dt sh arg tt dir sp = Some (i, m')"
  shows "design_inv m'"
proof (cases "i = PIGEN_INVALID_ID")
  case True
  then show ?thesis
    using run inv
    by (auto simp: pigen_signal_add_def Let_def counts_inv_def design_inv_def bind_eq_Some_conv split: option.splits if_splits)
next
  case False
  let ?n = "length (signals m)"
  let ?m = "m\<lparr>signals := signals m @ [\<lparr>signal_syntax = syn, signal_module = md, signal_symbol = s,
    signal_data_type = dt, signal_shape = sh, signal_transfer_argument = arg, signal_transfer_type = tt,
    signal_direction = dir, signal_domain = PIGEN_INVALID_ID, signal_span = sp\<rparr>]\<rparr>"
  have m': "m' = set_symbol_object s ?n ?m" and n: "?n < PIGEN_INVALID_ID"
    and s: "s < length (symbols_arena m)" "symbol_kind (symbols_arena m ! s) = PIGEN_SYMBOL_SIGNAL"
      "symbol_object (symbols_arena m ! s) = PIGEN_INVALID_ID"
    and md: "md < length (modules m)" "dt < length (data_types m)" "sh < length (shapes m)"
    using run False
    by (auto simp: pigen_signal_add_def Let_def object_symbol_def model_get_defs arena_get_Some bind_eq_Some_conv
        split: option.splits if_splits)
  have "scope_inv ?m" using inv scope_inv_cong [of ?m m] by (simp add: design_inv_def)
  then have "scope_inv m'" unfolding m' by (rule scope_inv_set_object) (simp add: s)
  moreover have "counts_inv m'" using inv n by (simp add: m' design_inv_def counts_inv_def set_symbol_object_def)
  moreover have "links_inv m'"
    using inv s n objects_linked_new [of "symbols_arena m" PIGEN_SYMBOL_SIGNAL "map signal_symbol (signals m)" s]
    by (simp add: m' design_inv_def links_inv_def set_symbol_object_def objects_linked_other)
  moreover have "objects_inv m'"
    using inv md by (auto simp: m' design_inv_def objects_inv_def set_symbol_object_def less_Suc_eq)
  moreover have "domains_inv m'"
    unfolding m' using inv s n by (intro domains_set_object) (auto simp: design_inv_def domains_inv_def)
  moreover have "activity_inv m'"
    using inv by (auto simp: m' design_inv_def activity_inv_def set_symbol_object_def signal_uses_inv_def less_Suc_eq)
  ultimately show ?thesis by (simp add: design_inv_def)
qed

lemma bind_domain_inv:
  assumes inv: "design_inv m" and run: "pigen_signal_bind_domain m s d = (r, m')"
  shows "design_inv m'"
proof -
  have "m' = m \<or> (s < length (signals m) \<and> d < length (clock_domains m) \<and>
      m' = m\<lparr>signals := (signals m)[s := (signals m ! s)\<lparr>signal_domain := d\<rparr>]\<rparr>)"
    using run by (auto simp: pigen_signal_bind_domain_def Let_def model_get_defs arena_get_Some split: if_splits option.splits)
  then show ?thesis
  proof
    assume "m' = m"
    with inv show ?thesis by simp
  next
    assume m': "s < length (signals m) \<and> d < length (clock_domains m) \<and>
      m' = m\<lparr>signals := (signals m)[s := (signals m ! s)\<lparr>signal_domain := d\<rparr>]\<rparr>"
    have "scope_inv m'" using inv m' scope_inv_cong [of m' m] by (simp add: design_inv_def)
    moreover have "map signal_symbol (signals m') = map signal_symbol (signals m)"
      using m' by (simp add: map_update list_update_same_conv)
    moreover have "objects_inv m'"
      using inv m' by (auto simp: design_inv_def objects_inv_def dest!: set_update_subset_insert [THEN subsetD])
    ultimately show ?thesis
      using inv m' by (simp add: design_inv_def counts_inv_def links_inv_def domains_inv_def activity_inv_def signal_uses_inv_def)
  qed
qed

lemma clock_domain_inv:
  assumes inv: "design_inv m" and run: "pigen_clock_domain_intern m c e = (i, m')"
  shows "design_inv m'"
proof -
  have "m' = m \<or> (length (clock_domains m) < PIGEN_INVALID_ID \<and> c < length (symbols_arena m) \<and>
      symbol_kind (symbols_arena m ! c) = PIGEN_SYMBOL_SIGNAL \<and>
      symbol_object (symbols_arena m ! c) \<noteq> PIGEN_INVALID_ID \<and>
      \<lparr>clock_symbol = c, clock_edge = e\<rparr> \<notin> set (clock_domains m) \<and>
      m' = m\<lparr>clock_domains := clock_domains m @ [\<lparr>clock_symbol = c, clock_edge = e\<rparr>]\<rparr>)"
    using run
    by (auto simp: pigen_clock_domain_intern_def pigen_symbol_signal_def pigen_symbol_get_def arena_get_Some
        split: if_splits option.splits)
  then show ?thesis
  proof
    assume "m' = m"
    with inv show ?thesis by simp
  next
    assume m': "length (clock_domains m) < PIGEN_INVALID_ID \<and> c < length (symbols_arena m) \<and>
      symbol_kind (symbols_arena m ! c) = PIGEN_SYMBOL_SIGNAL \<and>
      symbol_object (symbols_arena m ! c) \<noteq> PIGEN_INVALID_ID \<and>
      \<lparr>clock_symbol = c, clock_edge = e\<rparr> \<notin> set (clock_domains m) \<and>
      m' = m\<lparr>clock_domains := clock_domains m @ [\<lparr>clock_symbol = c, clock_edge = e\<rparr>]\<rparr>"
    have "scope_inv m'" using inv m' scope_inv_cong [of m' m] by (simp add: design_inv_def)
    then show ?thesis
      using inv m'
      by (auto simp: design_inv_def counts_inv_def links_inv_def objects_inv_def domains_inv_def activity_inv_def
          signal_uses_inv_def less_Suc_eq)
  qed
qed

lemma process_add_inv:
  assumes inv: "design_inv m" and run: "pigen_process_add m syn md d c sp = (i, m')"
  shows "design_inv m'"
proof -
  have "m' = m \<or> (length (processes m) < PIGEN_INVALID_ID \<and> md < length (modules m) \<and>
      d < length (clock_domains m) \<and> c < length (expressions m) \<and>
      m' = m\<lparr>processes := processes m @ [\<lparr>process_syntax = syn, process_module = md, process_domain = d,
        process_clock = c, process_span = sp\<rparr>]\<rparr>)"
    using run
    by (auto simp: pigen_process_add_def model_get_defs arena_get_Some split: if_splits option.splits)
  then show ?thesis
  proof
    assume "m' = m"
    with inv show ?thesis by simp
  next
    assume m': "length (processes m) < PIGEN_INVALID_ID \<and> md < length (modules m) \<and>
      d < length (clock_domains m) \<and> c < length (expressions m) \<and>
      m' = m\<lparr>processes := processes m @ [\<lparr>process_syntax = syn, process_module = md, process_domain = d,
        process_clock = c, process_span = sp\<rparr>]\<rparr>"
    have "scope_inv m'" using inv m' scope_inv_cong [of m' m] by (simp add: design_inv_def)
    then show ?thesis
      using inv m'
      by (auto simp: design_inv_def counts_inv_def links_inv_def objects_inv_def domains_inv_def activity_inv_def
          signal_uses_inv_def nth_append less_Suc_eq)
  qed
qed

lemma signal_uses_valid:
  "signal_uses_valid m before us \<Longrightarrow> distinct (map use_signal before) \<Longrightarrow>
   signal_uses_inv m us \<and> distinct (map use_signal (before @ us))"
proof (induction m before us rule: signal_uses_valid.induct)
  case (1 m before)
  then show ?case by (simp add: signal_uses_inv_def)
next
  case (2 m before u us)
  then have u: "pigen_signal_get m (use_signal u) \<noteq> None" "use_roles u \<noteq> 0"
    "use_roles u AND NOT signal_role_mask = 0" "use_signal u \<notin> use_signal ` set before"
    "signal_uses_valid m (before @ [u]) us"
    by (auto split: if_splits)
  then have "signal_uses_inv m us \<and> distinct (map use_signal ((before @ [u]) @ us))"
    by (intro "2.IH") (use "2.prems" u in \<open>auto simp: image_iff\<close>)
  with u show ?case
    by (auto simp: signal_uses_inv_def pigen_signal_get_def arena_get_Some)
qed

lemma transfer_add_inv:
  assumes inv: "design_inv m" and run: "pigen_transfer_add m syn md p dst v g d us sp = (i, m')"
  shows "design_inv m'"
proof -
  let ?t = "\<lparr>transfer_syntax = syn, transfer_module = md, transfer_process = p, transfer_destination = dst,
    transfer_value = v, transfer_guard = g, transfer_domain = d,
    first_signal_use = length (transfer_signal_uses m), signal_use_count = length us, transfer_span = sp\<rparr>"
  have "m' = m \<or> (length (transfers m) < PIGEN_INVALID_ID \<and> p < length (processes m) \<and>
      process_module (processes m ! p) = md \<and> process_domain (processes m ! p) = d \<and>
      dst < length (lvalues m) \<and> v < length (expressions m) \<and> g < length (predicates m) \<and>
      signal_uses_valid m [] us \<and>
      m' = m\<lparr>transfers := transfers m @ [?t], transfer_signal_uses := transfer_signal_uses m @ us\<rparr>)"
    using run
    by (auto simp: pigen_transfer_add_def model_get_defs arena_get_Some split: if_splits option.splits)
  then show ?thesis
  proof
    assume "m' = m"
    with inv show ?thesis by simp
  next
    assume m': "length (transfers m) < PIGEN_INVALID_ID \<and> p < length (processes m) \<and>
      process_module (processes m ! p) = md \<and> process_domain (processes m ! p) = d \<and>
      dst < length (lvalues m) \<and> v < length (expressions m) \<and> g < length (predicates m) \<and>
      signal_uses_valid m [] us \<and>
      m' = m\<lparr>transfers := transfers m @ [?t], transfer_signal_uses := transfer_signal_uses m @ us\<rparr>"
    have "scope_inv m'" using inv m' scope_inv_cong [of m' m] by (simp add: design_inv_def)
    moreover have "signal_uses_inv m us" using m' signal_uses_valid [of m "[]" us] by simp
    ultimately show ?thesis
      using inv m'
      by (auto simp: design_inv_def counts_inv_def links_inv_def objects_inv_def domains_inv_def activity_inv_def
          signal_uses_inv_def less_Suc_eq)
  qed
qed

section \<open>The transition system\<close>

inductive design_step :: "pigen_semantic_model \<Rightarrow> pigen_semantic_model \<Rightarrow> bool" where
  step_scope: "pigen_scope_add m parent sp = (i, m') \<Longrightarrow> design_step m m'"
| step_compilation: "pigen_scope_add m PIGEN_INVALID_ID sp = (i, m') \<Longrightarrow> design_step m (m'\<lparr>compilation_scope := i\<rparr>)"
| step_declare: "pigen_symbol_declare m s kind dt name decl = Some (r, m') \<Longrightarrow> design_step m m'"
| step_module: "pigen_module_add m syn s sc sp = (i, m') \<Longrightarrow> design_step m m'"
| step_parameter: "pigen_parameter_add m syn md s v l sp = (i, m') \<Longrightarrow> design_step m m'"
| step_signal: "pigen_signal_add m syn md s dt sh arg tt dir sp = Some (i, m') \<Longrightarrow> design_step m m'"
| step_bind: "pigen_signal_bind_domain m s d = (b, m') \<Longrightarrow> design_step m m'"
| step_domain: "pigen_clock_domain_intern m c e = (i, m') \<Longrightarrow> design_step m m'"
| step_process: "pigen_process_add m syn md d c sp = (i, m') \<Longrightarrow> design_step m m'"
| step_transfer: "pigen_transfer_add m syn md p dst v g d us sp = (i, m') \<Longrightarrow> design_step m m'"
| step_other: "design_frame m m' \<Longrightarrow> design_step m m'"

inductive design_reachable :: "pigen_source_manager \<Rightarrow> pigen_semantic_model \<Rightarrow> bool" for manager where
  reachable_init: "design_reachable manager (pigen_semantic_init manager)"
| reachable_step: "design_reachable manager m \<Longrightarrow> design_step m m' \<Longrightarrow> design_reachable manager m'"

lemma init_inv: "design_inv (pigen_semantic_init manager)"
  by (simp add: design_inv_def scope_inv_def counts_inv_def links_inv_def objects_linked_def objects_inv_def
      domains_inv_def activity_inv_def pigen_semantic_init_def)

lemma step_inv: "design_step m m' \<Longrightarrow> design_inv m \<Longrightarrow> design_inv m'"
proof (induction rule: design_step.induct)
  case (step_declare m s kind dt name decl r m')
  then show ?case by (cases r) (auto intro: declare_inv)
qed (auto intro: scope_add_inv [THEN conjunct1] scope_add_inv [THEN conjunct2] module_add_inv parameter_add_inv
    signal_add_inv bind_domain_inv clock_domain_inv process_add_inv transfer_add_inv frame_inv)

lemma reachable_inv: "design_reachable manager m \<Longrightarrow> design_inv m"
  by (induction rule: design_reachable.induct) (auto intro: init_inv step_inv)

section \<open>Clock domains are interned\<close>

definition clock_signal :: "pigen_semantic_model \<Rightarrow> id \<Rightarrow> bool" where
  "clock_signal m s \<longleftrightarrow> pigen_symbol_get m s \<noteq> None \<and> pigen_symbol_signal m s \<noteq> PIGEN_INVALID_ID"

lemma linked_signal:
  assumes "design_inv m" and "s < length (symbols_arena m)"
    and "symbol_kind (symbols_arena m ! s) = PIGEN_SYMBOL_SIGNAL"
    and "symbol_object (symbols_arena m ! s) \<noteq> PIGEN_INVALID_ID"
  shows "clock_signal m s \<and> pigen_symbol_signal m s = symbol_object (symbols_arena m ! s)"
proof -
  let ?o = "symbol_object (symbols_arena m ! s)"
  have "s \<noteq> PIGEN_INVALID_ID" using assms(1,2) by (auto simp: design_inv_def scope_inv_def)
  moreover have "?o < length (signals m)" "map signal_symbol (signals m) ! ?o = s"
    using assms unfolding design_inv_def links_inv_def objects_linked_def by fastforce+
  ultimately show ?thesis
    using assms(2-4) by (auto simp: clock_signal_def pigen_symbol_signal_def model_get_defs arena_get_def)
qed

lemma clock_domain_run:
  fixes v :: pigen_semantic_clock_domain
  assumes "design_inv m" and "clock_signal m (clock_symbol v)"
    and run: "pigen_clock_domain_intern m (clock_symbol v) (clock_edge v) = (i, m')"
  shows "(i < length (clock_domains m) \<and> clock_domains m ! i = v \<and> m' = m) \<or>
    (v \<notin> set (clock_domains m) \<and> length (clock_domains m) = PIGEN_INVALID_ID \<and> i = PIGEN_INVALID_ID \<and> m' = m) \<or>
    (v \<notin> set (clock_domains m) \<and> length (clock_domains m) < PIGEN_INVALID_ID \<and> i = length (clock_domains m) \<and>
      m' = m\<lparr>clock_domains := clock_domains m @ [v]\<rparr>)"
proof -
  let ?P = "\<lambda>d. clock_symbol d = clock_symbol v \<and> clock_edge d = clock_edge v"
  have P: "?P = (\<lambda>d. d = v)" by (intro ext) (auto intro: pigen_semantic_clock_domain.equality)
  have le: "length (clock_domains m) \<le> PIGEN_INVALID_ID" using assms(1) by (simp add: design_inv_def counts_inv_def)
  obtain symbol where sym: "pigen_symbol_get m (clock_symbol v) = Some symbol"
    "pigen_symbol_signal m (clock_symbol v) \<noteq> PIGEN_INVALID_ID"
    using assms(2) by (auto simp: clock_signal_def)
  then have kind: "symbol_kind symbol = PIGEN_SYMBOL_SIGNAL"
    by (auto simp: pigen_symbol_signal_def split: if_splits)
  have eq: "\<lparr>clock_symbol = clock_symbol v, clock_edge = clock_edge v\<rparr> = v" by simp
  have body: "(case first_index (\<lambda>d. d = v) (clock_domains m) of
      Some i \<Rightarrow> (u32 i, m)
    | None \<Rightarrow> if \<not> id_capacity_available (length (clock_domains m)) then (PIGEN_INVALID_ID, m)
        else (u32 (length (clock_domains m)), m\<lparr>clock_domains := clock_domains m @ [v]\<rparr>)) = (i, m')"
    using run unfolding pigen_clock_domain_intern_def P eq by (simp add: sym kind)
  show ?thesis
  proof (cases "first_index (\<lambda>d. d = v) (clock_domains m)")
    case None
    then have new: "v \<notin> set (clock_domains m)" by auto
    show ?thesis
    proof (cases "id_capacity_available (length (clock_domains m))")
      case True
      then have "i = length (clock_domains m)" "m' = m\<lparr>clock_domains := clock_domains m @ [v]\<rparr>"
        using body unfolding None by auto
      with True new show ?thesis by blast
    next
      case False
      then have "i = PIGEN_INVALID_ID" "m' = m" using body unfolding None by auto
      moreover have "length (clock_domains m) = PIGEN_INVALID_ID" using False le by simp
      ultimately show ?thesis using new by blast
    qed
  next
    case (Some k)
    then have k: "k < length (clock_domains m)" "clock_domains m ! k = v"
      using first_index_Some [OF Some] by auto
    moreover have "(u32 k, m) = (i, m')" using body unfolding Some by simp
    ultimately show ?thesis using le by auto
  qed
qed

interpretation clock_arena: interning design_inv "\<lambda>m. length (clock_domains m)" "\<lambda>m i. clock_domains m ! i"
  "\<lambda>m v. clock_signal m (clock_symbol v)" "\<lambda>m. True"
  "\<lambda>m v. pigen_clock_domain_intern m (clock_symbol v) (clock_edge v)"
proof unfold_locales
  show "length (clock_domains m) \<le> PIGEN_INVALID_ID" if "design_inv m" for m
    using that by (simp add: design_inv_def counts_inv_def)
  show "i = j" if "design_inv m" "i < length (clock_domains m)" "j < length (clock_domains m)"
    "clock_domains m ! i = clock_domains m ! j" for m i j
    using that by (simp add: design_inv_def domains_inv_def nth_eq_iff_index_eq)
  show "design_inv m'" if "design_inv m" "pigen_clock_domain_intern m (clock_symbol v) (clock_edge v) = (i, m')" for m v i m'
    using that by (rule clock_domain_inv)
  fix m i m' and v :: pigen_semantic_clock_domain
  assume run: "design_inv m" "clock_signal m (clock_symbol v)"
    "pigen_clock_domain_intern m (clock_symbol v) (clock_edge v) = (i, m')"
  show "i < length (clock_domains m') \<and> clock_domains m' ! i = v" if "i \<noteq> PIGEN_INVALID_ID"
    using clock_domain_run [OF run] that by auto
  show "length (clock_domains m) \<le> length (clock_domains m') \<and>
      (\<forall>j < length (clock_domains m). clock_domains m' ! j = clock_domains m ! j)"
    using clock_domain_run [OF run] by (auto simp: nth_append)
next
  fix m i
  assume inv: "design_inv m" and i: "i < length (clock_domains m)"
  let ?v = "clock_domains m ! i"
  have v: "?v \<in> set (clock_domains m)" using i by simp
  then have "clock_signal m (clock_symbol ?v)"
    using inv linked_signal [OF inv, of "clock_symbol ?v"] by (auto simp: design_inv_def domains_inv_def)
  then obtain k m' where run: "pigen_clock_domain_intern m (clock_symbol ?v) (clock_edge ?v) = (k, m')"
    and c: "clock_signal m (clock_symbol ?v)" by fastforce
  from clock_domain_run [OF inv c run] v have "k < length (clock_domains m)" "clock_domains m ! k = ?v" "m' = m"
    by auto
  moreover from this i inv have "k = i" by (simp add: design_inv_def domains_inv_def nth_eq_iff_index_eq)
  ultimately show "pigen_clock_domain_intern m (clock_symbol ?v) (clock_edge ?v) = (i, m)" using run by simp
qed

section \<open>Enumerations\<close>

lemma owned_indices:
  assumes "length xs \<le> PIGEN_INVALID_ID"
  shows "owned_indices P xs = filter (\<lambda>i. P (xs ! i)) [0..<length xs]"
  using assms by (auto simp: owned_indices_def intro!: map_idI)

lemma owned_indices_spec:
  assumes "length xs \<le> PIGEN_INVALID_ID"
  shows "sorted_wrt (<) (owned_indices P xs)" "set (owned_indices P xs) = {i. i < length xs \<and> P (xs ! i)}"
  using assms by (auto simp: owned_indices sorted_wrt_filter)

end
