(* ===== verification/DesignProperties.thy ===== *)
theory DesignProperties
  imports DesignInvariant
begin

text \<open>
  The properties of scopes, symbols and the design records of src/src/semantic.c, applied to a
  model with the two nested scopes of a module and its ports.
\<close>

definition sample_source :: string where
  "sample_source = ''module m(clk,q)''"

definition sample_span :: "nat \<Rightarrow> nat \<Rightarrow> pigen_source_span" where
  "sample_span a b = \<lparr>span_source = 0, span_start = a, span_end = b\<rparr>"

definition sample_sources :: pigen_source_manager where
  "sample_sources = [\<lparr>source_path = ''s.pgn'', source_text = sample_source, line_starts = [0]\<rparr>]"

text \<open>The compilation scope and a module scope inside it.\<close>

definition sample_scopes :: pigen_semantic_model where
  "sample_scopes = (pigen_semantic_init sample_sources)
     \<lparr>scopes :=
        [\<lparr>scope_parent = PIGEN_INVALID_ID, last_symbol = PIGEN_INVALID_ID,
          scope_span = \<lparr>span_source = PIGEN_INVALID_ID, span_start = 0, span_end = 0\<rparr>\<rparr>,
         \<lparr>scope_parent = 0, last_symbol = PIGEN_INVALID_ID, scope_span = sample_span 0 15\<rparr>],
      compilation_scope := 0\<rparr>"

text \<open>The module's name declared in the compilation scope.\<close>

definition sample_declared :: pigen_semantic_model where
  "sample_declared =
     declared_model sample_scopes 0 PIGEN_SYMBOL_MODULE PIGEN_INVALID_ID (sample_span 7 8) (sample_span 0 15)"

definition sample_design :: pigen_semantic_model where
  "sample_design = snd (pigen_module_add sample_declared 0 0 1 (sample_span 0 15))"

lemma sample_span_valid [simp]:
  "pigen_source_span_valid sample_sources (sample_span a b) \<longleftrightarrow> a \<le> b \<and> b \<le> 15"
proof -
  have "length sample_source = 15" by (simp add: sample_source_def)
  then show ?thesis
    by (simp add: pigen_source_span_valid_def sample_span_def pigen_source_get_def sample_sources_def
        PIGEN_INVALID_ID_def)
qed

lemma sample_steps:
  "pigen_scope_add (pigen_semantic_init sample_sources) PIGEN_INVALID_ID
     \<lparr>span_source = PIGEN_INVALID_ID, span_start = 0, span_end = 0\<rparr> =
     (0, (pigen_semantic_init sample_sources)\<lparr>scopes :=
       [\<lparr>scope_parent = PIGEN_INVALID_ID, last_symbol = PIGEN_INVALID_ID,
         scope_span = \<lparr>span_source = PIGEN_INVALID_ID, span_start = 0, span_end = 0\<rparr>\<rparr>]\<rparr>)"
  "pigen_scope_add ((pigen_semantic_init sample_sources)\<lparr>scopes :=
       [\<lparr>scope_parent = PIGEN_INVALID_ID, last_symbol = PIGEN_INVALID_ID,
         scope_span = \<lparr>span_source = PIGEN_INVALID_ID, span_start = 0, span_end = 0\<rparr>\<rparr>],
       compilation_scope := 0\<rparr>) 0 (sample_span 0 15) = (1, sample_scopes)"
  by (simp_all add: pigen_scope_add_def pigen_semantic_init_def sample_scopes_def PIGEN_INVALID_ID_def u32_def)
    (simp add: sample_span_def)

lemma sample_declare:
  "pigen_symbol_declare sample_scopes 0 PIGEN_SYMBOL_MODULE PIGEN_INVALID_ID (sample_span 7 8) (sample_span 0 15) =
     Some ((PIGEN_DECLARE_OK, 0, PIGEN_INVALID_ID), sample_declared)"
proof -
  have "pigen_source_span_valid (sources sample_scopes) (sample_span a b) \<longleftrightarrow> a \<le> b \<and> b \<le> 15" for a b
    by (simp add: sample_scopes_def pigen_semantic_init_def)
  moreover have "scopes sample_scopes ! 0 = \<lparr>scope_parent = PIGEN_INVALID_ID, last_symbol = PIGEN_INVALID_ID,
      scope_span = \<lparr>span_source = PIGEN_INVALID_ID, span_start = 0, span_end = 0\<rparr>\<rparr>"
    "pigen_scope_get sample_scopes 0 \<noteq> None" "symbols_arena sample_scopes = []"
    by (simp_all add: sample_scopes_def model_get_defs arena_get_def PIGEN_INVALID_ID_def pigen_semantic_init_def)
  moreover have "span_start (sample_span 7 8) \<noteq> span_end (sample_span 7 8)"
    "span_contains (sample_span 0 15) (sample_span 7 8)"
    by (simp_all add: sample_span_def span_contains_def)
  ultimately show ?thesis
    by (simp add: pigen_symbol_declare_def typed_symbol_kind_def lookup_local_def declared_model_def
        sample_declared_def PIGEN_INVALID_ID_def [symmetric] u32_def)
      (simp add: PIGEN_INVALID_ID_def)
qed

lemma sample_reachable: "design_reachable sample_sources sample_scopes" "design_reachable sample_sources sample_declared"
  "design_reachable sample_sources sample_design"
proof -
  show s: "design_reachable sample_sources sample_scopes"
    using reachable_step [OF reachable_step [OF reachable_init step_compilation [OF sample_steps(1)]]
        step_scope [OF sample_steps(2)]] by simp
  show d: "design_reachable sample_sources sample_declared"
    by (rule reachable_step [OF s step_declare [OF sample_declare]])
  show "design_reachable sample_sources sample_design"
    by (rule reachable_step [OF d]) (auto simp: sample_design_def intro!: step_module prod.collapse [symmetric])
qed

lemma sample_scope_inv: "scope_inv sample_scopes" "scope_inv sample_declared"
  using sample_reachable [THEN reachable_inv] by (simp_all add: design_inv_def)

section \<open>Scopes\<close>

text \<open>
  C23: Looking a name up ends and finds the innermost declaration: the symbol of that name in the
  nearest enclosing scope that declares it, which is unique, or the invalid identity when no
  enclosing scope declares it.
\<close>

theorem lookup_innermost:
  assumes "scope_inv m"
  shows "\<exists>r. pigen_symbol_lookup m s name = Some r \<and>
    (if r = PIGEN_INVALID_ID then \<forall>i. \<not> visible m s name i
     else visible m s name r \<and> (\<forall>i. visible m s name i \<longrightarrow> i = r))"
proof -
  obtain r where r: "pigen_symbol_lookup m s name = Some r"
    using symbol_lookup [OF assms] by blast
  moreover have "if r = PIGEN_INVALID_ID then \<forall>i. \<not> visible m s name i
     else visible m s name r \<and> (\<forall>i. visible m s name i \<longrightarrow> i = r)"
    using r [unfolded symbol_lookup_eq [OF assms]] visible_unique [OF _ assms] by presburger
  ultimately show ?thesis by blast
qed

theorem lookup_innermost_witness:
  "\<exists>r. pigen_symbol_lookup sample_declared 1 (sample_span 7 8) = Some r \<and>
    (if r = PIGEN_INVALID_ID then \<forall>i. \<not> visible sample_declared 1 (sample_span 7 8) i
     else visible sample_declared 1 (sample_span 7 8) r \<and>
       (\<forall>i. visible sample_declared 1 (sample_span 7 8) i \<longrightarrow> i = r))"
  by (rule lookup_innermost [OF sample_scope_inv(2)])

text \<open>
  What a declaration does to the meaning of names: the name means the new symbol in its scope, the
  shadowed symbol reported is what the name meant in the enclosing scope, and other names keep their
  meaning in every scope.
\<close>

lemma declared_meaning:
  assumes inv: "scope_inv m"
    and run: "pigen_symbol_declare m s kind dt name decl = Some ((PIGEN_DECLARE_OK, d, sh), m')"
  shows "declares m' s name d" and "pigen_symbol_lookup m' s name = Some d"
    and "\<not> same_name m name other \<Longrightarrow> pigen_symbol_lookup m' t other = pigen_symbol_lookup m t other"
    and "pigen_symbol_lookup m (scope_parent (scopes m ! s)) name = Some sh"
proof -
  let ?p = "scope_parent (scopes m ! s)"
  from symbol_declare [OF inv, of s kind dt name decl] run
  have inv': "scope_inv m'" and s: "s < length (scopes m)" and d: "d = length (symbols_arena m)"
    and m': "m' = declared_model m s kind dt name decl"
    and valid: "pigen_source_span_valid (sources m) name"
    and sh: "if sh = PIGEN_INVALID_ID then \<forall>i. \<not> visible m ?p name i else visible m ?p name sh"
    by auto
  have self: "same_name m name name"
    using valid by (auto simp: same_name_def pigen_source_span_text_def pigen_source_span_valid_def split: option.splits)
  show "declares m' s name d" using self by (simp add: m' d declares_declared)
  have "visible m' s name d" unfolding m' d by (rule visible_declared_self [OF s self])
  then show "pigen_symbol_lookup m' s name = Some d"
    using visible_valid [OF _ inv'] by (simp add: symbol_lookup_eq [OF inv'])
  show "pigen_symbol_lookup m' t other = pigen_symbol_lookup m t other" if "\<not> same_name m name other"
  proof -
    have "pigen_symbol_lookup m' t other = Some r \<longleftrightarrow> pigen_symbol_lookup m t other = Some r" for r
      unfolding symbol_lookup_eq [OF inv'] symbol_lookup_eq [OF inv]
      unfolding m' visible_declared_other [OF that] ..
    with symbol_lookup [OF inv, of t other] show ?thesis by force
  qed
  show "pigen_symbol_lookup m ?p name = Some sh"
    using sh by (simp only: symbol_lookup_eq [OF inv])
qed

text \<open>
  C24: Declaring a name in a scope always returns, and in exactly one of three ways. A request the
  scope cannot take (\<open>declarable\<close>: the scope, the data type its kind needs or must not have, the
  spans, an identity left) is invalid and changes nothing. Otherwise the name is a duplicate exactly
  when the same scope has declared it already; the first declaration is reported and nothing
  changes, so a second declaration of a name after a successful one is a duplicate. In every other
  case, declarations in enclosing scopes notwithstanding, the declaration succeeds: the name then
  means the new symbol in its scope, the shadowed symbol reported is what the name meant in the
  enclosing scope, and every other name means what it meant in every scope.
\<close>

theorem declaration_shadows:
  assumes "scope_inv m"
  shows "\<exists>res d sh m'. pigen_symbol_declare m s kind dt name decl = Some ((res, d, sh), m') \<and> scope_inv m' \<and>
    (if \<not> declarable m s kind dt name decl
     then res = PIGEN_DECLARE_INVALID \<and> d = PIGEN_INVALID_ID \<and> sh = PIGEN_INVALID_ID \<and> m' = m
     else if \<exists>i. declares m s name i
     then res = PIGEN_DECLARE_DUPLICATE \<and> declares m s name d \<and> sh = PIGEN_INVALID_ID \<and> m' = m
     else res = PIGEN_DECLARE_OK \<and> d = length (symbols_arena m) \<and> declares m' s name d \<and>
       symbol_kind (symbols_arena m' ! d) = kind \<and> symbol_data_type (symbols_arena m' ! d) = dt \<and>
       pigen_symbol_lookup m' s name = Some d \<and>
       pigen_symbol_lookup m (scope_parent (scopes m ! s)) name = Some sh \<and>
       (\<forall>t other. \<not> same_name m name other \<longrightarrow> pigen_symbol_lookup m' t other = pigen_symbol_lookup m t other))"
proof -
  from symbol_declare [OF assms, of s kind dt name decl] obtain res d sh m' where
    run: "pigen_symbol_declare m s kind dt name decl = Some ((res, d, sh), m')" and inv': "scope_inv m'"
    and out: "case res of
       PIGEN_DECLARE_INVALID \<Rightarrow> \<not> declarable m s kind dt name decl \<and> m' = m \<and>
         d = PIGEN_INVALID_ID \<and> sh = PIGEN_INVALID_ID
     | PIGEN_DECLARE_DUPLICATE \<Rightarrow> declarable m s kind dt name decl \<and> m' = m \<and>
         declares m s name d \<and> sh = PIGEN_INVALID_ID
     | PIGEN_DECLARE_OK \<Rightarrow> declarable m s kind dt name decl \<and> (\<forall>i. \<not> declares m s name i) \<and>
         d = length (symbols_arena m) \<and> m' = declared_model m s kind dt name decl"
    by (fastforce split: pigen_declare_result.splits)
  show ?thesis
  proof (cases res)
    case PIGEN_DECLARE_OK
    with out have "declarable m s kind dt name decl" "\<forall>i. \<not> declares m s name i" "d = length (symbols_arena m)"
      "symbol_kind (symbols_arena m' ! d) = kind" "symbol_data_type (symbols_arena m' ! d) = dt"
      by (simp_all add: declared_model_def)
    with declared_meaning [OF assms run [unfolded PIGEN_DECLARE_OK]] inv' show ?thesis
      unfolding run PIGEN_DECLARE_OK by simp
  next
    case PIGEN_DECLARE_DUPLICATE
    with out inv' show ?thesis unfolding run PIGEN_DECLARE_DUPLICATE by auto
  next
    case PIGEN_DECLARE_INVALID
    with out inv' show ?thesis unfolding run PIGEN_DECLARE_INVALID by simp
  qed
qed

theorem declaration_shadows_witness:
  "\<exists>res d sh m'. pigen_symbol_declare sample_declared 0 PIGEN_SYMBOL_FSM PIGEN_INVALID_ID
       (sample_span 7 8) (sample_span 0 15) = Some ((res, d, sh), m') \<and>
     res = PIGEN_DECLARE_DUPLICATE \<and> d = 0 \<and> m' = sample_declared"
proof -
  note declared = declared_meaning [OF sample_scope_inv(1) sample_declare]
  have "declarable sample_declared 0 PIGEN_SYMBOL_FSM PIGEN_INVALID_ID (sample_span 7 8) (sample_span 0 15)"
    by (simp add: declarable_def sample_declared_def declared_model_def sample_scopes_def typed_symbol_kind_def
        PIGEN_INVALID_ID_def pigen_semantic_init_def)
      (simp add: sample_span_def span_contains_def)
  moreover have "d = 0" if "declares sample_declared 0 (sample_span 7 8) d" for d
    using declares_unique [OF sample_scope_inv(2) that declared(1)] .
  moreover have "\<exists>i. declares sample_declared 0 (sample_span 7 8) i" using declared(1) by blast
  ultimately show ?thesis
    using declaration_shadows [OF sample_scope_inv(2), of 0 PIGEN_SYMBOL_FSM PIGEN_INVALID_ID "sample_span 7 8" "sample_span 0 15"]
    by (simp only: not_True_eq_False if_False if_True) blast
qed

section \<open>The design\<close>

text \<open>
  C4: In every model the operations can build, starting from an empty one, the design records are
  consistent: symbols and their modules, parameters and signals name each other, clock domains are
  stored once and belong to declared signals, every transfer has the module and the clock domain of
  its process, and its signal uses name distinct existing signals with known roles.
\<close>

theorem reachable_consistent:
  assumes "design_reachable manager m"
  shows "design_inv m"
  by (rule reachable_inv [OF assms])

theorem reachable_consistent_witness: "design_inv sample_design"
  by (rule reachable_consistent [OF sample_reachable(3)])

text \<open>No operation changes the clock domain of a bound signal.\<close>

lemma step_keeps_domain:
  assumes "design_step x y" and "s < length (signals x)" and "signal_domain (signals x ! s) = d"
    and "d \<noteq> PIGEN_INVALID_ID"
  shows "s < length (signals y) \<and> signal_domain (signals y ! s) = d"
  using assms
proof (induction rule: design_step.induct)
  case (step_declare m s' kind dt name decl r m')
  then have "signals m' = signals m"
    by (auto simp: pigen_symbol_declare_def bind_eq_Some_conv Let_def split: if_splits)
  with step_declare show ?case by simp
next
  case (step_signal m syn md s' dt sh arg tt dir sp i m')
  then show ?case
    by (auto simp: pigen_signal_add_def Let_def bind_eq_Some_conv set_symbol_object_def nth_append
        split: option.splits if_splits)
next
  case (step_bind m s' d' b m')
  then show ?case
    by (auto simp: pigen_signal_bind_domain_def Let_def nth_list_update split: if_splits option.splits)
next
  case (step_module m syn s' sc sp i m')
  then show ?case
    by (auto simp: pigen_module_add_def Let_def set_symbol_object_def split: option.splits if_splits)
next
  case (step_parameter m syn md s' v l sp i m')
  then show ?case
    by (auto simp: pigen_parameter_add_def Let_def set_symbol_object_def split: option.splits if_splits)
next
  case (step_transfer m syn md p dst v g d' us sp i m')
  then show ?case
    by (auto simp: pigen_transfer_add_def split: option.splits if_splits)
next
  case (step_process m syn md d' c sp i m')
  then show ?case
    by (auto simp: pigen_process_add_def split: option.splits if_splits)
next
  case (step_domain m c e i m')
  then show ?case
    by (auto simp: pigen_clock_domain_intern_def split: option.splits if_splits)
qed (auto simp: pigen_scope_add_def Let_def design_frame_def split: if_splits)

text \<open>
  C25: The clock domain of a signal is fixed once: whatever operations follow, a signal that is
  bound to a domain stays bound to it, and binding it to another one is refused.
\<close>

theorem domain_bound_once:
  assumes "design_step\<^sup>*\<^sup>* m m'" and "s < length (signals m)" and "signal_domain (signals m ! s) = d"
    and "d \<noteq> PIGEN_INVALID_ID"
  shows "s < length (signals m') \<and> signal_domain (signals m' ! s) = d \<and>
    (fst (pigen_signal_bind_domain m' s e) \<longrightarrow>
      e = d \<or> map_option binds_domain (pigen_transfer_type_descriptor_get
        (signal_transfer_type (signals m' ! s))) = Some 0)"
proof -
  have "s < length (signals m') \<and> signal_domain (signals m' ! s) = d"
    using assms(1)
  proof (induction rule: rtranclp_induct)
    case base
    then show ?case using assms by simp
  next
    case (step y z)
    then show ?case using step_keeps_domain assms(4) by blast
  qed
  then show ?thesis
    using assms(4)
    by (auto simp: pigen_signal_bind_domain_def Let_def split: if_splits option.splits)
qed

text \<open>A model with a signal of type \<open>port\<close> already bound to the clock domain 0.\<close>

definition sample_bound :: pigen_semantic_model where
  "sample_bound = sample_scopes
     \<lparr>signals := [\<lparr>signal_syntax = 1, signal_module = 0, signal_symbol = 1, signal_data_type = 0,
        signal_shape = 0, signal_transfer_argument = PIGEN_INVALID_ID,
        signal_transfer_type = PIGEN_TRANSFER_TYPE_PORT, signal_direction = PIGEN_SEMANTIC_INPUT,
        signal_domain = 0, signal_span = sample_span 9 12\<rparr>]\<rparr>"

theorem domain_bound_once_witness:
  "\<not> fst (pigen_signal_bind_domain (snd (pigen_scope_add sample_bound 1 (sample_span 6 15))) 0 1)"
proof -
  let ?m = "snd (pigen_scope_add sample_bound 1 (sample_span 6 15))"
  have step: "design_step\<^sup>*\<^sup>* sample_bound ?m"
    by (rule r_into_rtranclp, rule step_scope [where i = "fst (pigen_scope_add sample_bound 1 (sample_span 6 15))"]) simp
  have s: "signals ?m = signals sample_bound" by (simp add: pigen_scope_add_def Let_def)
  have d: "pigen_transfer_type_descriptor_get PIGEN_TRANSFER_TYPE_PORT = Some (transfer_types ! 5)"
    "binds_domain (transfer_types ! 5) = 1"
    by (simp_all add: pigen_transfer_type_descriptor_get_def transfer_types_def)
  have b: "0 < length (signals sample_bound)" "signal_domain (signals sample_bound ! 0) = 0"
    "signal_transfer_type (signals sample_bound ! 0) = PIGEN_TRANSFER_TYPE_PORT" "(0 :: id) \<noteq> PIGEN_INVALID_ID"
    by (simp_all add: sample_bound_def PIGEN_INVALID_ID_def)
  from domain_bound_once [OF step b(1,2,4), of 1] show ?thesis
    unfolding s b(3) d(1) by (simp add: d(2))
qed

text \<open>
  Interning a clock domain for a declared signal keeps the arena free of duplicates and every
  earlier identity, so two identities are equal exactly when the clock and the edge are, and
  interning the same clock and edge again gives the same identity and changes nothing.
\<close>

theorem clock_domains_interned:
  assumes "design_inv m" and "clock_signal m c" and "pigen_clock_domain_intern m c e = (i, m')"
    and "i \<noteq> PIGEN_INVALID_ID"
  shows "design_inv m' \<and> clock_domains m' ! i = \<lparr>clock_symbol = c, clock_edge = e\<rparr> \<and>
    (\<forall>j < length (clock_domains m). clock_domains m' ! j = clock_domains m ! j \<and>
      (i = j \<longleftrightarrow> clock_domains m ! j = \<lparr>clock_symbol = c, clock_edge = e\<rparr>)) \<and>
    pigen_clock_domain_intern m' c e = (i, m')"
proof -
  let ?v = "\<lparr>clock_symbol = c, clock_edge = e\<rparr>"
  have w: "clock_signal m (clock_symbol ?v)" and run: "pigen_clock_domain_intern m (clock_symbol ?v) (clock_edge ?v) = (i, m')"
    using assms by simp_all
  note facts = assms(1) w run
  show ?thesis
    using clock_arena.intern_inv [OF facts] clock_arena.intern_content [OF facts assms(4)]
      clock_arena.intern_stable [OF facts] clock_arena.intern_eq_iff [OF facts assms(4)]
      clock_arena.intern_again [OF facts assms(4)] by simp
qed

text \<open>A module \<open>m\<close> with the clock signal \<open>clk\<close> and no clock domain yet.\<close>

definition sample_clocked :: pigen_semantic_model where
  "sample_clocked = sample_scopes
     \<lparr>scopes := [\<lparr>scope_parent = PIGEN_INVALID_ID, last_symbol = 1, scope_span = sample_span 0 15\<rparr>],
      symbols_arena :=
        [\<lparr>symbol_kind = PIGEN_SYMBOL_MODULE, symbol_scope = 0, previous_in_scope = PIGEN_INVALID_ID,
          symbol_data_type = PIGEN_INVALID_ID, symbol_name = sample_span 7 8,
          symbol_declaration = sample_span 0 15, symbol_object = 0\<rparr>,
         \<lparr>symbol_kind = PIGEN_SYMBOL_SIGNAL, symbol_scope = 0, previous_in_scope = 0,
          symbol_data_type = 0, symbol_name = sample_span 9 12,
          symbol_declaration = sample_span 9 12, symbol_object = 0\<rparr>],
      modules := [\<lparr>module_syntax = 0, module_symbol = 0, module_scope = 0, module_span = sample_span 0 15\<rparr>],
      data_types := [\<lparr>data_constructor = PIGEN_DATA_TYPE_LOGIC, data_signedness = PIGEN_SIGN_UNSIGNED,
        data_alias = PIGEN_INVALID_ID, alias_target = PIGEN_INVALID_ID, intrinsic_width = PIGEN_INVALID_ID,
        data_exact_value = PIGEN_INVALID_ID, data_first_dimension = 0, data_dimension_count = 0\<rparr>],
      shapes := [\<lparr>shape_first_dimension = 0, shape_dimension_count = 0\<rparr>],
      signals := [\<lparr>signal_syntax = 1, signal_module = 0, signal_symbol = 1, signal_data_type = 0,
        signal_shape = 0, signal_transfer_argument = PIGEN_INVALID_ID,
        signal_transfer_type = PIGEN_TRANSFER_TYPE_WIRE, signal_direction = PIGEN_SEMANTIC_INPUT,
        signal_domain = PIGEN_INVALID_ID, signal_span = sample_span 9 12\<rparr>]\<rparr>"

lemma less_two: "i < Suc (Suc 0) \<longleftrightarrow> i = 0 \<or> i = Suc 0"
  by auto

lemma sample_clocked_inv: "design_inv sample_clocked"
proof -
  let ?s = "symbols_arena sample_clocked"
  have names: "symbol_name (?s ! 0) = sample_span 7 8" "symbol_name (?s ! Suc 0) = sample_span 9 12"
    "length ?s = 2" "symbol_scope (?s ! 0) = 0" "symbol_scope (?s ! Suc 0) = 0"
    "previous_in_scope (?s ! 0) = PIGEN_INVALID_ID" "previous_in_scope (?s ! Suc 0) = 0"
    "scopes sample_clocked = [\<lparr>scope_parent = PIGEN_INVALID_ID, last_symbol = 1, scope_span = sample_span 0 15\<rparr>]"
    by (simp_all add: sample_clocked_def)
  have "\<not> same_name sample_clocked (sample_span 7 8) (sample_span 9 12)"
    by (auto simp: same_name_def sample_clocked_def sample_scopes_def pigen_semantic_init_def
        pigen_source_span_text_def pigen_source_get_def sample_sources_def sample_span_def PIGEN_INVALID_ID_def
        sample_source_def slice_def split: if_splits)
  then have "scope_inv sample_clocked"
    using same_name_sym [of sample_clocked "sample_span 9 12" "sample_span 7 8"]
    unfolding scope_inv_def declares_def names(3)
    by (auto simp: names less_two numeral_2_eq_2) (simp_all add: PIGEN_INVALID_ID_def)
  then show ?thesis
    by (simp add: design_inv_def counts_inv_def links_inv_def objects_linked_def objects_inv_def domains_inv_def
        activity_inv_def)
      (simp add: sample_clocked_def sample_scopes_def pigen_semantic_init_def PIGEN_INVALID_ID_def less_two
        all_conj_distrib)
qed

theorem clock_domains_interned_witness:
  "pigen_clock_domain_intern (snd (pigen_clock_domain_intern sample_clocked 1 PIGEN_SEMANTIC_POSEDGE)) 1 PIGEN_SEMANTIC_POSEDGE =
     pigen_clock_domain_intern sample_clocked 1 PIGEN_SEMANTIC_POSEDGE"
proof -
  have c: "clock_signal sample_clocked 1"
    by (simp add: clock_signal_def pigen_symbol_signal_def model_get_defs arena_get_def sample_clocked_def
        PIGEN_INVALID_ID_def)
  obtain i m' where r: "pigen_clock_domain_intern sample_clocked 1 PIGEN_SEMANTIC_POSEDGE = (i, m')" by fastforce
  have "i = 0"
    using r by (simp add: pigen_clock_domain_intern_def pigen_symbol_signal_def model_get_defs arena_get_def
        sample_clocked_def sample_scopes_def pigen_semantic_init_def PIGEN_INVALID_ID_def u32_def)
  then show ?thesis
    using clock_domains_interned [OF sample_clocked_inv c r] r by (simp add: PIGEN_INVALID_ID_def)
qed

end
