(* ===== verification/DataTypes.thy ===== *)
theory DataTypes
  imports SemanticModel Interning
begin

text \<open>
  The data-type arena of src/src/data_type.c and the capabilities of a data type: construction and
  canonical storage, alias resolution, packed projections, numerical interpretation, and the
  conversions an assignment or an explicit cast resolves to.
\<close>

section \<open>Primitive types\<close>

record primitive_data_type_descriptor =
  primitive_constructor :: data_type_constructor
  primitive_spelling :: "string option"
  base_width :: nat
  primitive_state_domain :: pigen_state_domain
  is_integral :: bool

definition primitive_data_types :: "primitive_data_type_descriptor list" where
  "primitive_data_types =
     [\<lparr>primitive_constructor = PIGEN_DATA_TYPE_LOGIC, primitive_spelling = Some ''logic'', base_width = 1,
        primitive_state_domain = PIGEN_DATA_TYPE_STATE_FOUR, is_integral = True\<rparr>,
      \<lparr>primitive_constructor = PIGEN_DATA_TYPE_BIT, primitive_spelling = Some ''bit'', base_width = 1,
        primitive_state_domain = PIGEN_DATA_TYPE_STATE_TWO, is_integral = True\<rparr>,
      \<lparr>primitive_constructor = PIGEN_DATA_TYPE_UNSIZED_INTEGER, primitive_spelling = None, base_width = 32,
        primitive_state_domain = PIGEN_DATA_TYPE_STATE_FOUR, is_integral = True\<rparr>,
      \<lparr>primitive_constructor = PIGEN_DATA_TYPE_SIGNED_INTEGER, primitive_spelling = None, base_width = 0,
        primitive_state_domain = PIGEN_DATA_TYPE_STATE_TWO, is_integral = True\<rparr>,
      \<lparr>primitive_constructor = PIGEN_DATA_TYPE_UNSIGNED_INTEGER, primitive_spelling = None, base_width = 0,
        primitive_state_domain = PIGEN_DATA_TYPE_STATE_TWO, is_integral = True\<rparr>,
      \<lparr>primitive_constructor = PIGEN_DATA_TYPE_EXACT_INTEGER, primitive_spelling = None, base_width = 0,
        primitive_state_domain = PIGEN_DATA_TYPE_STATE_TWO, is_integral = False\<rparr>]"

definition spelling_is :: "pigen_semantic_model \<Rightarrow> pigen_source_span \<Rightarrow> string \<Rightarrow> bool" where
  "spelling_is model sp expected \<longleftrightarrow>
     (case pigen_source_span_text (sources model) sp of
        None \<Rightarrow> False
      | Some t \<Rightarrow> length t = length expected \<and> t = expected)"

definition primitive_descriptor :: "data_type_constructor \<Rightarrow> primitive_data_type_descriptor option" where
  "primitive_descriptor c =
     map_option ((!) primitive_data_types) (first_index (\<lambda>d. primitive_constructor d = c) primitive_data_types)"

definition primitive_from_spelling ::
    "pigen_semantic_model \<Rightarrow> pigen_source_span \<Rightarrow> primitive_data_type_descriptor option" where
  "primitive_from_spelling model sp =
     map_option ((!) primitive_data_types)
       (first_index (\<lambda>d. case primitive_spelling d of None \<Rightarrow> False | Some s \<Rightarrow> spelling_is model sp s)
         primitive_data_types)"

definition scalar_constructor :: "pigen_state_domain \<Rightarrow> data_type_constructor" where
  "scalar_constructor state_domain =
     (if state_domain = PIGEN_DATA_TYPE_STATE_TWO then PIGEN_DATA_TYPE_BIT
      else if state_domain = PIGEN_DATA_TYPE_STATE_FOUR then PIGEN_DATA_TYPE_LOGIC
      else PIGEN_DATA_TYPE_INVALID)"

section \<open>Canonical storage\<close>

definition dimensions_equal ::
    "pigen_semantic_model \<Rightarrow> pigen_data_type \<Rightarrow> pigen_packed_dimension list \<Rightarrow> bool" where
  "dimensions_equal model known dimensions \<longleftrightarrow>
     data_dimension_count known = length dimensions \<and>
     (\<forall>i \<in> {0..<length dimensions}.
        let d = data_type_dimensions model ! (data_first_dimension known + i)
        in dimension_left d = dimension_left (dimensions ! i) \<and>
           dimension_right d = dimension_right (dimensions ! i))"

definition is_integer_constructor :: "data_type_constructor \<Rightarrow> bool" where
  "is_integer_constructor c \<longleftrightarrow> c = PIGEN_DATA_TYPE_SIGNED_INTEGER \<or> c = PIGEN_DATA_TYPE_UNSIGNED_INTEGER"

text \<open>The parameters of \<open>data_type_intern\<close> that describe the type.\<close>

record type_value =
  value_constructor :: data_type_constructor
  value_signedness :: pigen_signedness
  value_alias :: id
  value_target :: id
  value_width :: id
  value_exact :: id
  value_dimensions :: "pigen_packed_dimension list"

definition type_rejected :: "pigen_semantic_model \<Rightarrow> type_value \<Rightarrow> bool" where
  "type_rejected model v \<longleftrightarrow>
     (value_constructor v \<noteq> PIGEN_DATA_TYPE_ALIAS \<and> primitive_descriptor (value_constructor v) = None) \<or>
     value_signedness v = PIGEN_SIGN_INVALID \<or>
     length (data_types model) \<ge> PIGEN_INVALID_ID \<or>
     (if value_constructor v = PIGEN_DATA_TYPE_ALIAS then
        value_alias v = PIGEN_INVALID_ID \<or> value_target v = PIGEN_INVALID_ID \<or>
        value_target v \<ge> length (data_types model) \<or> value_width v \<noteq> PIGEN_INVALID_ID \<or>
        value_exact v \<noteq> PIGEN_INVALID_ID
      else
        value_alias v \<noteq> PIGEN_INVALID_ID \<or> value_target v \<noteq> PIGEN_INVALID_ID \<or>
        is_integer_constructor (value_constructor v) \<noteq> (value_width v \<noteq> PIGEN_INVALID_ID) \<or>
        (value_constructor v = PIGEN_DATA_TYPE_EXACT_INTEGER) \<noteq> (value_exact v \<noteq> PIGEN_INVALID_ID)) \<or>
     (value_width v \<noteq> PIGEN_INVALID_ID \<and> pigen_const_expr_get model (value_width v) = None) \<or>
     (\<exists>d \<in> set (value_dimensions v). pigen_const_expr_get model (dimension_left d) = None \<or>
        pigen_const_expr_get model (dimension_right d) = None)"

definition type_matches :: "pigen_semantic_model \<Rightarrow> type_value \<Rightarrow> pigen_data_type \<Rightarrow> bool" where
  "type_matches model v known \<longleftrightarrow>
     data_constructor known = value_constructor v \<and> data_signedness known = value_signedness v \<and>
     data_alias known = value_alias v \<and> alias_target known = value_target v \<and>
     intrinsic_width known = value_width v \<and> data_exact_value known = value_exact v \<and>
     dimensions_equal model known (value_dimensions v)"

definition data_type_intern :: "pigen_semantic_model \<Rightarrow> type_value \<Rightarrow> id \<times> pigen_semantic_model" where
  "data_type_intern model v =
     (if type_rejected model v then (PIGEN_INVALID_ID, model)
      else case first_index (type_matches model v) (data_types model) of
        Some i \<Rightarrow> (u32 i, model)
      | None \<Rightarrow>
          (u32 (length (data_types model)),
           model\<lparr>data_types := data_types model @
               [\<lparr>data_constructor = value_constructor v, data_signedness = value_signedness v,
                 data_alias = value_alias v, alias_target = value_target v,
                 intrinsic_width = value_width v, data_exact_value = value_exact v,
                 data_first_dimension = length (data_type_dimensions model),
                 data_dimension_count = length (value_dimensions v)\<rparr>],
             data_type_dimensions := data_type_dimensions model @ value_dimensions v\<rparr>))"

text \<open>The call with no alias, width or exact value.\<close>

definition plain_type ::
    "data_type_constructor \<Rightarrow> pigen_signedness \<Rightarrow> pigen_packed_dimension list \<Rightarrow> type_value" where
  "plain_type c s dims =
     \<lparr>value_constructor = c, value_signedness = s, value_alias = PIGEN_INVALID_ID,
      value_target = PIGEN_INVALID_ID, value_width = PIGEN_INVALID_ID, value_exact = PIGEN_INVALID_ID,
      value_dimensions = dims\<rparr>"

definition scalar_data_type :: "pigen_semantic_model \<Rightarrow> pigen_state_domain \<Rightarrow> id \<times> pigen_semantic_model" where
  "scalar_data_type model state_domain =
     (if scalar_constructor state_domain = PIGEN_DATA_TYPE_INVALID then (PIGEN_INVALID_ID, model)
      else data_type_intern model (plain_type (scalar_constructor state_domain) PIGEN_SIGN_UNSIGNED []))"

definition primitive_data_type_from_spelling ::
    "pigen_semantic_model \<Rightarrow> pigen_source_span \<Rightarrow> pigen_signedness \<Rightarrow> pigen_packed_dimension list \<Rightarrow>
     id \<times> pigen_semantic_model" where
  "primitive_data_type_from_spelling model sp signedness dimensions =
     (case primitive_from_spelling model sp of
        None \<Rightarrow> (PIGEN_INVALID_ID, model)
      | Some descriptor \<Rightarrow>
          data_type_intern model (plain_type (primitive_constructor descriptor) signedness dimensions))"

definition pigen_data_type_implicit ::
    "pigen_semantic_model \<Rightarrow> pigen_signedness \<Rightarrow> pigen_packed_dimension list \<Rightarrow> id \<times> pigen_semantic_model" where
  "pigen_data_type_implicit model signedness dimensions =
     data_type_intern model (plain_type PIGEN_DATA_TYPE_LOGIC signedness dimensions)"

definition pigen_data_type_alias ::
    "pigen_semantic_model \<Rightarrow> id \<Rightarrow> id \<Rightarrow> pigen_signedness \<Rightarrow> pigen_packed_dimension list \<Rightarrow>
     id \<times> pigen_semantic_model" where
  "pigen_data_type_alias model alias target signedness dimensions =
     data_type_intern model
       \<lparr>value_constructor = PIGEN_DATA_TYPE_ALIAS, value_signedness = signedness, value_alias = alias,
        value_target = target, value_width = PIGEN_INVALID_ID, value_exact = PIGEN_INVALID_ID,
        value_dimensions = dimensions\<rparr>"

definition pigen_data_type_unsized_integer :: "pigen_semantic_model \<Rightarrow> id \<times> pigen_semantic_model" where
  "pigen_data_type_unsized_integer model =
     (if unsized_integer_data_type model = PIGEN_INVALID_ID then
        let (result, model1) = data_type_intern model
              (plain_type PIGEN_DATA_TYPE_UNSIZED_INTEGER PIGEN_SIGN_SIGNED [])
        in (result, model1\<lparr>unsized_integer_data_type := result\<rparr>)
      else (unsized_integer_data_type model, model))"

definition pigen_data_type_boolean :: "pigen_semantic_model \<Rightarrow> id \<times> pigen_semantic_model" where
  "pigen_data_type_boolean model =
     (if boolean_data_type model = PIGEN_INVALID_ID then
        let (result, model1) = data_type_intern model (plain_type PIGEN_DATA_TYPE_LOGIC PIGEN_SIGN_UNSIGNED [])
        in (result, model1\<lparr>boolean_data_type := result\<rparr>)
      else (boolean_data_type model, model))"

section \<open>Accessors\<close>

definition pigen_data_type_signedness :: "pigen_semantic_model \<Rightarrow> id \<Rightarrow> pigen_signedness" where
  "pigen_data_type_signedness model i =
     (case data_type_get model i of None \<Rightarrow> PIGEN_SIGN_INVALID | Some known \<Rightarrow> data_signedness known)"

definition pigen_data_type_dimension_count :: "pigen_semantic_model \<Rightarrow> id \<Rightarrow> nat" where
  "pigen_data_type_dimension_count model i =
     (case data_type_get model i of None \<Rightarrow> 0 | Some known \<Rightarrow> data_dimension_count known)"

definition pigen_data_type_alias_symbol :: "pigen_semantic_model \<Rightarrow> id \<Rightarrow> id" where
  "pigen_data_type_alias_symbol model i =
     (case data_type_get model i of
        None \<Rightarrow> PIGEN_INVALID_ID
      | Some known \<Rightarrow> if data_constructor known = PIGEN_DATA_TYPE_ALIAS then data_alias known else PIGEN_INVALID_ID)"

definition pigen_data_type_alias_target :: "pigen_semantic_model \<Rightarrow> id \<Rightarrow> id" where
  "pigen_data_type_alias_target model i =
     (case data_type_get model i of
        None \<Rightarrow> PIGEN_INVALID_ID
      | Some known \<Rightarrow> if data_constructor known = PIGEN_DATA_TYPE_ALIAS then alias_target known else PIGEN_INVALID_ID)"

definition pigen_data_type_dimensions :: "pigen_semantic_model \<Rightarrow> id \<Rightarrow> pigen_packed_dimension list option" where
  "pigen_data_type_dimensions model i =
     (case data_type_get model i of
        None \<Rightarrow> None
      | Some known \<Rightarrow>
          if data_dimension_count known = 0 then None
          else Some (slice (data_first_dimension known) (data_dimension_count known) (data_type_dimensions model)))"

section \<open>Aliases\<close>

text \<open>The loops stop after as many rounds as there are data types, and then answer the invalid identity.\<close>

fun projection_loop :: "pigen_semantic_model \<Rightarrow> id \<Rightarrow> nat \<Rightarrow> id" where
  "projection_loop model i 0 = PIGEN_INVALID_ID"
| "projection_loop model i (Suc remaining) =
     (case data_type_get model i of
        None \<Rightarrow> PIGEN_INVALID_ID
      | Some known \<Rightarrow>
          if data_dimension_count known \<noteq> 0 \<or> data_constructor known \<noteq> PIGEN_DATA_TYPE_ALIAS then i
          else projection_loop model (alias_target known) remaining)"

definition packed_projection_base :: "pigen_semantic_model \<Rightarrow> id \<Rightarrow> id" where
  "packed_projection_base model i = projection_loop model i (length (data_types model) + 1)"

fun underlying_loop :: "pigen_semantic_model \<Rightarrow> id \<Rightarrow> nat \<Rightarrow> id" where
  "underlying_loop model i 0 = PIGEN_INVALID_ID"
| "underlying_loop model i (Suc remaining) =
     (case data_type_get model i of
        None \<Rightarrow> PIGEN_INVALID_ID
      | Some known \<Rightarrow>
          if data_constructor known \<noteq> PIGEN_DATA_TYPE_ALIAS then i
          else underlying_loop model (alias_target known) remaining)"

definition underlying_data_type :: "pigen_semantic_model \<Rightarrow> id \<Rightarrow> id" where
  "underlying_data_type model i = underlying_loop model i (length (data_types model) + 1)"

section \<open>Packed projections\<close>

definition pigen_data_type_packed_element :: "pigen_semantic_model \<Rightarrow> id \<Rightarrow> id \<times> pigen_semantic_model" where
  "pigen_data_type_packed_element model i =
     (let base = packed_projection_base model i
      in case data_type_get model base of
           None \<Rightarrow> (PIGEN_INVALID_ID, model)
         | Some known \<Rightarrow>
             if data_dimension_count known = 0 then
               (case primitive_descriptor (data_constructor known) of
                  Some descriptor \<Rightarrow>
                    if intrinsic_width known \<noteq> PIGEN_INVALID_ID \<or> base_width descriptor > 1
                    then scalar_data_type model (primitive_state_domain descriptor)
                    else (PIGEN_INVALID_ID, model)
                | None \<Rightarrow> (PIGEN_INVALID_ID, model))
             else
               data_type_intern model
                 \<lparr>value_constructor = data_constructor known,
                  value_signedness = (if data_constructor known = PIGEN_DATA_TYPE_ALIAS
                    then data_signedness known else PIGEN_SIGN_UNSIGNED),
                  value_alias = data_alias known, value_target = alias_target known,
                  value_width = intrinsic_width known, value_exact = data_exact_value known,
                  value_dimensions = slice (data_first_dimension known + 1) (data_dimension_count known - 1)
                    (data_type_dimensions model)\<rparr>)"

definition packed_select_with_dimension ::
    "pigen_semantic_model \<Rightarrow> id \<Rightarrow> pigen_packed_dimension \<Rightarrow> id \<times> pigen_semantic_model" where
  "packed_select_with_dimension model i selected =
     (let base = packed_projection_base model i
      in case data_type_get model base of
           None \<Rightarrow> (PIGEN_INVALID_ID, model)
         | Some known \<Rightarrow>
             if data_dimension_count known = 0 then
               (case primitive_descriptor (data_constructor known) of
                  None \<Rightarrow> (PIGEN_INVALID_ID, model)
                | Some descriptor \<Rightarrow>
                    if (intrinsic_width known = PIGEN_INVALID_ID \<and> base_width descriptor \<le> 1) \<or>
                       scalar_constructor (primitive_state_domain descriptor) = PIGEN_DATA_TYPE_INVALID
                    then (PIGEN_INVALID_ID, model)
                    else data_type_intern model
                      \<lparr>value_constructor = scalar_constructor (primitive_state_domain descriptor),
                       value_signedness = PIGEN_SIGN_UNSIGNED, value_alias = PIGEN_INVALID_ID,
                       value_target = alias_target known, value_width = PIGEN_INVALID_ID,
                       value_exact = data_exact_value known, value_dimensions = [selected]\<rparr>)
             else
               data_type_intern model
                 \<lparr>value_constructor = data_constructor known, value_signedness = PIGEN_SIGN_UNSIGNED,
                  value_alias = data_alias known, value_target = alias_target known,
                  value_width = intrinsic_width known, value_exact = data_exact_value known,
                  value_dimensions = selected #
                    slice (data_first_dimension known + 1) (data_dimension_count known - 1)
                      (data_type_dimensions model)\<rparr>)"

section \<open>Domains and interpretations\<close>

datatype pigen_type_spelling_domain =
    PIGEN_TYPE_SPELLING_UNKNOWN | PIGEN_TYPE_SPELLING_SYSTEMVERILOG | PIGEN_TYPE_SPELLING_PIGEN

datatype pigen_unqualified_transfer_policy =
    PIGEN_UNQUALIFIED_TRANSFER_STATIC | PIGEN_UNQUALIFIED_TRANSFER_ABSTRACT
  | PIGEN_UNQUALIFIED_TRANSFER_FORBIDDEN

definition pigen_data_type_spelling_domain ::
    "pigen_semantic_model \<Rightarrow> pigen_source_span \<Rightarrow> pigen_type_spelling_domain" where
  "pigen_data_type_spelling_domain model sp =
     (if spelling_is model sp ''int'' \<or> spelling_is model sp ''uint'' then PIGEN_TYPE_SPELLING_PIGEN
      else if spelling_is model sp ''byte'' then PIGEN_TYPE_SPELLING_SYSTEMVERILOG
      else if primitive_from_spelling model sp \<noteq> None then PIGEN_TYPE_SPELLING_SYSTEMVERILOG
      else PIGEN_TYPE_SPELLING_UNKNOWN)"

definition underlying :: "pigen_semantic_model \<Rightarrow> id \<Rightarrow> pigen_data_type option" where
  "underlying model i = data_type_get model (underlying_data_type model i)"

definition pigen_data_type_unqualified_transfer_policy ::
    "pigen_semantic_model \<Rightarrow> id \<Rightarrow> bool \<Rightarrow> pigen_unqualified_transfer_policy" where
  "pigen_data_type_unqualified_transfer_policy model i is_input =
     (case underlying model i of
        None \<Rightarrow> PIGEN_UNQUALIFIED_TRANSFER_FORBIDDEN
      | Some known \<Rightarrow>
          (case data_constructor known of
             PIGEN_DATA_TYPE_SIGNED_INTEGER \<Rightarrow>
               if is_input then PIGEN_UNQUALIFIED_TRANSFER_ABSTRACT else PIGEN_UNQUALIFIED_TRANSFER_FORBIDDEN
           | PIGEN_DATA_TYPE_UNSIGNED_INTEGER \<Rightarrow>
               if is_input then PIGEN_UNQUALIFIED_TRANSFER_ABSTRACT else PIGEN_UNQUALIFIED_TRANSFER_FORBIDDEN
           | PIGEN_DATA_TYPE_BIT \<Rightarrow>
               if is_input then PIGEN_UNQUALIFIED_TRANSFER_ABSTRACT else PIGEN_UNQUALIFIED_TRANSFER_STATIC
           | PIGEN_DATA_TYPE_LOGIC \<Rightarrow> PIGEN_UNQUALIFIED_TRANSFER_STATIC
           | PIGEN_DATA_TYPE_UNSIZED_INTEGER \<Rightarrow> PIGEN_UNQUALIFIED_TRANSFER_STATIC
           | _ \<Rightarrow> PIGEN_UNQUALIFIED_TRANSFER_FORBIDDEN))"

definition pigen_data_type_domain :: "pigen_semantic_model \<Rightarrow> id \<Rightarrow> pigen_type_spelling_domain" where
  "pigen_data_type_domain model i =
     (case underlying model i of
        None \<Rightarrow> PIGEN_TYPE_SPELLING_UNKNOWN
      | Some known \<Rightarrow>
          if is_integer_constructor (data_constructor known) \<or>
             data_constructor known = PIGEN_DATA_TYPE_EXACT_INTEGER
          then PIGEN_TYPE_SPELLING_PIGEN else PIGEN_TYPE_SPELLING_SYSTEMVERILOG)"

definition pigen_data_type_is_integral :: "pigen_semantic_model \<Rightarrow> id \<Rightarrow> bool" where
  "pigen_data_type_is_integral model i =
     (case underlying model i of
        None \<Rightarrow> False
      | Some known \<Rightarrow>
          (case primitive_descriptor (data_constructor known) of
             None \<Rightarrow> False | Some descriptor \<Rightarrow> is_integral descriptor))"

definition pigen_data_type_state_domain :: "pigen_semantic_model \<Rightarrow> id \<Rightarrow> pigen_state_domain" where
  "pigen_data_type_state_domain model i =
     (case underlying model i of
        None \<Rightarrow> PIGEN_DATA_TYPE_STATE_INVALID
      | Some known \<Rightarrow>
          (case primitive_descriptor (data_constructor known) of
             None \<Rightarrow> PIGEN_DATA_TYPE_STATE_INVALID | Some descriptor \<Rightarrow> primitive_state_domain descriptor))"

definition pigen_data_type_exact_value :: "pigen_semantic_model \<Rightarrow> id \<Rightarrow> id" where
  "pigen_data_type_exact_value model i =
     (case underlying model i of
        None \<Rightarrow> PIGEN_INVALID_ID
      | Some known \<Rightarrow>
          if data_constructor known = PIGEN_DATA_TYPE_EXACT_INTEGER then data_exact_value known
          else PIGEN_INVALID_ID)"

definition pigen_data_type_numerical_interpretation ::
    "pigen_semantic_model \<Rightarrow> id \<Rightarrow> pigen_numerical_interpretation" where
  "pigen_data_type_numerical_interpretation model i =
     (case underlying model i of
        None \<Rightarrow> PIGEN_NUMERICAL_INVALID
      | Some known \<Rightarrow>
          if data_constructor known = PIGEN_DATA_TYPE_SIGNED_INTEGER then PIGEN_NUMERICAL_SIGNED_INTEGER
          else if data_constructor known = PIGEN_DATA_TYPE_UNSIGNED_INTEGER then PIGEN_NUMERICAL_UNSIGNED_INTEGER
          else if data_constructor known = PIGEN_DATA_TYPE_EXACT_INTEGER then PIGEN_NUMERICAL_EXACT_INTEGER
          else PIGEN_NUMERICAL_SYSTEMVERILOG)"

definition data_type_is_pigen_integer :: "pigen_semantic_model \<Rightarrow> id \<Rightarrow> bool" where
  "data_type_is_pigen_integer model i \<longleftrightarrow>
     (let interpretation1 = pigen_data_type_numerical_interpretation model i
      in interpretation1 = PIGEN_NUMERICAL_SIGNED_INTEGER \<or>
         interpretation1 = PIGEN_NUMERICAL_UNSIGNED_INTEGER \<or>
         interpretation1 = PIGEN_NUMERICAL_EXACT_INTEGER)"

definition data_type_is_raw_vector :: "pigen_semantic_model \<Rightarrow> id \<Rightarrow> bool" where
  "data_type_is_raw_vector model i \<longleftrightarrow>
     pigen_data_type_is_integral model i \<and>
     pigen_data_type_numerical_interpretation model i = PIGEN_NUMERICAL_SYSTEMVERILOG"

section \<open>Integer types\<close>

definition integer_width_is_valid :: "pigen_semantic_model \<Rightarrow> id \<Rightarrow> bool" where
  "integer_width_is_valid model width =
     (case pigen_const_expr_get model width of
        None \<Rightarrow> False
      | Some known \<Rightarrow>
          pigen_data_type_is_integral model (const_data_type known) \<and>
          (case const_as known of PIGEN_CONST_EXPR_INTEGER v \<Rightarrow> v \<noteq> 0 | _ \<Rightarrow> True))"

definition integer_data_type ::
    "pigen_semantic_model \<Rightarrow> data_type_constructor \<Rightarrow> id \<Rightarrow> id \<times> pigen_semantic_model" where
  "integer_data_type model c width =
     (if \<not> integer_width_is_valid model width then (PIGEN_INVALID_ID, model)
      else data_type_intern model
        \<lparr>value_constructor = c,
         value_signedness = (if c = PIGEN_DATA_TYPE_SIGNED_INTEGER then PIGEN_SIGN_SIGNED else PIGEN_SIGN_UNSIGNED),
         value_alias = PIGEN_INVALID_ID, value_target = PIGEN_INVALID_ID, value_width = width,
         value_exact = PIGEN_INVALID_ID, value_dimensions = []\<rparr>)"

definition pigen_data_type_signed_integer :: "pigen_semantic_model \<Rightarrow> id \<Rightarrow> id \<times> pigen_semantic_model" where
  "pigen_data_type_signed_integer model width = integer_data_type model PIGEN_DATA_TYPE_SIGNED_INTEGER width"

definition pigen_data_type_unsigned_integer :: "pigen_semantic_model \<Rightarrow> id \<Rightarrow> id \<times> pigen_semantic_model" where
  "pigen_data_type_unsigned_integer model width = integer_data_type model PIGEN_DATA_TYPE_UNSIGNED_INTEGER width"

definition pigen_data_type_exact_integer :: "pigen_semantic_model \<Rightarrow> id \<Rightarrow> id \<times> pigen_semantic_model" where
  "pigen_data_type_exact_integer model val =
     (if val = PIGEN_INVALID_ID \<or> val \<ge> length (integers model) then (PIGEN_INVALID_ID, model)
      else data_type_intern model
        \<lparr>value_constructor = PIGEN_DATA_TYPE_EXACT_INTEGER, value_signedness = PIGEN_SIGN_IMPLICIT,
         value_alias = PIGEN_INVALID_ID, value_target = PIGEN_INVALID_ID, value_width = PIGEN_INVALID_ID,
         value_exact = val, value_dimensions = []\<rparr>)"

section \<open>Conversions\<close>

definition conversion_resolve ::
    "pigen_semantic_model \<Rightarrow> id \<Rightarrow> id \<Rightarrow> pigen_conversion_kind \<Rightarrow> pigen_conversion option" where
  "conversion_resolve model source target kind =
     (if data_type_get model source = None \<or> data_type_get model target = None then None
      else Some \<lparr>conversion_kind = kind, source_data_type = source, target_data_type = target\<rparr>)"

definition pigen_data_type_resolve_assignment_conversion ::
    "pigen_semantic_model \<Rightarrow> id \<Rightarrow> id \<Rightarrow> pigen_conversion option" where
  "pigen_data_type_resolve_assignment_conversion model source target =
     (if data_type_get model source = None \<or> data_type_get model target = None then None
      else if source = target then conversion_resolve model source target PIGEN_CONVERSION_IDENTITY
      else
        let source_interpretation = pigen_data_type_numerical_interpretation model source;
            target_interpretation = pigen_data_type_numerical_interpretation model target
        in if source_interpretation = PIGEN_NUMERICAL_EXACT_INTEGER \<and>
              (target_interpretation = PIGEN_NUMERICAL_SIGNED_INTEGER \<or>
               target_interpretation = PIGEN_NUMERICAL_UNSIGNED_INTEGER)
           then conversion_resolve model source target PIGEN_CONVERSION_EXACT_INTEGER
           else if data_type_is_pigen_integer model source \<and> data_type_is_pigen_integer model target \<and>
              source_interpretation = target_interpretation
           then conversion_resolve model source target PIGEN_CONVERSION_INTEGER_RESIZE
           else None)"

definition pigen_data_type_resolve_explicit_conversion ::
    "pigen_semantic_model \<Rightarrow> id \<Rightarrow> id \<Rightarrow> pigen_conversion option" where
  "pigen_data_type_resolve_explicit_conversion model source target =
     (if data_type_get model source = None \<or> data_type_get model target = None then None
      else if source = target then conversion_resolve model source target PIGEN_CONVERSION_IDENTITY
      else
        let source_interpretation = pigen_data_type_numerical_interpretation model source;
            target_interpretation = pigen_data_type_numerical_interpretation model target
        in if source_interpretation = PIGEN_NUMERICAL_EXACT_INTEGER \<and>
              target_interpretation \<noteq> PIGEN_NUMERICAL_EXACT_INTEGER \<and>
              (target_interpretation = PIGEN_NUMERICAL_SIGNED_INTEGER \<or>
               target_interpretation = PIGEN_NUMERICAL_UNSIGNED_INTEGER \<or>
               pigen_data_type_is_integral model target)
           then conversion_resolve model source target PIGEN_CONVERSION_EXACT_INTEGER
           else if data_type_is_pigen_integer model source \<and> data_type_is_pigen_integer model target
           then conversion_resolve model source target
             (if source_interpretation = target_interpretation then PIGEN_CONVERSION_INTEGER_RESIZE
              else PIGEN_CONVERSION_INTEGER_REINTERPRET)
           else if data_type_is_raw_vector model source \<and> data_type_is_pigen_integer model target
           then conversion_resolve model source target PIGEN_CONVERSION_VECTOR_TO_INTEGER
           else if data_type_is_pigen_integer model source \<and> data_type_is_raw_vector model target
           then conversion_resolve model source target PIGEN_CONVERSION_INTEGER_TO_VECTOR
           else None)"

end
