(* ===== verification/Predicates.thy ===== *)
theory Predicates
  imports DataTypes Interning
begin

text \<open>
  Guards (src/src/predicate.c): conjunctions of conditions expected to hold or not to hold, stored
  as lists of atoms in the order of the condition identities, or the impossible guard.
\<close>

section \<open>The routines\<close>

definition integral_condition :: "pigen_semantic_model \<Rightarrow> id \<Rightarrow> bool" where
  "integral_condition model expression =
     (case pigen_expr_get model expression of
        None \<Rightarrow> False | Some known \<Rightarrow> pigen_data_type_is_integral model (expr_data_type known))"

definition same_atoms :: "pigen_semantic_model \<Rightarrow> pigen_predicate \<Rightarrow> pigen_predicate_atom list \<Rightarrow> bool" where
  "same_atoms model known atoms \<longleftrightarrow>
     atom_count known = length atoms \<and>
     (\<forall>i < length atoms.
        let stored = predicate_atoms model ! (first_atom known + i)
        in atom_condition stored = atom_condition (atoms ! i) \<and> atom_expected stored = atom_expected (atoms ! i))"

definition intern_predicate ::
    "pigen_semantic_model \<Rightarrow> bool \<Rightarrow> pigen_predicate_atom list \<Rightarrow> id \<times> pigen_semantic_model" where
  "intern_predicate model imp atoms =
     (if imp \<and> atoms \<noteq> [] \<or> length (predicates model) \<ge> PIGEN_INVALID_ID \<or>
         length atoms > SIZE_MAX - length (predicate_atoms model)
      then (PIGEN_INVALID_ID, model)
      else case first_index (\<lambda>known. impossible known = imp \<and> same_atoms model known atoms)
          (predicates model) of
        Some i \<Rightarrow> (u32 i, model)
      | None \<Rightarrow>
          (u32 (length (predicates model)),
           model\<lparr>predicates := predicates model @
               [\<lparr>first_atom = length (predicate_atoms model), atom_count = length atoms, impossible = imp\<rparr>],
             predicate_atoms := predicate_atoms model @ atoms\<rparr>))"

definition pigen_predicate_true :: "pigen_semantic_model \<Rightarrow> id \<times> pigen_semantic_model" where
  "pigen_predicate_true model =
     (if true_predicate model = PIGEN_INVALID_ID
      then let (i, model1) = intern_predicate model False []
        in (i, model1\<lparr>true_predicate := i\<rparr>)
      else (true_predicate model, model))"

definition pigen_predicate_false :: "pigen_semantic_model \<Rightarrow> id \<times> pigen_semantic_model" where
  "pigen_predicate_false model =
     (if false_predicate model = PIGEN_INVALID_ID
      then let (i, model1) = intern_predicate model True []
        in (i, model1\<lparr>false_predicate := i\<rparr>)
      else (false_predicate model, model))"

definition pigen_predicate_atoms :: "pigen_semantic_model \<Rightarrow> id \<Rightarrow> pigen_predicate_atom list option" where
  "pigen_predicate_atoms model predicate =
     (case pigen_predicate_get model predicate of
        None \<Rightarrow> None
      | Some known \<Rightarrow>
          if first_atom known > length (predicate_atoms model) \<or>
             atom_count known > length (predicate_atoms model) - first_atom known then None
          else if atom_count known = 0 then None
          else Some (slice (first_atom known) (atom_count known) (predicate_atoms model)))"

text \<open>The atoms the loops read; a null result is only indexed when there is no atom.\<close>

definition known_atoms :: "pigen_semantic_model \<Rightarrow> id \<Rightarrow> pigen_predicate_atom list" where
  "known_atoms model predicate = (case pigen_predicate_atoms model predicate of None \<Rightarrow> [] | Some atoms \<Rightarrow> atoms)"

text \<open>
  The loop of \<open>pigen_predicate_and_condition\<close>: the position where it stops, and whether it stops at
  an atom of the same condition.
\<close>

fun atom_position :: "id \<Rightarrow> pigen_predicate_atom list \<Rightarrow> nat \<Rightarrow> nat \<times> bool" where
  "atom_position condition [] at = (at, False)"
| "atom_position condition (known # rest) at =
     (if atom_condition known = condition then (at, True)
      else if atom_condition known > condition then (at, False)
      else atom_position condition rest (at + 1))"

definition pigen_predicate_and_condition ::
    "pigen_semantic_model \<Rightarrow> id \<Rightarrow> id \<Rightarrow> int \<Rightarrow> id \<times> pigen_semantic_model" where
  "pigen_predicate_and_condition model predicate condition expected =
     (case pigen_predicate_get model predicate of
        None \<Rightarrow> (PIGEN_INVALID_ID, model)
      | Some base \<Rightarrow>
          if expected \<noteq> 0 \<and> expected \<noteq> 1 \<or> \<not> integral_condition model condition
          then (PIGEN_INVALID_ID, model)
          else if impossible base then (predicate, model)
          else
            let known = known_atoms model predicate;
                (at, found) = atom_position condition known 0
            in if found then
                 (if atom_expected (known ! at) = (expected = 1) then (predicate, model)
                  else pigen_predicate_false model)
               else intern_predicate model False
                 (take at known @ [\<lparr>atom_condition = condition, atom_expected = (expected = 1)\<rparr>] @ drop at known))"

text \<open>The merge loop of the exclusion test, over the parts of the two lists not yet passed.\<close>

fun opposite_atoms :: "pigen_predicate_atom list \<Rightarrow> pigen_predicate_atom list \<Rightarrow> bool" where
  "opposite_atoms (a # as) (b # bs) =
     (if atom_condition a < atom_condition b then opposite_atoms as (b # bs)
      else if atom_condition a > atom_condition b then opposite_atoms (a # as) bs
      else if atom_expected a \<noteq> atom_expected b then True
      else opposite_atoms as bs)"
| "opposite_atoms _ _ = False"

definition pigen_predicates_mutually_exclusive :: "pigen_semantic_model \<Rightarrow> id \<Rightarrow> id \<Rightarrow> bool" where
  "pigen_predicates_mutually_exclusive model left_id right_id =
     (case (pigen_predicate_get model left_id, pigen_predicate_get model right_id) of
        (Some left, Some right) \<Rightarrow>
          impossible left \<or> impossible right \<or>
          opposite_atoms (known_atoms model left_id) (known_atoms model right_id)
      | _ \<Rightarrow> False)"

section \<open>Abstraction: sets of literals\<close>

type_synonym literal = "id \<times> bool"

definition atoms_of :: "pigen_semantic_model \<Rightarrow> id \<Rightarrow> pigen_predicate_atom list" where
  "atoms_of m i = slice (first_atom (predicates m ! i)) (atom_count (predicates m ! i)) (predicate_atoms m)"

definition literal_of :: "pigen_predicate_atom \<Rightarrow> literal" where
  "literal_of a = (atom_condition a, atom_expected a)"

text \<open>The guard as the set of its literals, or None for the impossible one.\<close>

definition guard_of :: "pigen_semantic_model \<Rightarrow> id \<Rightarrow> literal set option" where
  "guard_of m i = (if impossible (predicates m ! i) then None else Some (literal_of ` set (atoms_of m i)))"

text \<open>Conjunction with one literal on the abstract guards.\<close>

definition conjoin :: "literal \<Rightarrow> literal set option \<Rightarrow> literal set option" where
  "conjoin l g = (case g of None \<Rightarrow> None
     | Some S \<Rightarrow> if (fst l, \<not> snd l) \<in> S then None else Some (insert l S))"

text \<open>When a guard holds, given the values of the conditions.\<close>

definition guard_holds :: "(id \<Rightarrow> bool) \<Rightarrow> literal set option \<Rightarrow> bool" where
  "guard_holds env g = (case g of None \<Rightarrow> False | Some S \<Rightarrow> \<forall>(c, e) \<in> S. env c = e)"

text \<open>The stored value: impossibility and the ordered atoms.\<close>

definition predicate_value :: "pigen_semantic_model \<Rightarrow> id \<Rightarrow> bool \<times> pigen_predicate_atom list" where
  "predicate_value m i = (impossible (predicates m ! i), atoms_of m i)"

definition ordered_atoms :: "pigen_predicate_atom list \<Rightarrow> bool" where
  "ordered_atoms xs \<longleftrightarrow> sorted_wrt (<) (map atom_condition xs)"

definition proper_value :: "bool \<times> pigen_predicate_atom list \<Rightarrow> bool" where
  "proper_value v \<longleftrightarrow> (fst v \<longrightarrow> snd v = []) \<and> ordered_atoms (snd v)"

definition predicate_inv :: "pigen_semantic_model \<Rightarrow> bool" where
  "predicate_inv m \<longleftrightarrow>
     length (predicates m) \<le> PIGEN_INVALID_ID \<and>
     (\<forall>i < length (predicates m).
        first_atom (predicates m ! i) + atom_count (predicates m ! i) \<le> length (predicate_atoms m) \<and>
        proper_value (predicate_value m i)) \<and>
     (\<forall>i < length (predicates m). \<forall>j < length (predicates m).
        predicate_value m i = predicate_value m j \<longrightarrow> i = j) \<and>
     (true_predicate m \<noteq> PIGEN_INVALID_ID \<longrightarrow>
        true_predicate m < length (predicates m) \<and> predicate_value m (true_predicate m) = (False, [])) \<and>
     (false_predicate m \<noteq> PIGEN_INVALID_ID \<longrightarrow>
        false_predicate m < length (predicates m) \<and> predicate_value m (false_predicate m) = (True, []))"

section \<open>Interning guards\<close>

lemma same_atoms_iff:
  assumes "predicate_inv m" and "i < length (predicates m)"
  shows "same_atoms m (predicates m ! i) atoms \<longleftrightarrow> atoms_of m i = atoms"
proof -
  let ?f = "first_atom (predicates m ! i)" and ?n = "atom_count (predicates m ! i)"
  have b: "?f + ?n \<le> length (predicate_atoms m)" using assms by (simp add: predicate_inv_def)
  have eq: "atom_condition a = atom_condition b \<and> atom_expected a = atom_expected b \<longleftrightarrow> a = b"
    for a b :: pigen_predicate_atom
    by (cases a; cases b) simp
  have "same_atoms m (predicates m ! i) atoms \<longleftrightarrow>
      ?n = length atoms \<and> (\<forall>k < length atoms. predicate_atoms m ! (?f + k) = atoms ! k)"
    by (simp only: same_atoms_def Let_def eq)
  also have "\<dots> \<longleftrightarrow> length (atoms_of m i) = length atoms \<and> (\<forall>k < length (atoms_of m i). atoms_of m i ! k = atoms ! k)"
    using b by (auto simp: atoms_of_def nth_slice)
  also have "\<dots> \<longleftrightarrow> atoms_of m i = atoms" by (simp only: list_eq_iff_nth_eq)
  finally show ?thesis .
qed

text \<open>The state after a new guard was stored.\<close>

definition predicate_added :: "pigen_semantic_model \<Rightarrow> bool \<times> pigen_predicate_atom list \<Rightarrow> pigen_semantic_model" where
  "predicate_added m v =
     m\<lparr>predicates := predicates m @
         [\<lparr>first_atom = length (predicate_atoms m), atom_count = length (snd v), impossible = fst v\<rparr>],
       predicate_atoms := predicate_atoms m @ snd v\<rparr>"

lemma predicate_value_added:
  assumes "predicate_inv m"
  shows "i < length (predicates m) \<Longrightarrow> predicate_value (predicate_added m v) i = predicate_value m i"
    and "predicate_value (predicate_added m v) (length (predicates m)) = v"
  using assms by (simp_all add: predicate_value_def atoms_of_def predicate_added_def predicate_inv_def nth_append)

lemma predicate_added_fields [simp]:
  "length (predicates (predicate_added m v)) = Suc (length (predicates m))"
  "true_predicate (predicate_added m v) = true_predicate m"
  "false_predicate (predicate_added m v) = false_predicate m"
  by (simp_all add: predicate_added_def)

lemma predicate_added_inv:
  assumes inv: "predicate_inv m" and ok: "proper_value v" and n: "length (predicates m) < PIGEN_INVALID_ID"
    and new: "\<And>i. i < length (predicates m) \<Longrightarrow> predicate_value m i \<noteq> v"
  shows "predicate_inv (predicate_added m v)"
proof -
  let ?m = "predicate_added m v" and ?n = "length (predicates m)"
  have val: "predicate_value ?m i = (if i < ?n then predicate_value m i else v)" if "i < Suc ?n" for i
    using predicate_value_added(1) [OF inv, of i v] predicate_value_added(2) [OF inv, of v] that
    by (auto simp: less_Suc_eq)
  have bound: "first_atom (predicates ?m ! i) + atom_count (predicates ?m ! i) \<le> length (predicate_atoms ?m)"
    if "i < Suc ?n" for i
    using that inv by (cases "i < ?n") (auto simp: predicate_added_def predicate_inv_def nth_append less_Suc_eq)
  have distinct: "i = j" if "i < Suc ?n" "j < Suc ?n" "predicate_value ?m i = predicate_value ?m j" for i j
  proof -
    have old: "i = j" if "i < ?n" "j < ?n" "predicate_value m i = predicate_value m j"
      using inv that unfolding predicate_inv_def by blast
    show ?thesis
      using that new [of i] new [of j] val [of i] val [of j] old
      by (cases "i < ?n"; cases "j < ?n") (auto simp: less_Suc_eq)
  qed
  have special: "k < Suc ?n \<and> predicate_value ?m k = u"
    if "k < ?n \<and> predicate_value m k = u" for k u
    using that val [of k] by simp
  show ?thesis
    unfolding predicate_inv_def
  proof (intro conjI allI impI)
    fix i assume "i < length (predicates ?m)"
    then have i: "i < Suc ?n" by simp
    show "first_atom (predicates ?m ! i) + atom_count (predicates ?m ! i) \<le> length (predicate_atoms ?m)"
      by (rule bound [OF i])
    show "proper_value (predicate_value ?m i)"
      using val [OF i] inv ok by (auto simp: predicate_inv_def)
  next
    fix i j
    assume "i < length (predicates ?m)" "j < length (predicates ?m)" "predicate_value ?m i = predicate_value ?m j"
    then show "i = j" by (intro distinct) simp_all
  qed (use n inv special in \<open>auto simp: predicate_inv_def\<close>)
qed

lemma intern_predicate:
  assumes inv: "predicate_inv m" and ok: "proper_value (imp, atoms)"
    and run: "intern_predicate m imp atoms = (i, m')"
  shows "i = PIGEN_INVALID_ID \<and> m' = m \<and>
      (PIGEN_INVALID_ID \<le> length (predicates m) \<or> SIZE_MAX - length (predicate_atoms m) < length atoms) \<or>
    length (predicates m) < PIGEN_INVALID_ID \<and>
      (i < length (predicates m) \<and> predicate_value m i = (imp, atoms) \<and> m' = m \<or>
       i = length (predicates m) \<and> (\<forall>j < length (predicates m). predicate_value m j \<noteq> (imp, atoms)) \<and>
       m' = predicate_added m (imp, atoms))"
proof (cases "imp \<and> atoms \<noteq> [] \<or> length (predicates m) \<ge> PIGEN_INVALID_ID \<or>
    length atoms > SIZE_MAX - length (predicate_atoms m)")
  case True
  then have "(PIGEN_INVALID_ID, m) = (i, m')" using run by (simp add: intern_predicate_def)
  with True ok show ?thesis by (auto simp: proper_value_def)
next
  case False
  have matches: "impossible (predicates m ! j) = imp \<and> same_atoms m (predicates m ! j) atoms \<longleftrightarrow>
      predicate_value m j = (imp, atoms)" if "j < length (predicates m)" for j
    using same_atoms_iff [OF inv that] by (simp add: predicate_value_def)
  show ?thesis
  proof (cases "first_index (\<lambda>known. impossible known = imp \<and> same_atoms m known atoms) (predicates m)")
    case None
    then have "\<forall>j < length (predicates m). predicate_value m j \<noteq> (imp, atoms)"
      using matches nth_mem unfolding first_index_None by blast
    moreover have "(u32 (length (predicates m)), predicate_added m (imp, atoms)) = (i, m')"
      using run unfolding intern_predicate_def None if_not_P [OF False] by (simp add: predicate_added_def)
    ultimately show ?thesis using False by auto
  next
    case (Some k)
    then have k: "k < length (predicates m)"
        "impossible (predicates m ! k) = imp \<and> same_atoms m (predicates m ! k) atoms"
      using first_index_Some [OF Some] by auto
    moreover have "(u32 k, m) = (i, m')" using run unfolding intern_predicate_def Some if_not_P [OF False] by simp
    ultimately show ?thesis using False matches [OF k(1)] by auto
  qed
qed

interpretation guard_arena: interning predicate_inv "\<lambda>m. length (predicates m)" predicate_value
  "\<lambda>m v. proper_value v"
  "\<lambda>m. length (predicates m) < PIGEN_INVALID_ID \<and> 2 * length (predicate_atoms m) \<le> SIZE_MAX"
  "\<lambda>m v. intern_predicate m (fst v) (snd v)"
proof unfold_locales
  show "length (predicates m) \<le> PIGEN_INVALID_ID" if "predicate_inv m" for m
    using that by (simp add: predicate_inv_def)
  show "i = j" if "predicate_inv m" "i < length (predicates m)" "j < length (predicates m)"
    "predicate_value m i = predicate_value m j" for m i j
    using that unfolding predicate_inv_def by blast
  fix m v i m'
  assume inv: "predicate_inv m" and ok: "proper_value v" and run: "intern_predicate m (fst v) (snd v) = (i, m')"
  have r: "i = PIGEN_INVALID_ID \<and> m' = m \<or>
      length (predicates m) < PIGEN_INVALID_ID \<and>
      (i < length (predicates m) \<and> predicate_value m i = v \<and> m' = m \<or>
       i = length (predicates m) \<and> (\<forall>j < length (predicates m). predicate_value m j \<noteq> v) \<and>
       m' = predicate_added m v)"
    using intern_predicate [OF inv _ run] ok by auto
  show "predicate_inv m'" using r inv predicate_added_inv [OF inv ok] by auto
  show "i < length (predicates m') \<and> predicate_value m' i = v" if "i \<noteq> PIGEN_INVALID_ID"
    using r that predicate_value_added(2) [OF inv, of v] by auto
  show "length (predicates m) \<le> length (predicates m') \<and>
      (\<forall>j < length (predicates m). predicate_value m' j = predicate_value m j)"
    using r predicate_value_added(1) [OF inv, of _ v] by auto
next
  fix m i
  assume inv: "predicate_inv m" and i: "i < length (predicates m)"
    and room: "length (predicates m) < PIGEN_INVALID_ID \<and> 2 * length (predicate_atoms m) \<le> SIZE_MAX"
  obtain k m' where run: "intern_predicate m (fst (predicate_value m i)) (snd (predicate_value m i)) = (k, m')"
    by fastforce
  have ok: "proper_value (predicate_value m i)" using inv i by (simp add: predicate_inv_def)
  have "length (snd (predicate_value m i)) \<le> length (predicate_atoms m)"
    using inv i by (auto simp: predicate_inv_def predicate_value_def atoms_of_def)
  then have "k < length (predicates m) \<and> predicate_value m k = predicate_value m i \<and> m' = m"
    using intern_predicate [OF inv _ run] ok room i by auto
  moreover from this have "k = i" using inv i unfolding predicate_inv_def by blast
  ultimately show "intern_predicate m (fst (predicate_value m i)) (snd (predicate_value m i)) = (i, m)"
    using run by simp
qed

section \<open>Ordered atoms\<close>

lemma ordered_Nil [simp]: "ordered_atoms []"
  by (simp add: ordered_atoms_def)

lemma ordered_Cons:
  "ordered_atoms (a # as) \<longleftrightarrow> (\<forall>b \<in> set as. atom_condition a < atom_condition b) \<and> ordered_atoms as"
  by (auto simp: ordered_atoms_def)

lemma ordered_unique:
  "ordered_atoms xs \<Longrightarrow> a \<in> set xs \<Longrightarrow> b \<in> set xs \<Longrightarrow> atom_condition a = atom_condition b \<Longrightarrow> a = b"
  by (induction xs) (auto simp: ordered_Cons)

text \<open>Where the search stops, and the list with a new atom put there.\<close>

lemma atom_position:
  "ordered_atoms xs \<Longrightarrow> atom_position c xs at = (k, found) \<Longrightarrow>
    at \<le> k \<and> k - at \<le> length xs \<and> (\<forall>a \<in> set (take (k - at) xs). atom_condition a < c) \<and>
    (if found then k - at < length xs \<and> atom_condition (xs ! (k - at)) = c
     else \<forall>a \<in> set (drop (k - at) xs). c < atom_condition a)"
proof (induction c xs at rule: atom_position.induct)
  case (1 c at)
  then show ?case by simp
next
  case (2 c a as at)
  show ?case
  proof (cases "atom_condition a < c")
    case False
    with 2 show ?thesis by (cases "atom_condition a = c") (auto simp: ordered_Cons)
  next
    case True
    then have "atom_position c as (at + 1) = (k, found)" using 2 by simp
    with 2 True have ih: "at + 1 \<le> k \<and> k - (at + 1) \<le> length as \<and>
        (\<forall>a \<in> set (take (k - (at + 1)) as). atom_condition a < c) \<and>
        (if found then k - (at + 1) < length as \<and> atom_condition (as ! (k - (at + 1))) = c
         else \<forall>a \<in> set (drop (k - (at + 1)) as). c < atom_condition a)"
      by (auto simp: ordered_Cons)
    moreover from ih have "k - at = Suc (k - (at + 1))" by linarith
    ultimately show ?thesis using True by auto
  qed
qed

lemma ordered_append:
  "ordered_atoms (xs @ ys) \<longleftrightarrow> ordered_atoms xs \<and> ordered_atoms ys \<and>
    (\<forall>a \<in> set xs. \<forall>b \<in> set ys. atom_condition a < atom_condition b)"
  by (auto simp: ordered_atoms_def sorted_wrt_append)

lemma ordered_insert:
  assumes "ordered_atoms xs" and "\<forall>b \<in> set (take k xs). atom_condition b < atom_condition a"
    and "\<forall>b \<in> set (drop k xs). atom_condition a < atom_condition b"
  shows "ordered_atoms (take k xs @ [a] @ drop k xs)"
proof -
  have "ordered_atoms (take k xs @ drop k xs)" using assms(1) by simp
  then show ?thesis using assms(2,3) unfolding ordered_append by (auto simp: ordered_Cons)
qed

lemma ordered_determined:
  "ordered_atoms xs \<Longrightarrow> ordered_atoms ys \<Longrightarrow> literal_of ` set xs = literal_of ` set ys \<Longrightarrow> xs = ys"
proof -
  assume ord: "ordered_atoms xs" "ordered_atoms ys" and eq: "literal_of ` set xs = literal_of ` set ys"
  have "inj literal_of" by (rule injI) (simp add: literal_of_def)
  with eq have sets: "set xs = set ys" by (simp add: inj_image_eq_iff)
  have "map atom_condition xs = map atom_condition ys"
    using ord sets by (intro strict_sorted_equal) (simp_all add: ordered_atoms_def)
  moreover have "a = b" if "a \<in> set xs" "b \<in> set ys" "atom_condition a = atom_condition b" for a b
    using ordered_unique [OF ord(1)] that sets by blast
  ultimately show ?thesis by (intro list.inj_map_strong [of xs ys atom_condition atom_condition])
qed

lemma opposite_atoms:
  "ordered_atoms xs \<Longrightarrow> ordered_atoms ys \<Longrightarrow>
    opposite_atoms xs ys \<longleftrightarrow>
      (\<exists>a \<in> set xs. \<exists>b \<in> set ys. atom_condition a = atom_condition b \<and> atom_expected a \<noteq> atom_expected b)"
proof (induction xs ys rule: opposite_atoms.induct)
  case (1 a as b bs)
  consider "atom_condition a < atom_condition b" | "atom_condition a > atom_condition b"
    | "atom_condition a = atom_condition b" by linarith
  then show ?case
  proof cases
    case 1
    with "1.IH"(1) "1.prems" show ?thesis by (auto simp: ordered_Cons)
  next
    case 2
    with "1.IH"(2) "1.prems" show ?thesis by (auto simp: ordered_Cons)
  next
    case 3
    with "1.IH"(3) "1.prems" show ?thesis by (auto simp: ordered_Cons)
  qed
qed simp_all

end
