(* ===== verification/PredicateProperties.thy ===== *)
theory PredicateProperties
  imports Predicates
begin

text \<open>
  The guards of src/src/predicate.c refine conjunctions of literals: identities are canonical, the
  conjunction routine computes the conjunction, and the exclusion test is exact.
\<close>

section \<open>Guards as sets of literals\<close>

lemma known_atoms_of:
  assumes "predicate_inv m" and "i < length (predicates m)"
  shows "pigen_predicate_get m i = Some (predicates m ! i)" and "known_atoms m i = atoms_of m i"
proof -
  show get: "pigen_predicate_get m i = Some (predicates m ! i)"
    using assms by (auto simp: pigen_predicate_get_def arena_get_def predicate_inv_def)
  have "first_atom (predicates m ! i) + atom_count (predicates m ! i) \<le> length (predicate_atoms m)"
    using assms by (simp add: predicate_inv_def)
  then show "known_atoms m i = atoms_of m i"
    by (auto simp: known_atoms_def pigen_predicate_atoms_def get atoms_of_def)
qed

lemma ordered_atoms_of: "predicate_inv m \<Longrightarrow> i < length (predicates m) \<Longrightarrow> ordered_atoms (atoms_of m i)"
  by (auto simp: predicate_inv_def proper_value_def predicate_value_def)

lemma guard_of_value:
  "predicate_value m' j = (b, as) \<Longrightarrow> guard_of m' j = (if b then None else Some (literal_of ` set as))"
  by (auto simp: guard_of_def predicate_value_def)

lemma guard_of_cong: "predicate_value m' j = predicate_value m i \<Longrightarrow> guard_of m' j = guard_of m i"
  by (simp add: guard_of_def predicate_value_def)

text \<open>No set of literals of a stored guard is contradictory.\<close>

lemma guard_consistent:
  assumes "predicate_inv m" and "i < length (predicates m)" and "guard_of m i = Some S"
  shows "(c, True) \<notin> S \<or> (c, False) \<notin> S"
proof (rule ccontr)
  assume "\<not> ?thesis"
  then obtain a b where "a \<in> set (atoms_of m i)" "b \<in> set (atoms_of m i)"
      "(c, True) = literal_of a" "(c, False) = literal_of b"
    using assms(3) by (auto simp: guard_of_def split: if_splits)
  then show False
    using ordered_unique [OF ordered_atoms_of [OF assms(1,2)], of a b] by (auto simp: literal_of_def)
qed

lemma guard_holds_simps [simp]:
  "\<not> guard_holds env None" "guard_holds env (Some S) \<longleftrightarrow> (\<forall>c e. (c, e) \<in> S \<longrightarrow> env c = e)"
  by (auto simp: guard_holds_def)

definition satisfier :: "literal set \<Rightarrow> id \<Rightarrow> bool" where
  "satisfier S c \<longleftrightarrow> (c, True) \<in> S"

lemma satisfier_holds:
  assumes "\<And>c. (c, True) \<notin> S \<or> (c, False) \<notin> S"
  shows "guard_holds (satisfier S) (Some S)"
proof -
  have "satisfier S c = e" if "(c, e) \<in> S" for c e
    using that assms [of c] by (cases e) (auto simp: satisfier_def)
  then show ?thesis by simp
qed

lemma guard_subset:
  assumes "\<And>c. (c, True) \<notin> T \<or> (c, False) \<notin> T" and "\<And>env. guard_holds env (Some T) \<Longrightarrow> guard_holds env (Some S)"
  shows "S \<subseteq> T"
proof
  fix l assume "l \<in> S"
  then obtain c e where l: "l = (c, e)" "(c, e) \<in> S" by (cases l) auto
  show "l \<in> T"
  proof (rule ccontr)
    assume "l \<notin> T"
    have "guard_holds ((satisfier T)(c := \<not> e)) (Some T)"
    proof -
      have "((satisfier T)(c := \<not> e)) c' = e'" if "(c', e') \<in> T" for c' e'
      proof (cases "c' = c")
        case True
        with that l \<open>l \<notin> T\<close> have "e' \<noteq> e" by blast
        with True show ?thesis by simp
      next
        case False
        with that satisfier_holds [OF assms(1)] show ?thesis by simp
      qed
      then show ?thesis by simp
    qed
    then have "guard_holds ((satisfier T)(c := \<not> e)) (Some S)" by (rule assms(2))
    with l(2) have "((satisfier T)(c := \<not> e)) c = e" unfolding guard_holds_simps by blast
    then show False by simp
  qed
qed

lemma guard_semantic_eq:
  assumes "\<And>S c. g = Some S \<Longrightarrow> (c, True) \<notin> S \<or> (c, False) \<notin> S"
    and "\<And>S c. h = Some S \<Longrightarrow> (c, True) \<notin> S \<or> (c, False) \<notin> S"
    and "\<And>env. guard_holds env g = guard_holds env h"
  shows "g = h"
proof (cases g; cases h)
  fix S T assume gh: "g = Some S" "h = Some T"
  have "S \<subseteq> T" by (rule guard_subset) (use assms gh in auto)
  moreover have "T \<subseteq> S" by (rule guard_subset) (use assms gh in auto)
  ultimately show ?thesis using gh by simp
next
  fix S assume "g = Some S" "h = None"
  with satisfier_holds [of S] assms(1) assms(3) [of "satisfier S"] show ?thesis by (simp add: guard_holds_def)
next
  fix S assume "g = None" "h = Some S"
  with satisfier_holds [of S] assms(2) assms(3) [of "satisfier S"] show ?thesis by (simp add: guard_holds_def)
qed simp

lemma guard_determines:
  assumes inv: "predicate_inv m" and i: "i < length (predicates m)" and j: "j < length (predicates m)"
    and eq: "guard_of m i = guard_of m j"
  shows "i = j"
proof -
  have "predicate_value m i = predicate_value m j"
  proof (cases "impossible (predicates m ! i)")
    case True
    then have "impossible (predicates m ! j)" using eq by (auto simp: guard_of_def split: if_splits)
    with True have "snd (predicate_value m i) = []" "snd (predicate_value m j) = []"
      using inv i j by (simp_all add: predicate_inv_def proper_value_def predicate_value_def)
    with True \<open>impossible (predicates m ! j)\<close> show ?thesis by (simp add: predicate_value_def)
  next
    case False
    then have "literal_of ` set (atoms_of m i) = literal_of ` set (atoms_of m j)" "\<not> impossible (predicates m ! j)"
      using eq by (auto simp: guard_of_def split: if_splits)
    with False show ?thesis
      using ordered_determined [OF ordered_atoms_of [OF inv i] ordered_atoms_of [OF inv j]]
      by (simp add: predicate_value_def)
  qed
  then show ?thesis using guard_arena.canonical [OF inv i j] by blast
qed

lemma conjoin_holds: "guard_holds env (conjoin (c, e) g) \<longleftrightarrow> guard_holds env g \<and> env c = e"
  by (auto simp: guard_holds_def conjoin_def split: option.splits)

section \<open>The conjunction routine\<close>

definition guards_full :: "pigen_semantic_model \<Rightarrow> bool" where
  "guards_full m \<longleftrightarrow> PIGEN_INVALID_ID \<le> length (predicates m) \<or> SIZE_MAX \<le> 2 * length (predicate_atoms m)"

text \<open>
  What each routine delivers: a model that keeps its invariant and every earlier guard, and the
  identity of the guard \<open>g\<close>, unless the arena is full.
\<close>

definition gives_guard ::
    "pigen_semantic_model \<Rightarrow> id \<times> pigen_semantic_model \<Rightarrow> literal set option \<Rightarrow> bool" where
  "gives_guard m r g \<longleftrightarrow>
     predicate_inv (snd r) \<and>
     (\<forall>j < length (predicates m). j < length (predicates (snd r)) \<and> predicate_value (snd r) j = predicate_value m j) \<and>
     (if fst r = PIGEN_INVALID_ID then guards_full m
      else fst r < length (predicates (snd r)) \<and> guard_of (snd r) (fst r) = g)"

lemma known_guard: "predicate_inv m \<Longrightarrow> p < length (predicates m) \<Longrightarrow> gives_guard m (p, m) (guard_of m p)"
  by (auto simp: gives_guard_def predicate_inv_def)

lemma interned_guard:
  assumes inv: "predicate_inv m" and ok: "proper_value (imp, as)"
    and short: "length as \<le> Suc (length (predicate_atoms m))"
  shows "gives_guard m (intern_predicate m imp as) (if imp then None else Some (literal_of ` set as))"
proof -
  obtain i m' where run: "intern_predicate m imp as = (i, m')" by fastforce
  note facts = guard_arena.intern_inv [OF inv ok, simplified, OF run]
    guard_arena.intern_frame [OF inv ok, simplified, OF run]
  show ?thesis
  proof (cases "i = PIGEN_INVALID_ID")
    case True
    then have "guards_full m" using intern_predicate [OF inv ok run] short by (auto simp: guards_full_def)
    with True facts show ?thesis by (auto simp: gives_guard_def run)
  next
    case False
    note at = guard_arena.intern_content [OF inv ok, simplified, OF run False]
    then have "guard_of m' i = (if imp then None else Some (literal_of ` set as))"
      by (intro guard_of_value) simp
    with False facts at show ?thesis by (auto simp: gives_guard_def run)
  qed
qed

text \<open>Storing the identity of the true or the false guard leaves all guards as they are.\<close>

lemma special_guard_kept:
  assumes "gives_guard m (i, m1) g" and "predicate_inv m2"
    and "predicates m2 = predicates m1" and "predicate_atoms m2 = predicate_atoms m1"
  shows "gives_guard m (i, m2) g"
proof -
  have "predicate_value m2 j = predicate_value m1 j" for j
    using assms(3,4) by (simp add: predicate_value_def atoms_of_def)
  moreover from this have "guard_of m2 j = guard_of m1 j" for j by (rule guard_of_cong)
  ultimately show ?thesis using assms by (auto simp: gives_guard_def split: if_splits)
qed

lemma special_guard_value:
  assumes "gives_guard m (i, m1) (if imp then None else Some {})" and "i \<noteq> PIGEN_INVALID_ID"
  shows "predicate_value m1 i = (imp, [])"
proof -
  have inv: "predicate_inv m1" and i: "i < length (predicates m1)"
    and g: "guard_of m1 i = (if imp then None else Some {})"
    using assms by (auto simp: gives_guard_def)
  have "proper_value (predicate_value m1 i)" using inv i by (simp add: predicate_inv_def)
  with g show ?thesis
    by (auto simp: guard_of_def predicate_value_def proper_value_def split: if_splits)
qed

lemma special_guard_inv:
  assumes "predicate_inv m"
  shows "(i \<noteq> PIGEN_INVALID_ID \<Longrightarrow> i < length (predicates m) \<and> predicate_value m i = (True, [])) \<Longrightarrow>
      predicate_inv (m\<lparr>false_predicate := i\<rparr>)"
    and "(i \<noteq> PIGEN_INVALID_ID \<Longrightarrow> i < length (predicates m) \<and> predicate_value m i = (False, [])) \<Longrightarrow>
      predicate_inv (m\<lparr>true_predicate := i\<rparr>)"
proof -
  have kept: "predicate_value (m\<lparr>false_predicate := i\<rparr>) = predicate_value m"
    "predicate_value (m\<lparr>true_predicate := i\<rparr>) = predicate_value m"
    by (simp_all add: fun_eq_iff predicate_value_def atoms_of_def)
  show "predicate_inv (m\<lparr>false_predicate := i\<rparr>)"
    if "i \<noteq> PIGEN_INVALID_ID \<Longrightarrow> i < length (predicates m) \<and> predicate_value m i = (True, [])"
    using that assms unfolding predicate_inv_def kept by simp
  show "predicate_inv (m\<lparr>true_predicate := i\<rparr>)"
    if "i \<noteq> PIGEN_INVALID_ID \<Longrightarrow> i < length (predicates m) \<and> predicate_value m i = (False, [])"
    using that assms unfolding predicate_inv_def kept by simp
qed

lemma predicate_false:
  assumes inv: "predicate_inv m"
  shows "gives_guard m (pigen_predicate_false m) None"
proof (cases "false_predicate m = PIGEN_INVALID_ID")
  case False
  then have "false_predicate m < length (predicates m)" "predicate_value m (false_predicate m) = (True, [])"
    using inv by (simp_all add: predicate_inv_def)
  then show ?thesis
    using known_guard [OF inv, of "false_predicate m"] guard_of_value [of m "false_predicate m"] False
    by (simp add: pigen_predicate_false_def)
next
  case True
  obtain i m1 where i: "intern_predicate m True [] = (i, m1)" by fastforce
  have r: "pigen_predicate_false m = (i, m1\<lparr>false_predicate := i\<rparr>)" by (simp add: pigen_predicate_false_def True i)
  have g: "gives_guard m (i, m1) (if True then None else Some {})"
    using interned_guard [OF inv, of True "[]"] by (simp add: i proper_value_def)
  then have inv1: "predicate_inv m1" by (simp add: gives_guard_def)
  have i_ok: "i \<noteq> PIGEN_INVALID_ID \<Longrightarrow> i < length (predicates m1) \<and> predicate_value m1 i = (True, [])"
    using special_guard_value [OF g] g unfolding gives_guard_def by simp
  have "predicate_inv (m1\<lparr>false_predicate := i\<rparr>)"
    using i_ok by (intro special_guard_inv(1) [OF inv1])
  then show ?thesis unfolding r using g by (auto intro: special_guard_kept [of m i m1 None] special_guard_kept [of m i m1 "Some {}"])
qed

lemma predicate_true:
  assumes inv: "predicate_inv m"
  shows "gives_guard m (pigen_predicate_true m) (Some {})"
proof (cases "true_predicate m = PIGEN_INVALID_ID")
  case False
  then have "true_predicate m < length (predicates m)" "predicate_value m (true_predicate m) = (False, [])"
    using inv by (simp_all add: predicate_inv_def)
  then show ?thesis
    using known_guard [OF inv, of "true_predicate m"] guard_of_value [of m "true_predicate m"] False
    by (simp add: pigen_predicate_true_def)
next
  case True
  obtain i m1 where i: "intern_predicate m False [] = (i, m1)" by fastforce
  have r: "pigen_predicate_true m = (i, m1\<lparr>true_predicate := i\<rparr>)" by (simp add: pigen_predicate_true_def True i)
  have g: "gives_guard m (i, m1) (if False then None else Some {})"
    using interned_guard [OF inv, of False "[]"] by (simp add: i proper_value_def)
  then have inv1: "predicate_inv m1" by (simp add: gives_guard_def)
  have i_ok: "i \<noteq> PIGEN_INVALID_ID \<Longrightarrow> i < length (predicates m1) \<and> predicate_value m1 i = (False, [])"
    using special_guard_value [OF g] g unfolding gives_guard_def by simp
  have "predicate_inv (m1\<lparr>true_predicate := i\<rparr>)"
    using i_ok by (intro special_guard_inv(2) [OF inv1])
  then show ?thesis unfolding r using g by (auto intro: special_guard_kept [of m i m1 None] special_guard_kept [of m i m1 "Some {}"])
qed

lemma and_condition:
  assumes inv: "predicate_inv m" and p: "p < length (predicates m)"
    and ok: "integral_condition m c" "expected = 0 \<or> expected = 1"
  shows "gives_guard m (pigen_predicate_and_condition m p c expected) (conjoin (c, expected = 1) (guard_of m p))"
proof -
  let ?as = "atoms_of m p" and ?a = "\<lparr>atom_condition = c, atom_expected = (expected = 1)\<rparr>"
  let ?r = "pigen_predicate_and_condition m p c expected"
  note known = known_atoms_of [OF inv p] and ord = ordered_atoms_of [OF inv p]
  obtain k found where pos: "atom_position c ?as 0 = (k, found)" by fastforce
  note at = atom_position [OF ord pos, simplified]
  have step: "?r = (if impossible (predicates m ! p) then (p, m)
      else if found then
        (if atom_expected (?as ! k) = (expected = 1) then (p, m) else pigen_predicate_false m)
      else intern_predicate m False (take k ?as @ [?a] @ drop k ?as))"
    using ok by (auto simp: pigen_predicate_and_condition_def known pos Let_def)
  show ?thesis
  proof (cases "impossible (predicates m ! p)")
    case True
    then have "conjoin (c, expected = 1) (guard_of m p) = guard_of m p" by (simp add: conjoin_def guard_of_def)
    with True known_guard [OF inv p] show ?thesis by (simp add: step)
  next
    case possible: False
    then have g: "guard_of m p = Some (literal_of ` set ?as)" by (simp add: guard_of_def)
    show ?thesis
    proof (cases found)
      case True
      then have k: "k < length ?as" "atom_condition (?as ! k) = c" using at by auto
      have mem: "literal_of (?as ! k) \<in> literal_of ` set ?as" using k(1) by simp
      show ?thesis
      proof (cases "atom_expected (?as ! k) = (expected = 1)")
        case same: True
        then have "literal_of (?as ! k) = (c, expected = 1)" using k(2) by (simp add: literal_of_def)
        with mem have "conjoin (c, expected = 1) (guard_of m p) = guard_of m p"
          using guard_consistent [OF inv p g, of c] unfolding g conjoin_def
          by (cases "expected = 1") (auto simp: insert_absorb)
        with possible True same known_guard [OF inv p] show ?thesis by (simp add: step)
      next
        case False
        then have "literal_of (?as ! k) = (c, expected \<noteq> 1)" using k(2) by (auto simp: literal_of_def)
        with mem have "conjoin (c, expected = 1) (guard_of m p) = None" by (simp add: g conjoin_def)
        with possible True False predicate_false [OF inv] show ?thesis by (simp add: step)
      qed
    next
      case new: False
      let ?new = "take k ?as @ [?a] @ drop k ?as"
      have proper: "proper_value (False, ?new)"
        using ordered_insert [OF ord, of k ?a] at new by (simp add: proper_value_def)
      have "length ?as \<le> length (predicate_atoms m)"
        by (auto simp: atoms_of_def slice_def)
      then have short: "length ?new \<le> Suc (length (predicate_atoms m))" by simp
      have split: "set ?as = set (take k ?as) \<union> set (drop k ?as)" by (simp flip: set_append)
      then have "literal_of ` set ?new = insert (c, expected = 1) (literal_of ` set ?as)"
        by (simp add: image_Un literal_of_def)
      moreover have "(c, b) \<notin> literal_of ` set ?as" for b
      proof
        assume "(c, b) \<in> literal_of ` set ?as"
        then obtain a where "a \<in> set ?as" "atom_condition a = c" by (auto simp: literal_of_def)
        with split show False using at new by auto
      qed
      ultimately have "conjoin (c, expected = 1) (guard_of m p) = Some (literal_of ` set ?new)"
        by (simp add: g conjoin_def)
      then show ?thesis using interned_guard [OF inv proper short] possible new by (simp add: step)
    qed
  qed
qed

lemma and_condition_refused:
  assumes "predicate_inv m" and "\<not> (p < length (predicates m) \<and> integral_condition m c \<and> (expected = 0 \<or> expected = 1))"
  shows "pigen_predicate_and_condition m p c expected = (PIGEN_INVALID_ID, m)"
proof (cases "p < length (predicates m)")
  case True
  with assms known_atoms_of(1) [OF assms(1) True] show ?thesis by (auto simp: pigen_predicate_and_condition_def)
next
  case False
  then have "pigen_predicate_get m p = None" by (auto simp: pigen_predicate_get_def arena_get_def)
  then show ?thesis by (simp add: pigen_predicate_and_condition_def)
qed

lemma opposite_literals:
  "(\<exists>a \<in> A. \<exists>b \<in> B. atom_condition a = atom_condition b \<and> atom_expected a \<noteq> atom_expected b) \<longleftrightarrow>
    (\<exists>c e. (c, e) \<in> literal_of ` A \<and> (c, \<not> e) \<in> literal_of ` B)"
proof -
  have mem: "(c, e) \<in> literal_of ` C \<longleftrightarrow> (\<exists>a \<in> C. atom_condition a = c \<and> atom_expected a = e)" for c e C
    by (auto simp: literal_of_def)
  have expected: "atom_expected a \<noteq> atom_expected b \<longleftrightarrow> atom_expected b = (\<not> atom_expected a)" for a b
    by auto
  show ?thesis unfolding mem expected
  proof (intro iffI; elim bexE conjE exE)
    fix a b
    assume "a \<in> A" "b \<in> B" "atom_condition a = atom_condition b" "atom_expected b = (\<not> atom_expected a)"
    then show "\<exists>c e. (\<exists>a \<in> A. atom_condition a = c \<and> atom_expected a = e) \<and>
        (\<exists>a \<in> B. atom_condition a = c \<and> atom_expected a = (\<not> e))"
      by (intro exI [of _ "atom_condition a"] exI [of _ "atom_expected a"]) auto
  next
    fix c e a b
    assume "a \<in> A" "b \<in> B" "atom_condition a = c" "atom_condition b = c"
      "atom_expected a = e" "atom_expected b = (\<not> e)"
    then show "\<exists>a \<in> A. \<exists>b \<in> B. atom_condition a = atom_condition b \<and> atom_expected b = (\<not> atom_expected a)"
      by (intro bexI [of _ a] bexI [of _ b]) auto
  qed
qed

section \<open>Properties\<close>

text \<open>Two conditions of type \<open>logic\<close>, the true guard, and the guard that wants the second condition.\<close>

definition sample_guards :: pigen_semantic_model where
  "sample_guards = (pigen_semantic_init [])
     \<lparr>data_types := [\<lparr>data_constructor = PIGEN_DATA_TYPE_LOGIC, data_signedness = PIGEN_SIGN_UNSIGNED,
        data_alias = PIGEN_INVALID_ID, alias_target = PIGEN_INVALID_ID, intrinsic_width = PIGEN_INVALID_ID,
        data_exact_value = PIGEN_INVALID_ID, data_first_dimension = 0, data_dimension_count = 0\<rparr>],
      expressions := replicate 2 \<lparr>expr_data_type = 0, expr_shape = 0,
        expr_span = \<lparr>span_source = 0, span_start = 0, span_end = 0\<rparr>, expr_constant = PIGEN_INVALID_ID,
        expr_lvalue = PIGEN_INVALID_ID, expr_as = PIGEN_EXPR_SYMBOL 0\<rparr>,
      predicates := [\<lparr>first_atom = 0, atom_count = 0, impossible = False\<rparr>,
        \<lparr>first_atom = 0, atom_count = 1, impossible = False\<rparr>,
        \<lparr>first_atom = 1, atom_count = 1, impossible = False\<rparr>],
      predicate_atoms := [\<lparr>atom_condition = 1, atom_expected = True\<rparr>, \<lparr>atom_condition = 1, atom_expected = False\<rparr>]\<rparr>"

lemma below_three: "(\<forall>i < 3. P i) \<longleftrightarrow> P 0 \<and> P 1 \<and> P (2 :: nat)"
  by (auto simp: eval_nat_numeral All_less_Suc)

lemma sample_guard_values:
  "predicate_value sample_guards 0 = (False, [])"
  "predicate_value sample_guards 1 = (False, [\<lparr>atom_condition = 1, atom_expected = True\<rparr>])"
  "predicate_value sample_guards 2 = (False, [\<lparr>atom_condition = 1, atom_expected = False\<rparr>])"
  by (simp_all add: predicate_value_def atoms_of_def sample_guards_def slice_def)

lemma sample_guards_inv: "predicate_inv sample_guards"
proof -
  have n: "length (predicates sample_guards) = 3" "length (predicate_atoms sample_guards) = 2"
    and special: "true_predicate sample_guards = PIGEN_INVALID_ID" "false_predicate sample_guards = PIGEN_INVALID_ID"
    and bounds: "\<forall>i < 3. first_atom (predicates sample_guards ! i) + atom_count (predicates sample_guards ! i) \<le> 2"
    unfolding below_three by (simp_all add: sample_guards_def pigen_semantic_init_def)
  show ?thesis
    unfolding predicate_inv_def n special using bounds
    by (simp add: all_conj_distrib below_three sample_guard_values [simplified] proper_value_def ordered_Cons PIGEN_INVALID_ID_def)
qed

lemma sample_guards_integral: "integral_condition sample_guards 0"
  by (simp add: integral_condition_def sample_guards_def pigen_semantic_init_def model_get_defs arena_get_def
      PIGEN_INVALID_ID_def pigen_data_type_is_integral_def underlying_def underlying_data_type_def
      primitive_descriptor_def primitive_data_types_def)

text \<open>
  C26: Adding a condition to a guard computes the conjunction. On an integral condition and room in the
  arena the result is the guard whose set of literals has the new one, or the impossible guard when
  it contradicts a literal already there; it holds exactly when the old guard holds and the condition
  has the expected value. Earlier guards keep their meaning, and bad arguments change nothing.
\<close>

theorem guard_conjunction:
  assumes "predicate_inv m" and "p < length (predicates m)"
    and "length (predicates m) < PIGEN_INVALID_ID" and "2 * length (predicate_atoms m) < SIZE_MAX"
    and "pigen_predicate_and_condition m p c expected = (q, m')"
  shows "if integral_condition m c \<and> (expected = 0 \<or> expected = 1) then
      predicate_inv m' \<and> q < length (predicates m') \<and>
      guard_of m' q = conjoin (c, expected = 1) (guard_of m p) \<and>
      (\<forall>env. guard_holds env (guard_of m' q) \<longleftrightarrow>
        guard_holds env (guard_of m p) \<and> env c = (expected = 1)) \<and>
      (\<forall>j < length (predicates m). guard_of m' j = guard_of m j)
    else q = PIGEN_INVALID_ID \<and> m' = m"
proof (cases "integral_condition m c \<and> (expected = 0 \<or> expected = 1)")
  case True
  have "\<not> guards_full m" using assms(3,4) by (simp add: guards_full_def)
  with and_condition [OF assms(1,2) conjunct1 [OF True] conjunct2 [OF True]] assms(5)
  have r: "predicate_inv m'" "q < length (predicates m')" "guard_of m' q = conjoin (c, expected = 1) (guard_of m p)"
    "\<forall>j < length (predicates m). j < length (predicates m') \<and> predicate_value m' j = predicate_value m j"
    by (auto simp: gives_guard_def split: if_splits)
  then have "\<forall>j < length (predicates m). guard_of m' j = guard_of m j"
    using guard_of_cong by blast
  with True r show ?thesis by (simp add: conjoin_holds)
next
  case False
  with assms(5) and_condition_refused [OF assms(1), of p c expected] show ?thesis by auto
qed

theorem guard_conjunction_witness:
  "guard_of (snd (pigen_predicate_and_condition sample_guards 1 0 0))
     (fst (pigen_predicate_and_condition sample_guards 1 0 0)) = Some {(0, False), (1, True)}"
proof -
  obtain q m' where r: "pigen_predicate_and_condition sample_guards 1 0 0 = (q, m')" by fastforce
  have n: "length (predicates sample_guards) = 3" "length (predicate_atoms sample_guards) = 2"
    by (simp_all add: sample_guards_def)
  have g: "guard_of sample_guards 1 = Some {(1, True)}"
    by (simp add: guard_of_def atoms_of_def sample_guards_def slice_def literal_of_def)
  show ?thesis
    using guard_conjunction [OF sample_guards_inv _ _ _ r] sample_guards_integral g r
    by (simp add: n PIGEN_INVALID_ID_def SIZE_MAX_def conjoin_def)
qed

text \<open>The guard of a list of conditions with their expected values, built from the true guard.\<close>

fun and_conditions ::
    "pigen_semantic_model \<Rightarrow> id \<Rightarrow> (id \<times> int) list \<Rightarrow> id \<times> pigen_semantic_model" where
  "and_conditions m p [] = (p, m)"
| "and_conditions m p ((c, expected) # conditions) =
     (let (q, m1) = pigen_predicate_and_condition m p c expected in and_conditions m1 q conditions)"

definition guard_from :: "pigen_semantic_model \<Rightarrow> (id \<times> int) list \<Rightarrow> id \<times> pigen_semantic_model" where
  "guard_from m conditions = (let (p, m1) = pigen_predicate_true m in and_conditions m1 p conditions)"

definition all_hold :: "(id \<Rightarrow> bool) \<Rightarrow> (id \<times> int) list \<Rightarrow> bool" where
  "all_hold env conditions \<longleftrightarrow> (\<forall>(c, expected) \<in> set conditions. env c = (expected = 1))"

lemma and_conditions_keep:
  assumes "predicate_inv m" and "p < length (predicates m) \<or> p = PIGEN_INVALID_ID"
    and "and_conditions m p conditions = (q, m')"
  shows "predicate_inv m' \<and>
    (\<forall>j < length (predicates m). j < length (predicates m') \<and> predicate_value m' j = predicate_value m j) \<and>
    (q \<noteq> PIGEN_INVALID_ID \<longrightarrow> p < length (predicates m) \<and> q < length (predicates m') \<and>
      (\<forall>env. guard_holds env (guard_of m' q) \<longleftrightarrow> guard_holds env (guard_of m p) \<and> all_hold env conditions))"
  using assms
proof (induction m p conditions arbitrary: q m' rule: and_conditions.induct)
  case (1 m p)
  then show ?case by (auto simp: all_hold_def)
next
  case (2 m p c expected conditions)
  obtain p1 m1 where one: "pigen_predicate_and_condition m p c expected = (p1, m1)" by fastforce
  have later: "and_conditions m1 p1 conditions = (q, m')" using 2(4) one by simp
  show ?case
  proof (cases "p < length (predicates m) \<and> integral_condition m c \<and> (expected = 0 \<or> expected = 1)")
    case True
    have "gives_guard m (p1, m1) (conjoin (c, expected = 1) (guard_of m p))"
      using and_condition [OF 2(2)] True one by metis
    then have m1: "predicate_inv m1" "p1 < length (predicates m1) \<or> p1 = PIGEN_INVALID_ID"
      and frame: "\<forall>j < length (predicates m). j < length (predicates m1) \<and> predicate_value m1 j = predicate_value m j"
      and g: "p1 \<noteq> PIGEN_INVALID_ID \<Longrightarrow> guard_of m1 p1 = conjoin (c, expected = 1) (guard_of m p)"
      by (auto simp: gives_guard_def split: if_splits)
    have bound: "PIGEN_INVALID_ID \<ge> length (predicates m1)" using m1(1) by (simp add: predicate_inv_def)
    note IH = 2(1) [OF one [symmetric] refl m1 later]
    have "guard_holds env (guard_of m' q) \<longleftrightarrow> guard_holds env (guard_of m p) \<and> all_hold env ((c, expected) # conditions)"
      if "q \<noteq> PIGEN_INVALID_ID" for env
    proof -
      have "p1 < length (predicates m1)" using IH that by blast
      then have "p1 \<noteq> PIGEN_INVALID_ID" using bound by linarith
      then show ?thesis using IH that g by (auto simp: conjoin_holds all_hold_def)
    qed
    then show ?thesis using IH frame True by auto
  next
    case False
    have one': "p1 = PIGEN_INVALID_ID" "m1 = m" using and_condition_refused [OF 2(2) False] one by auto
    note IH = 2(1) [OF one [symmetric] refl, unfolded one', OF 2(2) disjI2 [OF refl] later [unfolded one']]
    have "\<not> PIGEN_INVALID_ID < length (predicates m)" using 2(2) by (simp add: predicate_inv_def)
    with IH show ?thesis by blast
  qed
qed

lemma guard_from_keep:
  assumes inv: "predicate_inv m" and run: "guard_from m conditions = (q, m')"
  shows "predicate_inv m' \<and>
    (\<forall>j < length (predicates m). j < length (predicates m') \<and> predicate_value m' j = predicate_value m j) \<and>
    (q \<noteq> PIGEN_INVALID_ID \<longrightarrow> q < length (predicates m') \<and>
      (\<forall>env. guard_holds env (guard_of m' q) \<longleftrightarrow> all_hold env conditions))"
proof -
  obtain p m1 where t: "pigen_predicate_true m = (p, m1)" by fastforce
  have g: "gives_guard m (p, m1) (Some {})" using predicate_true [OF inv] t by simp
  then have m1: "predicate_inv m1" "p < length (predicates m1) \<or> p = PIGEN_INVALID_ID"
    and frame: "\<forall>j < length (predicates m). j < length (predicates m1) \<and> predicate_value m1 j = predicate_value m j"
    by (auto simp: gives_guard_def split: if_splits)
  have bound: "PIGEN_INVALID_ID \<ge> length (predicates m1)" using m1(1) by (simp add: predicate_inv_def)
  have later: "and_conditions m1 p conditions = (q, m')" using run t by (simp add: guard_from_def)
  note facts = and_conditions_keep [OF m1 later]
  have "guard_of m1 p = Some {}" if "q \<noteq> PIGEN_INVALID_ID"
  proof -
    have "p < length (predicates m1)" using facts that by blast
    then have "p \<noteq> PIGEN_INVALID_ID" using bound by linarith
    with g show ?thesis by (simp add: gives_guard_def)
  qed
  with facts frame show ?thesis by auto
qed

text \<open>
  C27: Guards are canonical. When a guard is built from a list of conditions, and another one later
  from another list, in whatever order and with whatever repetitions and contradictions, the two
  have the same identity exactly when they are logically equivalent, that is when the two lists of
  conditions hold under the same values of the conditions.
\<close>

theorem guard_identity:
  assumes "predicate_inv m"
    and "guard_from m conditions = (i, m1)" and "i \<noteq> PIGEN_INVALID_ID"
    and "guard_from m1 conditions' = (j, m2)" and "j \<noteq> PIGEN_INVALID_ID"
  shows "i = j \<longleftrightarrow> (\<forall>env. all_hold env conditions = all_hold env conditions')"
proof -
  note one = guard_from_keep [OF assms(1,2)]
  then have inv1: "predicate_inv m1" by blast
  note two = guard_from_keep [OF inv1 assms(4)]
  then have inv2: "predicate_inv m2" by blast
  have i: "i < length (predicates m2)" "guard_of m2 i = guard_of m1 i" and j: "j < length (predicates m2)"
    using one two assms(3,5) guard_of_cong by blast+
  have hi: "guard_holds env (guard_of m2 i) = all_hold env conditions"
    and hj: "guard_holds env (guard_of m2 j) = all_hold env conditions'" for env
    using one two assms(3,5) i(2) by simp_all
  show ?thesis
  proof
    assume sem: "\<forall>env. all_hold env conditions = all_hold env conditions'"
    have "guard_of m2 i = guard_of m2 j"
      by (rule guard_semantic_eq) (use guard_consistent inv2 i(1) j sem hi hj in blast)+
    then show "i = j" by (rule guard_determines [OF inv2 i(1) j])
  next
    assume "i = j"
    then show "\<forall>env. all_hold env conditions = all_hold env conditions'" using hi hj by simp
  qed
qed

theorem guard_identity_witness:
  "fst (guard_from sample_guards [(0, 1), (1, 0)]) =
   fst (guard_from (snd (guard_from sample_guards [(0, 1), (1, 0)])) [(1, 0), (0, 1), (1, 0)])"
proof -
  obtain i m1 where one: "guard_from sample_guards [(0, 1), (1, 0)] = (i, m1)" by fastforce
  obtain j m2 where two: "guard_from m1 [(1, 0), (0, 1), (1, 0)] = (j, m2)" by fastforce
  have low: "i \<noteq> PIGEN_INVALID_ID" "j \<noteq> PIGEN_INVALID_ID" using one two
    by (auto simp: sample_guards_def guard_from_def pigen_predicate_true_def pigen_predicate_and_condition_def
      intern_predicate_def same_atoms_def integral_condition_def pigen_semantic_init_def model_get_defs arena_get_def
      pigen_data_type_is_integral_def underlying_def underlying_data_type_def
      primitive_descriptor_def primitive_data_types_def pigen_predicate_get_def known_atoms_def
      pigen_predicate_atoms_def slice_def PIGEN_INVALID_ID_def SIZE_MAX_def u32_def Let_def)
  have "all_hold env [(0, 1), (1, 0)] = all_hold env [(1, 0), (0, 1), (1, 0)]" for env
    by (auto simp: all_hold_def)
  then show ?thesis
    using guard_identity [OF sample_guards_inv one low(1) two low(2)] one two by simp
qed

text \<open>
  C6: The exclusion test is exact: it answers yes exactly when no values of the conditions make both
  guards hold.
\<close>

theorem exclusion_exact:
  assumes "predicate_inv m" and "i < length (predicates m)" and "j < length (predicates m)"
  shows "pigen_predicates_mutually_exclusive m i j \<longleftrightarrow>
    \<not> (\<exists>env. guard_holds env (guard_of m i) \<and> guard_holds env (guard_of m j))"
proof (cases "impossible (predicates m ! i) \<or> impossible (predicates m ! j)")
  case True
  then show ?thesis
    using known_atoms_of(1) [OF assms(1,2)] known_atoms_of(1) [OF assms(1,3)]
    by (auto simp: pigen_predicates_mutually_exclusive_def guard_of_def)
next
  case False
  let ?S = "literal_of ` set (atoms_of m i)" and ?T = "literal_of ` set (atoms_of m j)"
  have g: "guard_of m i = Some ?S" "guard_of m j = Some ?T" using False by (auto simp: guard_of_def)
  have test: "pigen_predicates_mutually_exclusive m i j \<longleftrightarrow>
      (\<exists>c e. (c, e) \<in> ?S \<and> (c, \<not> e) \<in> ?T)"
    using known_atoms_of [OF assms(1,2)] known_atoms_of [OF assms(1,3)] False
      opposite_atoms [OF ordered_atoms_of [OF assms(1,2)] ordered_atoms_of [OF assms(1,3)]]
    unfolding opposite_literals by (simp add: pigen_predicates_mutually_exclusive_def)
  show ?thesis
  proof (cases "\<exists>c e. (c, e) \<in> ?S \<and> (c, \<not> e) \<in> ?T")
    case True
    then obtain c e where "(c, e) \<in> ?S" "(c, \<not> e) \<in> ?T" by blast
    then have "\<not> (guard_holds env (Some ?S) \<and> guard_holds env (Some ?T))" for env
      unfolding guard_holds_simps by blast
    with True show ?thesis unfolding test g by blast
  next
    case none: False
    have "(c, True) \<notin> ?S \<union> ?T \<or> (c, False) \<notin> ?S \<union> ?T" for c
      using none guard_consistent [OF assms(1,2) g(1), of c] guard_consistent [OF assms(1,3) g(2), of c]
      by fastforce
    from satisfier_holds [OF this]
    have "guard_holds (satisfier (?S \<union> ?T)) (Some ?S) \<and> guard_holds (satisfier (?S \<union> ?T)) (Some ?T)"
      unfolding guard_holds_simps by blast
    with none show ?thesis unfolding test g by blast
  qed
qed

theorem exclusion_exact_witness:
  "pigen_predicates_mutually_exclusive sample_guards 1 2 \<and>
    \<not> (\<exists>env. guard_holds env (guard_of sample_guards 1) \<and> guard_holds env (guard_of sample_guards 2))"
proof -
  have "pigen_predicates_mutually_exclusive sample_guards 1 2"
    by (simp add: pigen_predicates_mutually_exclusive_def pigen_predicate_get_def arena_get_def sample_guards_def
        PIGEN_INVALID_ID_def known_atoms_def pigen_predicate_atoms_def slice_def)
  then show ?thesis
    using exclusion_exact [OF sample_guards_inv, of 1 2] by (simp add: sample_guards_def)
qed

end
