(* ===== verification/DataTypeInvariant.thy ===== *)
theory DataTypeInvariant
  imports DataTypes
begin

text \<open>
  The data-type arena keeps every type once, with its dimensions inside the dimension array and
  aliases pointing to earlier types; so comparing identities compares types, and resolving an
  alias always ends at a primitive type.
\<close>

section \<open>The invariant\<close>

definition type_value_of :: "pigen_semantic_model \<Rightarrow> id \<Rightarrow> type_value" where
  "type_value_of m i =
     (let k = data_types m ! i
      in \<lparr>value_constructor = data_constructor k, value_signedness = data_signedness k,
          value_alias = data_alias k, value_target = alias_target k, value_width = intrinsic_width k,
          value_exact = data_exact_value k,
          value_dimensions = slice (data_first_dimension k) (data_dimension_count k) (data_type_dimensions m)\<rparr>)"

definition type_ok :: "pigen_semantic_model \<Rightarrow> type_value \<Rightarrow> bool" where
  "type_ok m v \<longleftrightarrow>
     (value_constructor v \<noteq> PIGEN_DATA_TYPE_ALIAS \<longrightarrow> primitive_descriptor (value_constructor v) \<noteq> None) \<and>
     value_signedness v \<noteq> PIGEN_SIGN_INVALID \<and>
     (if value_constructor v = PIGEN_DATA_TYPE_ALIAS then
        value_alias v \<noteq> PIGEN_INVALID_ID \<and> value_target v \<noteq> PIGEN_INVALID_ID \<and>
        value_target v < length (data_types m) \<and> value_width v = PIGEN_INVALID_ID \<and>
        value_exact v = PIGEN_INVALID_ID
      else
        value_alias v = PIGEN_INVALID_ID \<and> value_target v = PIGEN_INVALID_ID \<and>
        (is_integer_constructor (value_constructor v) \<longleftrightarrow> value_width v \<noteq> PIGEN_INVALID_ID) \<and>
        (value_constructor v = PIGEN_DATA_TYPE_EXACT_INTEGER \<longleftrightarrow> value_exact v \<noteq> PIGEN_INVALID_ID)) \<and>
     (value_width v \<noteq> PIGEN_INVALID_ID \<longrightarrow> pigen_const_expr_get m (value_width v) \<noteq> None) \<and>
     (\<forall>d \<in> set (value_dimensions v). pigen_const_expr_get m (dimension_left d) \<noteq> None \<and>
        pigen_const_expr_get m (dimension_right d) \<noteq> None)"

lemma type_rejected_iff: "type_rejected m v \<longleftrightarrow> PIGEN_INVALID_ID \<le> length (data_types m) \<or> \<not> type_ok m v"
  by (auto simp: type_rejected_def type_ok_def)

definition type_inv :: "pigen_semantic_model \<Rightarrow> bool" where
  "type_inv m \<longleftrightarrow>
     length (data_types m) \<le> PIGEN_INVALID_ID \<and>
     (\<forall>i < length (data_types m).
        data_first_dimension (data_types m ! i) + data_dimension_count (data_types m ! i)
          \<le> length (data_type_dimensions m) \<and>
        type_ok m (type_value_of m i) \<and>
        (data_constructor (data_types m ! i) = PIGEN_DATA_TYPE_ALIAS \<longrightarrow> alias_target (data_types m ! i) < i)) \<and>
     (\<forall>i < length (data_types m). \<forall>j < length (data_types m).
        type_value_of m i = type_value_of m j \<longrightarrow> i = j)"

section \<open>Interning\<close>

lemma dimensions_equal_iff:
  assumes "data_first_dimension k + data_dimension_count k \<le> length (data_type_dimensions m)"
  shows "dimensions_equal m k dims \<longleftrightarrow>
    slice (data_first_dimension k) (data_dimension_count k) (data_type_dimensions m) = dims"
proof -
  let ?f = "data_first_dimension k" and ?s = "slice (data_first_dimension k) (data_dimension_count k) (data_type_dimensions m)"
  have eq: "(dimension_left a = dimension_left b \<and> dimension_right a = dimension_right b) = (a = b)"
    for a b :: pigen_packed_dimension
    by (cases a; cases b) simp
  have "dimensions_equal m k dims \<longleftrightarrow> data_dimension_count k = length dims \<and>
      (\<forall>i < length dims. data_type_dimensions m ! (?f + i) = dims ! i)"
    by (simp only: dimensions_equal_def Let_def eq) auto
  also have "\<dots> \<longleftrightarrow> length ?s = length dims \<and> (\<forall>i < length ?s. ?s ! i = dims ! i)"
    using assms by (auto simp: nth_slice)
  also have "\<dots> \<longleftrightarrow> ?s = dims" by (simp only: list_eq_iff_nth_eq)
  finally show ?thesis .
qed

lemma type_matches_iff:
  assumes "type_inv m" and "i < length (data_types m)"
  shows "type_matches m v (data_types m ! i) \<longleftrightarrow> type_value_of m i = v"
  using assms dimensions_equal_iff [of "data_types m ! i" m "value_dimensions v"]
  by (auto simp: type_inv_def type_matches_def type_value_of_def Let_def intro: type_value.equality)

definition type_added :: "pigen_semantic_model \<Rightarrow> type_value \<Rightarrow> pigen_semantic_model" where
  "type_added m v =
     m\<lparr>data_types := data_types m @
         [\<lparr>data_constructor = value_constructor v, data_signedness = value_signedness v,
           data_alias = value_alias v, alias_target = value_target v,
           intrinsic_width = value_width v, data_exact_value = value_exact v,
           data_first_dimension = length (data_type_dimensions m),
           data_dimension_count = length (value_dimensions v)\<rparr>],
       data_type_dimensions := data_type_dimensions m @ value_dimensions v\<rparr>"

lemma length_type_added: "length (data_types (type_added m v)) = Suc (length (data_types m))"
  by (simp add: type_added_def)

lemma type_value_added:
  assumes "type_inv m"
  shows "i < length (data_types m) \<Longrightarrow> type_value_of (type_added m v) i = type_value_of m i"
    and "type_value_of (type_added m v) (length (data_types m)) = v"
  using assms by (simp_all add: type_value_of_def type_added_def type_inv_def nth_append Let_def)

lemma type_ok_mono:
  assumes "type_ok m v" and "length (data_types m) \<le> length (data_types m')"
    and "length (constant_expressions m) \<le> length (constant_expressions m')"
  shows "type_ok m' v"
  using assms by (fastforce simp: type_ok_def pigen_const_expr_get_def arena_get_def split: if_splits)

lemma type_added_inv:
  assumes inv: "type_inv m" and ok: "type_ok m v" and n: "length (data_types m) < PIGEN_INVALID_ID"
    and new: "\<And>i. i < length (data_types m) \<Longrightarrow> type_value_of m i \<noteq> v"
  shows "type_inv (type_added m v)"
proof -
  let ?m = "type_added m v" and ?n = "length (data_types m)"
  have len: "length (data_types ?m) = Suc ?n" "length (data_type_dimensions m) \<le> length (data_type_dimensions ?m)"
    "length (constant_expressions ?m) = length (constant_expressions m)"
    by (simp_all add: type_added_def)
  have ok': "type_ok ?m w" if "type_ok m w" for w
    by (rule type_ok_mono [OF that]) (simp_all add: len)
  have val: "type_value_of ?m i = (if i < ?n then type_value_of m i else v)" if "i < Suc ?n" for i
    using type_value_added [OF inv] that
    by (auto simp: less_Suc_eq)
  have old: "data_types ?m ! i = data_types m ! i" if "i < ?n" for i
    using that by (simp add: type_added_def nth_append)
  show ?thesis
    unfolding type_inv_def len(1)
  proof (intro conjI allI impI)
    show "Suc ?n \<le> PIGEN_INVALID_ID" using n by simp
  next
    fix i assume i: "i < Suc ?n"
    show "data_first_dimension (data_types ?m ! i) + data_dimension_count (data_types ?m ! i)
        \<le> length (data_type_dimensions ?m)"
    proof (cases "i = ?n")
      case True
      then show ?thesis by (simp add: type_added_def)
    next
      case False
      then have "data_first_dimension (data_types m ! i) + data_dimension_count (data_types m ! i)
          \<le> length (data_type_dimensions m)"
        using i inv by (simp add: type_inv_def)
      with False i old [of i] len(2) show ?thesis by simp
    qed
    show "type_ok ?m (type_value_of ?m i)"
      using i inv ok' ok val [OF i] by (auto simp: type_inv_def)
    show "alias_target (data_types ?m ! i) < i" if "data_constructor (data_types ?m ! i) = PIGEN_DATA_TYPE_ALIAS"
    proof (cases "i = ?n")
      case True
      then show ?thesis using that ok by (simp add: type_added_def type_ok_def)
    next
      case False
      then show ?thesis using that i inv old by (simp add: type_inv_def)
    qed
  next
    fix i j assume ij: "i < Suc ?n" "j < Suc ?n" "type_value_of ?m i = type_value_of ?m j"
    then show "i = j"
      using inv new [of i] new [of j] val [OF ij(1)] val [OF ij(2)]
      by (cases "i < ?n"; cases "j < ?n") (auto simp: type_inv_def less_Suc_eq)
  qed
qed

lemma data_type_intern:
  assumes inv: "type_inv m" and run: "data_type_intern m v = (i, m')"
  shows "(i = PIGEN_INVALID_ID \<and> m' = m \<and> (PIGEN_INVALID_ID \<le> length (data_types m) \<or> \<not> type_ok m v)) \<or>
    (type_ok m v \<and> length (data_types m) < PIGEN_INVALID_ID \<and>
      (i < length (data_types m) \<and> type_value_of m i = v \<and> m' = m \<or>
       i = length (data_types m) \<and> (\<forall>j < length (data_types m). type_value_of m j \<noteq> v) \<and> m' = type_added m v))"
proof (cases "type_rejected m v")
  case True
  then have "(PIGEN_INVALID_ID, m) = (i, m')" using run by (simp add: data_type_intern_def)
  with True show ?thesis by (auto simp: type_rejected_iff)
next
  case False
  then have ok: "type_ok m v" and n: "length (data_types m) < PIGEN_INVALID_ID" by (auto simp: type_rejected_iff)
  show ?thesis
  proof (cases "first_index (type_matches m v) (data_types m)")
    case None
    then have "type_value_of m j \<noteq> v" if "j < length (data_types m)" for j
      using type_matches_iff [OF inv that, of v] that by auto
    moreover have "(u32 (length (data_types m)), type_added m v) = (i, m')"
      using run False unfolding data_type_intern_def None by (simp add: type_added_def)
    ultimately show ?thesis using ok n by auto
  next
    case (Some k)
    then have k: "k < length (data_types m)" "type_matches m v (data_types m ! k)"
      using first_index_Some [OF Some] by auto
    moreover have "(u32 k, m) = (i, m')" using run False unfolding data_type_intern_def Some by simp
    ultimately show ?thesis using ok n type_matches_iff [OF inv k(1), of v] by auto
  qed
qed

interpretation type_arena: interning type_inv "\<lambda>m. length (data_types m)" type_value_of
  "\<lambda>m v. True" "\<lambda>m. length (data_types m) < PIGEN_INVALID_ID" data_type_intern
proof unfold_locales
  show "length (data_types m) \<le> PIGEN_INVALID_ID" if "type_inv m" for m using that by (simp add: type_inv_def)
  show "i = j" if "type_inv m" "i < length (data_types m)" "j < length (data_types m)"
    "type_value_of m i = type_value_of m j" for m i j
    using that unfolding type_inv_def by blast
  fix m v i m'
  assume inv: "type_inv m" and run: "data_type_intern m v = (i, m')"
  note r = data_type_intern [OF inv run]
  show "type_inv m'" using r inv type_added_inv [OF inv] by auto
  show "i < length (data_types m') \<and> type_value_of m' i = v" if "i \<noteq> PIGEN_INVALID_ID"
    using r that type_value_added(2) [OF inv] length_type_added by auto
  show "length (data_types m) \<le> length (data_types m') \<and>
      (\<forall>j < length (data_types m). type_value_of m' j = type_value_of m j)"
  proof (cases "m' = m")
    case False
    then have "m' = type_added m v" using r by auto
    moreover have "length (data_types (type_added m v)) = Suc (length (data_types m))" by (simp add: type_added_def)
    ultimately show ?thesis using type_value_added(1) [OF inv, of _ v] by simp
  qed simp
next
  fix m i
  assume inv: "type_inv m" and n: "length (data_types m) < PIGEN_INVALID_ID" and i: "i < length (data_types m)"
  obtain k m' where run: "data_type_intern m (type_value_of m i) = (k, m')" by fastforce
  have "type_ok m (type_value_of m i)" using inv i by (simp add: type_inv_def)
  with data_type_intern [OF inv run] n i have "k < length (data_types m) \<and> type_value_of m k = type_value_of m i \<and> m' = m"
    by auto
  moreover from this have "k = i" using inv i unfolding type_inv_def by blast
  ultimately show "data_type_intern m (type_value_of m i) = (i, m)" using run by simp
qed

section \<open>Resolving aliases\<close>

text \<open>The primitive type at the end of a chain of aliases.\<close>

inductive resolves :: "pigen_semantic_model \<Rightarrow> id \<Rightarrow> id \<Rightarrow> bool" for m where
  resolves_here: "i < length (data_types m) \<Longrightarrow> data_constructor (data_types m ! i) \<noteq> PIGEN_DATA_TYPE_ALIAS \<Longrightarrow>
    resolves m i i"
| resolves_alias: "i < length (data_types m) \<Longrightarrow> data_constructor (data_types m ! i) = PIGEN_DATA_TYPE_ALIAS \<Longrightarrow>
    resolves m (alias_target (data_types m ! i)) j \<Longrightarrow> resolves m i j"

lemma type_get: "type_inv m \<Longrightarrow> i < length (data_types m) \<Longrightarrow> data_type_get m i = Some (data_types m ! i)"
  by (auto simp: data_type_get_def arena_get_def type_inv_def)

lemma underlying_loop:
  "type_inv m \<Longrightarrow> i < length (data_types m) \<Longrightarrow> i < n \<Longrightarrow> resolves m i (underlying_loop m i n)"
proof (induction n arbitrary: i)
  case 0
  then show ?case by simp
next
  case (Suc n)
  show ?case
  proof (cases "data_constructor (data_types m ! i) = PIGEN_DATA_TYPE_ALIAS")
    case True
    then have t: "alias_target (data_types m ! i) < i" using Suc.prems by (simp add: type_inv_def)
    then have "resolves m (alias_target (data_types m ! i)) (underlying_loop m (alias_target (data_types m ! i)) n)"
      using Suc by simp
    with True Suc.prems show ?thesis by (simp add: type_get resolves_alias)
  next
    case False
    with Suc.prems show ?thesis by (simp add: type_get resolves_here)
  qed
qed

lemma underlying_resolves:
  assumes "type_inv m" and "i < length (data_types m)"
  shows "resolves m i (underlying_data_type m i)"
  using underlying_loop [OF assms, of "length (data_types m) + 1"] assms(2)
  by (simp add: underlying_data_type_def)

lemma resolves_end:
  "resolves m i j \<Longrightarrow> j < length (data_types m) \<and> data_constructor (data_types m ! j) \<noteq> PIGEN_DATA_TYPE_ALIAS"
  by (induction rule: resolves.induct) auto

lemma resolves_unique: "resolves m i j \<Longrightarrow> resolves m i k \<Longrightarrow> j = k"
proof (induction arbitrary: k rule: resolves.induct)
  case (resolves_here i)
  from resolves_here.prems resolves_here.hyps show ?case by cases auto
next
  case (resolves_alias i j)
  from resolves_alias.prems show ?case
    by (cases rule: resolves.cases) (use resolves_alias.hyps resolves_alias.IH in blast)+
qed

lemma underlying_Some:
  assumes "type_inv m" and "i < length (data_types m)"
  shows "\<exists>j. resolves m i j \<and> underlying m i = Some (data_types m ! j)"
  using underlying_resolves [OF assms] resolves_end [OF underlying_resolves [OF assms]] type_get [OF assms(1)]
  by (auto simp: underlying_def)

lemma underlying_descriptor:
  assumes "type_inv m" and "underlying m i = Some k"
  shows "primitive_descriptor (data_constructor k) \<noteq> None \<and> data_constructor k \<noteq> PIGEN_DATA_TYPE_ALIAS"
proof -
  have i: "i < length (data_types m)"
  proof (rule ccontr)
    assume "\<not> i < length (data_types m)"
    then have "data_type_get m i = None" by (simp add: data_type_get_def arena_get_def)
    then show False using assms(2) by (simp add: underlying_def underlying_data_type_def data_type_get_def)
  qed
  from underlying_Some [OF assms(1) i] assms(2) obtain j where
    "resolves m i j" "k = data_types m ! j" by auto
  with resolves_end [of m i j] assms(1) show ?thesis
    by (auto simp: type_inv_def type_ok_def type_value_of_def Let_def)
qed

section \<open>What changes between models leaves a type alone\<close>

lemma type_inv_grow:
  assumes "type_inv m" and "data_types m' = data_types m" and "data_type_dimensions m' = data_type_dimensions m"
    and "length (constant_expressions m) \<le> length (constant_expressions m')"
  shows "type_inv m'"
proof -
  have v: "type_value_of m' i = type_value_of m i" for i using assms(2,3) by (simp add: type_value_of_def)
  have "type_ok m' w" if "type_ok m w" for w
    by (rule type_ok_mono [OF that]) (simp_all add: assms(2,4))
  with assms(1) show ?thesis by (simp add: type_inv_def v assms(2,3))
qed

end
