(* ===== verification/ConstExprs.thy ===== *)
theory ConstExprs
  imports DataTypes
begin

text \<open>
  Canonical constant expressions of src/src/semantic.c: structural equality, interning, the width
  sequences with their normal form, and the checked 64-bit evaluation. The recursions of the
  sources follow child identities; here they carry fuel, one more than the number of expressions,
  which is enough because a child is always stored before its parent.
\<close>

section \<open>Equality and interning\<close>

definition const_expressions_equal ::
    "pigen_semantic_model \<Rightarrow> pigen_const_expr \<Rightarrow> pigen_const_expr \<Rightarrow> bool" where
  "const_expressions_equal model left right \<longleftrightarrow>
     const_data_type left = const_data_type right \<and>
     (case (const_as left, const_as right) of
        (PIGEN_CONST_EXPR_INTEGER a, PIGEN_CONST_EXPR_INTEGER b) \<Rightarrow> a = b
      | (PIGEN_CONST_EXPR_EXACT_INTEGER a, PIGEN_CONST_EXPR_EXACT_INTEGER b) \<Rightarrow> a = b
      | (PIGEN_CONST_EXPR_BITS first1 count1, PIGEN_CONST_EXPR_BITS first2 count2) \<Rightarrow>
          count1 = count2 \<and> slice first1 count1 (literal_states model) = slice first2 count1 (literal_states model)
      | (PIGEN_CONST_EXPR_SYMBOL a, PIGEN_CONST_EXPR_SYMBOL b) \<Rightarrow> a = b
      | (PIGEN_CONST_EXPR_UNARY op1 a, PIGEN_CONST_EXPR_UNARY op2 b) \<Rightarrow>
          unary_operator op1 = unary_operator op2 \<and> operand_data_type op1 = operand_data_type op2 \<and>
          unary_result_data_type op1 = unary_result_data_type op2 \<and> a = b
      | (PIGEN_CONST_EXPR_BINARY op1 a1 b1, PIGEN_CONST_EXPR_BINARY op2 a2 b2) \<Rightarrow>
          binary_operator op1 = binary_operator op2 \<and> left_data_type op1 = left_data_type op2 \<and>
          right_data_type op1 = right_data_type op2 \<and>
          binary_result_data_type op1 = binary_result_data_type op2 \<and> a1 = a2 \<and> b1 = b2
      | (PIGEN_CONST_EXPR_CONDITIONAL op1 c1 t1 f1, PIGEN_CONST_EXPR_CONDITIONAL op2 c2 t2 f2) \<Rightarrow>
          condition_data_type op1 = condition_data_type op2 \<and>
          when_true_data_type op1 = when_true_data_type op2 \<and>
          when_false_data_type op1 = when_false_data_type op2 \<and>
          conditional_result_data_type op1 = conditional_result_data_type op2 \<and>
          c1 = c2 \<and> t1 = t2 \<and> f1 = f2
      | (PIGEN_CONST_EXPR_CONVERSION c1 a, PIGEN_CONST_EXPR_CONVERSION c2 b) \<Rightarrow>
          conversion_kind c1 = conversion_kind c2 \<and> source_data_type c1 = source_data_type c2 \<and>
          target_data_type c1 = target_data_type c2 \<and> a = b
      | (PIGEN_CONST_EXPR_INDEX a1 b1, PIGEN_CONST_EXPR_INDEX a2 b2) \<Rightarrow> a1 = a2 \<and> b1 = b2
      | (PIGEN_CONST_EXPR_SELECT a1 l1 r1 k1, PIGEN_CONST_EXPR_SELECT a2 l2 r2 k2) \<Rightarrow>
          a1 = a2 \<and> l1 = l2 \<and> r1 = r2 \<and> k1 = k2
      | (PIGEN_CONST_EXPR_SELECT_WIDTH l1 r1 k1, PIGEN_CONST_EXPR_SELECT_WIDTH l2 r2 k2) \<Rightarrow>
          l1 = l2 \<and> r1 = r2 \<and> k1 = k2
      | (PIGEN_CONST_EXPR_SEQUENCE k1 first1 count1, PIGEN_CONST_EXPR_SEQUENCE k2 first2 count2) \<Rightarrow>
          k1 = k2 \<and> count1 = count2 \<and>
          slice first1 count1 (constant_expression_children model) =
          slice first2 count1 (constant_expression_children model)
      | (PIGEN_CONST_EXPR_NUMERICAL_RANGE_WIDTH r1, PIGEN_CONST_EXPR_NUMERICAL_RANGE_WIDTH r2) \<Rightarrow>
          range_operator r1 = range_operator r2 \<and>
          concrete_interpretation r1 = concrete_interpretation r2 \<and>
          concrete_width r1 = concrete_width r2 \<and> exact_value r1 = exact_value r2 \<and>
          exact_is_left r1 = exact_is_left r2 \<and> result_is_signed r1 = result_is_signed r2
      | _ \<Rightarrow> False)"

definition intern_const_expression :: "pigen_semantic_model \<Rightarrow> pigen_const_expr \<Rightarrow> id \<times> pigen_semantic_model" where
  "intern_const_expression model expression =
     (if \<not> pigen_data_type_exists model (const_data_type expression) \<or>
         \<not> id_capacity_available (length (constant_expressions model))
      then (PIGEN_INVALID_ID, model)
      else case first_index (\<lambda>known. const_expressions_equal model known expression)
             (constant_expressions model) of
        Some i \<Rightarrow> (u32 i, model)
      | None \<Rightarrow>
          (u32 (length (constant_expressions model)),
           model\<lparr>constant_expressions := constant_expressions model @ [expression]\<rparr>))"

section \<open>Interning by kind\<close>

definition pigen_const_expr_intern_integer ::
    "pigen_semantic_model \<Rightarrow> u64 \<Rightarrow> id \<Rightarrow> id \<times> pigen_semantic_model" where
  "pigen_const_expr_intern_integer model v data_type =
     intern_const_expression model \<lparr>const_data_type = data_type, const_as = PIGEN_CONST_EXPR_INTEGER v\<rparr>"

definition pigen_const_expr_intern_exact_integer ::
    "pigen_semantic_model \<Rightarrow> id \<Rightarrow> id \<Rightarrow> id \<times> pigen_semantic_model" where
  "pigen_const_expr_intern_exact_integer model v data_type =
     (if pigen_data_type_exact_value model data_type \<noteq> v then (PIGEN_INVALID_ID, model)
      else intern_const_expression model
        \<lparr>const_data_type = data_type, const_as = PIGEN_CONST_EXPR_EXACT_INTEGER v\<rparr>)"

definition PIGEN_BIT_Z :: pigen_bit_state where
  "PIGEN_BIT_Z = 3"

definition pigen_const_expr_intern_bits ::
    "pigen_semantic_model \<Rightarrow> pigen_bit_state list \<Rightarrow> id \<Rightarrow> id \<times> pigen_semantic_model" where
  "pigen_const_expr_intern_bits model states data_type =
     (if states = [] \<or> length (literal_states model) > SIZE_MAX - length states \<or>
         (\<exists>s \<in> set states. s > PIGEN_BIT_Z)
      then (PIGEN_INVALID_ID, model)
      else case first_index (\<lambda>known. case const_as known of
               PIGEN_CONST_EXPR_BITS first count \<Rightarrow>
                 const_data_type known = data_type \<and> count = length states \<and>
                 slice first count (literal_states model) = states
             | _ \<Rightarrow> False) (constant_expressions model) of
          Some i \<Rightarrow> (u32 i, model)
        | None \<Rightarrow>
            let (result, model1) = intern_const_expression
                  (model\<lparr>literal_states := literal_states model @ states\<rparr>)
                  \<lparr>const_data_type = data_type,
                   const_as = PIGEN_CONST_EXPR_BITS (length (literal_states model)) (length states)\<rparr>
            in (result,
                if result = PIGEN_INVALID_ID
                then model1\<lparr>literal_states := take (length (literal_states model)) (literal_states model1)\<rparr>
                else model1))"

definition pigen_const_expr_intern_symbol ::
    "pigen_semantic_model \<Rightarrow> id \<Rightarrow> id \<Rightarrow> id \<times> pigen_semantic_model" where
  "pigen_const_expr_intern_symbol model symbol data_type =
     (case pigen_symbol_get model symbol of
        None \<Rightarrow> (PIGEN_INVALID_ID, model)
      | Some known \<Rightarrow>
          if symbol_kind known \<noteq> PIGEN_SYMBOL_PARAMETER \<or> symbol_data_type known \<noteq> data_type
          then (PIGEN_INVALID_ID, model)
          else intern_const_expression model
            \<lparr>const_data_type = data_type, const_as = PIGEN_CONST_EXPR_SYMBOL symbol\<rparr>)"

definition pigen_const_expr_intern_unary ::
    "pigen_semantic_model \<Rightarrow> pigen_unary_operation \<Rightarrow> id \<Rightarrow> id \<times> pigen_semantic_model" where
  "pigen_const_expr_intern_unary model operation operand =
     (case pigen_const_expr_get model operand of
        None \<Rightarrow> (PIGEN_INVALID_ID, model)
      | Some known \<Rightarrow>
          if const_data_type known \<noteq> operand_data_type operation \<or>
             \<not> pigen_data_type_exists model (unary_result_data_type operation)
          then (PIGEN_INVALID_ID, model)
          else intern_const_expression model
            \<lparr>const_data_type = unary_result_data_type operation,
             const_as = PIGEN_CONST_EXPR_UNARY operation operand\<rparr>)"

definition pigen_const_expr_intern_binary ::
    "pigen_semantic_model \<Rightarrow> pigen_binary_operation \<Rightarrow> id \<Rightarrow> id \<Rightarrow> id \<times> pigen_semantic_model" where
  "pigen_const_expr_intern_binary model operation left right =
     (case (pigen_const_expr_get model left, pigen_const_expr_get model right) of
        (Some left_expression, Some right_expression) \<Rightarrow>
          if const_data_type left_expression \<noteq> left_data_type operation \<or>
             const_data_type right_expression \<noteq> right_data_type operation \<or>
             \<not> pigen_data_type_exists model (binary_result_data_type operation)
          then (PIGEN_INVALID_ID, model)
          else intern_const_expression model
            \<lparr>const_data_type = binary_result_data_type operation,
             const_as = PIGEN_CONST_EXPR_BINARY operation left right\<rparr>
      | _ \<Rightarrow> (PIGEN_INVALID_ID, model))"

definition pigen_const_expr_intern_conditional ::
    "pigen_semantic_model \<Rightarrow> pigen_conditional_operation \<Rightarrow> id \<Rightarrow> id \<Rightarrow> id \<Rightarrow> id \<times> pigen_semantic_model" where
  "pigen_const_expr_intern_conditional model operation condition when_true when_false =
     (case (pigen_const_expr_get model condition, pigen_const_expr_get model when_true,
            pigen_const_expr_get model when_false) of
        (Some condition_expression, Some true_expression, Some false_expression) \<Rightarrow>
          if const_data_type condition_expression \<noteq> condition_data_type operation \<or>
             const_data_type true_expression \<noteq> when_true_data_type operation \<or>
             const_data_type false_expression \<noteq> when_false_data_type operation \<or>
             \<not> pigen_data_type_exists model (conditional_result_data_type operation)
          then (PIGEN_INVALID_ID, model)
          else intern_const_expression model
            \<lparr>const_data_type = conditional_result_data_type operation,
             const_as = PIGEN_CONST_EXPR_CONDITIONAL operation condition when_true when_false\<rparr>
      | _ \<Rightarrow> (PIGEN_INVALID_ID, model))"

definition pigen_const_expr_intern_select_width ::
    "pigen_semantic_model \<Rightarrow> id \<Rightarrow> id \<Rightarrow> pigen_select_kind \<Rightarrow> id \<times> pigen_semantic_model" where
  "pigen_const_expr_intern_select_width model left right kind =
     (if pigen_const_expr_get model right = None \<or>
         (kind = PIGEN_SEMANTIC_SELECT_RANGE) \<noteq> (left \<noteq> PIGEN_INVALID_ID) \<or>
         (left \<noteq> PIGEN_INVALID_ID \<and> pigen_const_expr_get model left = None)
      then (PIGEN_INVALID_ID, model)
      else
        let (left1, right1) = (if kind = PIGEN_SEMANTIC_SELECT_RANGE \<and> left > right then (right, left)
              else (left, right));
            kind1 = (if kind \<noteq> PIGEN_SEMANTIC_SELECT_RANGE then PIGEN_SEMANTIC_SELECT_INDEXED_UP else kind);
            (unsized, model1) = pigen_data_type_unsized_integer model
        in intern_const_expression model1
             \<lparr>const_data_type = unsized, const_as = PIGEN_CONST_EXPR_SELECT_WIDTH left1 right1 kind1\<rparr>)"

definition pigen_const_expr_intern_numerical_range_width ::
    "pigen_semantic_model \<Rightarrow> pigen_numerical_range_width \<Rightarrow> id \<times> pigen_semantic_model" where
  "pigen_const_expr_intern_numerical_range_width model rng =
     (if (range_operator rng \<noteq> PIGEN_BINARY_ADD \<and> range_operator rng \<noteq> PIGEN_BINARY_SUBTRACT \<and>
          range_operator rng \<noteq> PIGEN_BINARY_MULTIPLY \<and> range_operator rng \<noteq> PIGEN_BINARY_POWER) \<or>
         (concrete_interpretation rng \<noteq> PIGEN_NUMERICAL_SIGNED_INTEGER \<and>
          concrete_interpretation rng \<noteq> PIGEN_NUMERICAL_UNSIGNED_INTEGER) \<or>
         pigen_const_expr_get model (concrete_width rng) = None \<or>
         exact_value rng = PIGEN_INVALID_ID \<or> exact_value rng \<ge> length (integers model)
      then (PIGEN_INVALID_ID, model)
      else
        let (unsized, model1) = pigen_data_type_unsized_integer model
        in intern_const_expression model1
             \<lparr>const_data_type = unsized, const_as = PIGEN_CONST_EXPR_NUMERICAL_RANGE_WIDTH rng\<rparr>)"

section \<open>Sequences\<close>

text \<open>\<open>None\<close> is the answer \<open>SIZE_MAX\<close>.\<close>

definition append_const_children :: "pigen_semantic_model \<Rightarrow> id list \<Rightarrow> nat option \<times> pigen_semantic_model" where
  "append_const_children model children =
     (if children = [] \<or> length children > SIZE_MAX - length (constant_expression_children model)
      then (None, model)
      else (Some (length (constant_expression_children model)),
        model\<lparr>constant_expression_children := constant_expression_children model @ children\<rparr>))"

text \<open>
  The children are appended before the search, and the array is cut back when the sequence turns
  out to be known or cannot be stored.
\<close>

definition intern_const_sequence ::
    "pigen_semantic_model \<Rightarrow> pigen_const_sequence_kind \<Rightarrow> id list \<Rightarrow> id \<Rightarrow> id \<times> pigen_semantic_model" where
  "intern_const_sequence model kind children data_type =
     (if children = [] \<or> (\<exists>c \<in> set children. pigen_const_expr_get model c = None)
      then (PIGEN_INVALID_ID, model)
      else case append_const_children model children of
        (None, model1) \<Rightarrow> (PIGEN_INVALID_ID, model1)
      | (Some first, model1) \<Rightarrow>
          let (result, model2) = intern_const_expression model1
                \<lparr>const_data_type = data_type, const_as = PIGEN_CONST_EXPR_SEQUENCE kind first (length children)\<rparr>
          in (result,
              if result = PIGEN_INVALID_ID \<or>
                 length (constant_expressions model2) = length (constant_expressions model1)
              then model2\<lparr>constant_expression_children := take first (constant_expression_children model2)\<rparr>
              else model2))"

section \<open>Width sequences\<close>

text \<open>The neutral element of the kind that \<open>collect_width_terms\<close> drops.\<close>

definition neutral_term :: "pigen_const_sequence_kind \<Rightarrow> pigen_const_expr_as \<Rightarrow> bool" where
  "neutral_term kind payload \<longleftrightarrow>
     (case payload of
        PIGEN_CONST_EXPR_INTEGER v \<Rightarrow>
          (kind = PIGEN_CONST_EXPR_WIDTH_SUM \<and> v = 0) \<or> (kind = PIGEN_CONST_EXPR_WIDTH_PRODUCT \<and> v = 1)
      | _ \<Rightarrow> False)"

primrec collect_width_terms ::
    "nat \<Rightarrow> pigen_semantic_model \<Rightarrow> pigen_const_sequence_kind \<Rightarrow> id \<Rightarrow> id list \<Rightarrow> id list option" where
  "collect_width_terms 0 = (\<lambda>model kind expression terms. None)"
| "collect_width_terms (Suc fuel) = (\<lambda>model kind expression terms.
     case pigen_const_expr_get model expression of
       None \<Rightarrow> None
     | Some known \<Rightarrow>
         let keep = (if neutral_term kind (const_as known) then Some terms else Some (terms @ [expression]))
         in case const_as known of
              PIGEN_CONST_EXPR_SEQUENCE k first count \<Rightarrow>
                if k = kind then
                  (case pigen_const_expr_children model first count of
                     None \<Rightarrow> None
                   | Some children \<Rightarrow>
                       fold (\<lambda>c acc. Option.bind acc (collect_width_terms fuel model kind c)) children (Some terms))
                else keep
            | _ \<Rightarrow> keep)"

text \<open>
  The loop of the maximum: symbolic terms are kept once, in order, and the literal ones are folded
  into their maximum.
\<close>

fun split_maximum ::
    "pigen_semantic_model \<Rightarrow> id list \<Rightarrow> id list \<Rightarrow> bool \<Rightarrow> u64 \<Rightarrow> id list \<times> bool \<times> u64" where
  "split_maximum model [] unique has_integer largest = (unique, has_integer, largest)"
| "split_maximum model (t # ts) unique has_integer largest =
     (case map_option const_as (pigen_const_expr_get model t) of
        Some (PIGEN_CONST_EXPR_INTEGER v) \<Rightarrow>
          split_maximum model ts unique True (if \<not> has_integer \<or> v > largest then v else largest)
      | _ \<Rightarrow>
          split_maximum model ts (if t \<in> set unique then unique else unique @ [t]) has_integer largest)"

definition collected_terms ::
    "pigen_semantic_model \<Rightarrow> pigen_const_sequence_kind \<Rightarrow> id list \<Rightarrow> id list option" where
  "collected_terms model kind children =
     fold (\<lambda>c acc. Option.bind acc (collect_width_terms (length (constant_expressions model) + 1) model kind c))
       children (Some [])"

definition maximum_terms ::
    "pigen_semantic_model \<Rightarrow> id \<Rightarrow> id list \<Rightarrow> id list \<times> pigen_semantic_model" where
  "maximum_terms model unsized collected =
     (let (unique, has_integer, largest) = split_maximum model collected [] False 0
      in if has_integer \<and> (largest \<noteq> 0 \<or> unique = []) then
           let (literal, model1) = pigen_const_expr_intern_integer model largest unsized
           in (unique @ [literal], model1)
         else (unique, model))"

definition intern_terms ::
    "pigen_semantic_model \<Rightarrow> pigen_const_sequence_kind \<Rightarrow> id \<Rightarrow> id list \<Rightarrow> id \<times> pigen_semantic_model" where
  "intern_terms model kind unsized terms =
     (case terms of
        [] \<Rightarrow> pigen_const_expr_intern_integer model (if kind = PIGEN_CONST_EXPR_WIDTH_PRODUCT then 1 else 0) unsized
      | [t] \<Rightarrow> (t, model)
      | _ \<Rightarrow> intern_const_sequence model kind (sort terms) unsized)"

definition intern_width_sequence ::
    "pigen_semantic_model \<Rightarrow> pigen_const_sequence_kind \<Rightarrow> id list \<Rightarrow> id \<times> pigen_semantic_model" where
  "intern_width_sequence model0 kind children =
     (let (unsized, model) = pigen_data_type_unsized_integer model0
      in if children = [] \<or> kind = PIGEN_CONST_EXPR_CONCATENATION then (PIGEN_INVALID_ID, model)
         else case collected_terms model kind children of
           None \<Rightarrow> (PIGEN_INVALID_ID, model)
         | Some collected \<Rightarrow>
             let (terms, model1) = (if kind = PIGEN_CONST_EXPR_WIDTH_MAXIMUM
                   then maximum_terms model unsized collected else (collected, model))
             in intern_terms model1 kind unsized terms)"

definition pigen_const_expr_intern_width_sum ::
    "pigen_semantic_model \<Rightarrow> id list \<Rightarrow> id \<times> pigen_semantic_model" where
  "pigen_const_expr_intern_width_sum model terms = intern_width_sequence model PIGEN_CONST_EXPR_WIDTH_SUM terms"

definition pigen_const_expr_intern_width_product ::
    "pigen_semantic_model \<Rightarrow> id list \<Rightarrow> id \<times> pigen_semantic_model" where
  "pigen_const_expr_intern_width_product model factors =
     intern_width_sequence model PIGEN_CONST_EXPR_WIDTH_PRODUCT factors"

definition pigen_const_expr_intern_width_maximum ::
    "pigen_semantic_model \<Rightarrow> id list \<Rightarrow> id \<times> pigen_semantic_model" where
  "pigen_const_expr_intern_width_maximum model vals =
     intern_width_sequence model PIGEN_CONST_EXPR_WIDTH_MAXIMUM vals"

definition pigen_const_expr_bits :: "pigen_semantic_model \<Rightarrow> id \<Rightarrow> pigen_bit_state list option" where
  "pigen_const_expr_bits model expression =
     (case map_option const_as (pigen_const_expr_get model expression) of
        Some (PIGEN_CONST_EXPR_BITS first count) \<Rightarrow> children_slice (literal_states model) first count
      | _ \<Rightarrow> None)"

end
