(* ===== verification/ConstEval.thy ===== *)
theory ConstEval
  imports ConstExprs
begin

text \<open>
  Evaluation of constant expressions to 64-bit values (src/src/semantic.c). Every operation is
  checked and fails instead of wrapping around. Evaluating an inferred range width may intern
  integers, so the model is returned. The argument \<open>remaining\<close> is the depth bound of the sources;
  the width operand of an inferred range starts with a full bound again, hence the fuel.
\<close>

section \<open>Checked arithmetic\<close>

definition max_u64 :: u64 where
  "max_u64 = 18446744073709551615"

definition checked_add :: "u64 \<Rightarrow> u64 \<Rightarrow> u64 option" where
  "checked_add left right = (if left > max_u64 - right then None else Some (left + right))"

definition checked_multiply :: "u64 \<Rightarrow> u64 \<Rightarrow> u64 option" where
  "checked_multiply left right =
     (if right \<noteq> 0 \<and> left > max_u64 div right then None else Some (left * right))"

lemma unat_max_u64: "unat max_u64 = 2 ^ 64 - 1"
  by (simp add: max_u64_def)

lemma u64_bound: "unat (x :: u64) \<le> 2 ^ 64 - 1"
  using unsigned_less [of x, where 'a = nat] by simp

lemma checked_add:
  "checked_add a b = Some c \<longleftrightarrow> unat a + unat b < 2 ^ 64 \<and> unat c = unat a + unat b"
proof -
  have "b \<le> max_u64" using u64_bound [of b] by (simp add: word_le_nat_alt unat_max_u64)
  then have "unat (max_u64 - b) = 2 ^ 64 - 1 - unat b" by (simp add: unat_sub unat_max_u64)
  then have "\<not> a > max_u64 - b \<longleftrightarrow> unat a + unat b < 2 ^ 64"
    using u64_bound [of b] by (simp add: word_less_nat_alt) linarith
  moreover have "c = a + b \<longleftrightarrow> unat c = unat a + unat b" if "unat a + unat b < 2 ^ 64"
    using that by (auto simp: unat_word_ariths unsigned_word_eqI word_unat_eq_iff)
  ultimately show ?thesis by (auto simp: checked_add_def)
qed

lemma checked_multiply:
  "checked_multiply a b = Some c \<longleftrightarrow> unat a * unat b < 2 ^ 64 \<and> unat c = unat a * unat b"
proof -
  have "\<not> (b \<noteq> 0 \<and> a > max_u64 div b) \<longleftrightarrow> unat a * unat b < 2 ^ 64"
  proof (cases "b = 0")
    case True
    then show ?thesis by simp
  next
    case False
    then have pos: "0 < unat b" by (simp add: unat_gt_0)
    have "unat (max_u64 div b) = (2 ^ 64 - 1) div unat b" by (simp add: unat_div unat_max_u64)
    then have "\<not> a > max_u64 div b \<longleftrightarrow> unat a \<le> (2 ^ 64 - 1) div unat b"
      by (simp add: word_less_nat_alt not_less)
    also have "\<dots> \<longleftrightarrow> unat a * unat b \<le> 2 ^ 64 - 1" using pos by (simp add: less_eq_div_iff_mult_less_eq)
    also have "\<dots> \<longleftrightarrow> unat a * unat b < 2 ^ 64" by auto
    finally show ?thesis using False by simp
  qed
  moreover have "c = a * b \<longleftrightarrow> unat c = unat a * unat b" if "unat a * unat b < 2 ^ 64"
    using that by (auto simp: unat_word_ariths word_unat_eq_iff)
  ultimately show ?thesis by (auto simp: checked_multiply_def)
qed

lemma unat_half: "unat (drop_bit 1 (x :: u64)) = unat x div 2"
  by (simp add: drop_bit_eq_div unat_div)

text \<open>The loop of exponentiation by squaring, with both overflow checks.\<close>

function checked_power_loop :: "u64 \<Rightarrow> u64 \<Rightarrow> u64 \<Rightarrow> u64 option" where
  "checked_power_loop result left right =
     (if right = 0 then Some result
      else if right AND 1 \<noteq> 0 \<and> left \<noteq> 0 \<and> result > max_u64 div left then None
      else
        let result1 = (if right AND 1 \<noteq> 0 then result * left else result);
            right1 = drop_bit 1 right
        in if right1 \<noteq> 0 \<and> left \<noteq> 0 \<and> left > max_u64 div left then None
           else checked_power_loop result1 (if right1 \<noteq> 0 then left * left else left) right1)"
  by auto
termination
proof (relation "measure (\<lambda>(_, _, right). unat right)", goal_cases)
  case 1
  then show ?case by simp
next
  case (2 result left right x xa)
  have "unat (drop_bit 1 right) = unat right div 2" by (rule unat_half)
  moreover have "0 < unat right" using 2 by (simp add: unat_gt_0)
  ultimately show ?case using 2 by simp
qed

declare checked_power_loop.simps [simp del]

lemma checked_power_loop:
  "checked_power_loop result left right = Some v \<Longrightarrow> unat v = unat result * unat left ^ unat right"
proof (induction result left right rule: checked_power_loop.induct)
  case (1 result left right)
  show ?case
  proof (cases "right = 0")
    case True
    with "1.prems" show ?thesis by (simp add: checked_power_loop.simps [of result left 0])
  next
    case False
    let ?odd = "right AND 1 \<noteq> 0" and ?r1 = "drop_bit 1 right"
    let ?result1 = "if ?odd then result * left else result" and ?left1 = "if ?r1 \<noteq> 0 then left * left else left"
    have half: "unat ?r1 = unat right div 2" by (rule unat_half)
    have odd: "?odd \<longleftrightarrow> odd (unat right)"
      by (rule odd_word)
    have c1: "\<not> (?odd \<and> left \<noteq> 0 \<and> result > max_u64 div left)"
      using "1.prems" False by (subst (asm) checked_power_loop.simps) (auto split: if_splits)
    have c2: "\<not> (?r1 \<noteq> 0 \<and> left \<noteq> 0 \<and> left > max_u64 div left)"
      and run: "checked_power_loop ?result1 ?left1 ?r1 = Some v"
      using "1.prems" False c1 by (subst (asm) checked_power_loop.simps; simp add: Let_def split: if_splits)+
    have ih: "unat v = unat ?result1 * unat ?left1 ^ unat ?r1"
      using "1.IH" [OF False c1 refl refl c2 run] .
    have m1: "unat ?result1 = (if ?odd then unat result * unat left else unat result)"
      using c1 checked_multiply [of result left "result * left"] by (auto simp: checked_multiply_def)
    have m2: "unat ?left1 = (if ?r1 \<noteq> 0 then unat left * unat left else unat left)"
      using c2 checked_multiply [of left left "left * left"] by (auto simp: checked_multiply_def)
    have "unat right = 2 * unat ?r1 + (if ?odd then 1 else 0)"
      using half odd by auto
    then have "unat left ^ unat right = (if ?odd then unat left else 1) * (unat left * unat left) ^ unat ?r1"
      by (simp add: power_add power_mult power2_eq_square)
    moreover have "unat ?left1 ^ unat ?r1 = (unat left * unat left) ^ unat ?r1"
      using m2 by (cases "?r1 = 0") auto
    ultimately show ?thesis using ih m1 by auto
  qed
qed

definition checked_binary :: "pigen_binary_operator \<Rightarrow> u64 \<Rightarrow> u64 \<Rightarrow> u64 option" where
  "checked_binary operator left right =
     (case operator of
        PIGEN_BINARY_ADD \<Rightarrow> checked_add left right
      | PIGEN_BINARY_SUBTRACT \<Rightarrow> if left < right then None else Some (left - right)
      | PIGEN_BINARY_MULTIPLY \<Rightarrow> checked_multiply left right
      | PIGEN_BINARY_POWER \<Rightarrow> checked_power_loop 1 left right
      | _ \<Rightarrow> None)"

definition select_width_u64 :: "u64 \<Rightarrow> u64 \<Rightarrow> u64 option" where
  "select_width_u64 left right =
     (if left \<ge> right then (if left - right = max_u64 then None else Some (left - right + 1))
      else (if right - left = max_u64 then None else Some (right - left + 1)))"

definition sequence_combine :: "pigen_const_sequence_kind \<Rightarrow> u64 \<Rightarrow> u64 \<Rightarrow> u64 option" where
  "sequence_combine kind result right =
     (case kind of
        PIGEN_CONST_EXPR_WIDTH_SUM \<Rightarrow> checked_add result right
      | PIGEN_CONST_EXPR_WIDTH_PRODUCT \<Rightarrow> checked_multiply result right
      | _ \<Rightarrow> Some (if right > result then right else result))"

section \<open>Evaluation\<close>

primrec evaluate_u64 ::
    "nat \<Rightarrow> pigen_semantic_model \<Rightarrow> id \<Rightarrow> nat \<Rightarrow> u64 option \<times> pigen_semantic_model" where
  "evaluate_u64 0 = (\<lambda>model expression remaining. (None, model))"
| "evaluate_u64 (Suc fuel) = (\<lambda>model expression remaining.
     case pigen_const_expr_get model expression of
       None \<Rightarrow> (None, model)
     | Some known \<Rightarrow>
         if remaining = 0 then (None, model)
         else case const_as known of
           PIGEN_CONST_EXPR_INTEGER v \<Rightarrow> (Some v, model)
         | PIGEN_CONST_EXPR_EXACT_INTEGER k \<Rightarrow>
             let integer = integers model ! k
             in if negative integer \<or> limb_count integer > 2 then (None, model)
                else (Some ((if limb_count integer \<noteq> 0 then ucast (integer_limbs model ! first_limb integer) else 0) OR
                       (if limb_count integer = 2
                        then push_bit 32 (ucast (integer_limbs model ! (first_limb integer + 1))) else 0)), model)
         | PIGEN_CONST_EXPR_CONVERSION c operand \<Rightarrow> evaluate_u64 fuel model operand (remaining - 1)
         | PIGEN_CONST_EXPR_BINARY operation l r \<Rightarrow>
             (case evaluate_u64 fuel model l (remaining - 1) of
                (None, model1) \<Rightarrow> (None, model1)
              | (Some left, model1) \<Rightarrow>
                  (case evaluate_u64 fuel model1 r (remaining - 1) of
                     (None, model2) \<Rightarrow> (None, model2)
                   | (Some right, model2) \<Rightarrow> (checked_binary (binary_operator operation) left right, model2)))
         | PIGEN_CONST_EXPR_SELECT_WIDTH l r kind \<Rightarrow>
             (case evaluate_u64 fuel model r (remaining - 1) of
                (None, model1) \<Rightarrow> (None, model1)
              | (Some right, model1) \<Rightarrow>
                  if kind \<noteq> PIGEN_SEMANTIC_SELECT_RANGE then (Some right, model1)
                  else (case evaluate_u64 fuel model1 l (remaining - 1) of
                     (None, model2) \<Rightarrow> (None, model2)
                   | (Some left, model2) \<Rightarrow> (select_width_u64 left right, model2)))
         | PIGEN_CONST_EXPR_SEQUENCE kind first count \<Rightarrow>
             if kind = PIGEN_CONST_EXPR_CONCATENATION then (None, model)
             else (case pigen_const_expr_children model first count of
                 None \<Rightarrow> (None, model)
               | Some children \<Rightarrow>
                   fold (\<lambda>c (acc, m). case acc of
                       None \<Rightarrow> (None, m)
                     | Some result \<Rightarrow>
                         (case evaluate_u64 fuel m c (remaining - 1) of
                            (None, m1) \<Rightarrow> (None, m1)
                          | (Some right, m1) \<Rightarrow> (sequence_combine kind result right, m1)))
                     children (Some (if kind = PIGEN_CONST_EXPR_WIDTH_PRODUCT then 1 else 0), model))
         | PIGEN_CONST_EXPR_NUMERICAL_RANGE_WIDTH rng \<Rightarrow>
             (case evaluate_u64 fuel model (concrete_width rng) (length (constant_expressions model) + 1) of
                (w, model1) \<Rightarrow>
                  (case pigen_data_type_evaluate_numerical_range_width model1 rng (map_option unat w) of
                     (r, model2) \<Rightarrow> (map_option of_nat r, model2)))
         | _ \<Rightarrow> (None, model))"

definition pigen_const_expr_evaluate_u64 ::
    "pigen_semantic_model \<Rightarrow> id \<Rightarrow> u64 option \<times> pigen_semantic_model" where
  "pigen_const_expr_evaluate_u64 model expression =
     evaluate_u64 (length (constant_expressions model) + 1) model expression
       (length (constant_expressions model) + 1)"

section \<open>Symbolic constants and counts\<close>

primrec constant_is_symbolic :: "nat \<Rightarrow> pigen_semantic_model \<Rightarrow> id \<Rightarrow> bool" where
  "constant_is_symbolic 0 = (\<lambda>model expression. False)"
| "constant_is_symbolic (Suc remaining) = (\<lambda>model expression.
     case pigen_const_expr_get model expression of
       None \<Rightarrow> False
     | Some known \<Rightarrow>
         (case const_as known of
            PIGEN_CONST_EXPR_SYMBOL s \<Rightarrow> True
          | PIGEN_CONST_EXPR_UNARY operation a \<Rightarrow> constant_is_symbolic remaining model a
          | PIGEN_CONST_EXPR_CONVERSION c a \<Rightarrow> constant_is_symbolic remaining model a
          | PIGEN_CONST_EXPR_BINARY operation a b \<Rightarrow>
              constant_is_symbolic remaining model a \<or> constant_is_symbolic remaining model b
          | PIGEN_CONST_EXPR_CONDITIONAL operation a b c \<Rightarrow>
              constant_is_symbolic remaining model a \<or> constant_is_symbolic remaining model b \<or>
              constant_is_symbolic remaining model c
          | PIGEN_CONST_EXPR_INDEX a b \<Rightarrow>
              constant_is_symbolic remaining model a \<or> constant_is_symbolic remaining model b
          | PIGEN_CONST_EXPR_SELECT a b c kind \<Rightarrow>
              constant_is_symbolic remaining model a \<or> constant_is_symbolic remaining model b \<or>
              constant_is_symbolic remaining model c
          | PIGEN_CONST_EXPR_SELECT_WIDTH a b kind \<Rightarrow>
              constant_is_symbolic remaining model a \<or> constant_is_symbolic remaining model b
          | PIGEN_CONST_EXPR_SEQUENCE kind first count \<Rightarrow>
              (case pigen_const_expr_children model first count of
                 None \<Rightarrow> False
               | Some children \<Rightarrow> list_ex (constant_is_symbolic remaining model) children)
          | PIGEN_CONST_EXPR_NUMERICAL_RANGE_WIDTH rng \<Rightarrow>
              constant_is_symbolic remaining model (concrete_width rng)
          | _ \<Rightarrow> False))"

definition pigen_const_expr_is_symbolic :: "pigen_semantic_model \<Rightarrow> id \<Rightarrow> bool" where
  "pigen_const_expr_is_symbolic model expression =
     constant_is_symbolic (length (constant_expressions model) + 1) model expression"

definition pigen_const_expr_normalize_count :: "pigen_semantic_model \<Rightarrow> id \<Rightarrow> id \<times> pigen_semantic_model" where
  "pigen_const_expr_normalize_count model v =
     (case pigen_const_expr_get model v of
        None \<Rightarrow> (PIGEN_INVALID_ID, model)
      | Some known \<Rightarrow>
          (case pigen_const_expr_evaluate_u64 model v of
             (Some evaluated, model1) \<Rightarrow>
               if evaluated \<noteq> 0 then
                 let (unsized, model2) = pigen_data_type_unsized_integer model1
                 in pigen_const_expr_intern_integer model2 evaluated unsized
               else (PIGEN_INVALID_ID, model1)
           | (None, model1) \<Rightarrow>
               let integer = pigen_data_type_exact_value model1 (const_data_type known)
               in if integer \<noteq> PIGEN_INVALID_ID then
                    let exact = integers model1 ! integer
                    in if negative exact \<or> limb_count exact = 0 \<or> limb_count exact > 2
                       then (PIGEN_INVALID_ID, model1)
                       else
                         let normalized = ucast (integer_limbs model1 ! first_limb exact) OR
                               (if limb_count exact = 2
                                then push_bit 32 (ucast (integer_limbs model1 ! (first_limb exact + 1))) else 0);
                             (unsized, model2) = pigen_data_type_unsized_integer model1
                         in pigen_const_expr_intern_integer model2 normalized unsized
                  else if const_as known = PIGEN_CONST_EXPR_INTEGER 0 then (PIGEN_INVALID_ID, model1)
                  else if pigen_const_expr_is_symbolic model1 v then (v, model1)
                  else (PIGEN_INVALID_ID, model1)))"

end
