(* ===== verification/Rtl.thy ===== *)
theory Rtl
  imports SemanticModel
begin

text \<open>
  The hardware model (src/include/pigen/rtl.h, src/src/rtl.c): arenas of types, expressions, objects,
  instances, equations, updates, processes and modules. Children of an expression and the
  parameters and connections of an instance are ranges of flat arrays; the objects, instances,
  equations and processes of a module are ranges of their arenas. The kind of an expression and the
  active member of its union are one datatype.
\<close>

section \<open>Records\<close>

record pigen_rtl_bound =
  bound_value :: "64 word"
  bound_expression :: id

record pigen_rtl_packed_dimension =
  packed_left :: pigen_rtl_bound
  packed_right :: pigen_rtl_bound

record pigen_rtl_literal_word =
  word_value :: u64
  x_mask :: u64
  z_mask :: u64

record pigen_rtl_type =
  rtl_signedness :: pigen_signedness
  rtl_state_domain :: pigen_state_domain
  rtl_width :: u64
  rtl_width_expression :: id
  rtl_type_origin :: pigen_source_span
  rtl_dimensions :: "pigen_rtl_packed_dimension list"

datatype pigen_rtl_expr_as =
    PIGEN_RTL_EXPR_INVALID
  | PIGEN_RTL_EXPR_INTEGER
  | PIGEN_RTL_EXPR_BITS
  | PIGEN_RTL_EXPR_OBJECT
  | PIGEN_RTL_EXPR_UNARY pigen_unary_resolution
  | PIGEN_RTL_EXPR_BINARY pigen_binary_resolution
  | PIGEN_RTL_EXPR_CONDITIONAL pigen_conditional_resolution
  | PIGEN_RTL_EXPR_CONVERSION pigen_conversion
  | PIGEN_RTL_EXPR_INDEX
  | PIGEN_RTL_EXPR_SELECT pigen_select_kind
  | PIGEN_RTL_EXPR_CONCATENATION

record pigen_rtl_expr =
  rtl_expr_as :: pigen_rtl_expr_as
  rtl_expr_type :: id
  rtl_expr_origin :: pigen_source_span
  rtl_expr_value :: u64
  literal_words :: "pigen_rtl_literal_word list"
  literal_bit_count :: nat
  literal_negative :: bool
  rtl_expr_object :: id
  rtl_first_child :: nat
  rtl_child_count :: nat

record pigen_rtl_record_range =
  range_first :: nat
  range_count :: nat

datatype pigen_rtl_object_kind =
    PIGEN_RTL_OBJECT_KIND_INVALID | PIGEN_RTL_OBJECT_VARIABLE | PIGEN_RTL_OBJECT_MEMORY

record pigen_rtl_object =
  object_origin :: pigen_source_span
  object_kind :: pigen_rtl_object_kind
  object_type :: id
  object_direction :: pigen_semantic_direction
  object_semantic_signal :: id
  object_module :: id

record pigen_rtl_instance =
  instance_origin :: pigen_source_span
  instance_semantic_module :: id
  instance_parameters :: pigen_rtl_record_range
  instance_connections :: pigen_rtl_record_range
  instance_module :: id

record pigen_rtl_equation =
  equation_origin :: pigen_source_span
  equation_destination :: id
  equation_value :: id
  equation_module :: id

record pigen_rtl_update =
  update_origin :: pigen_source_span
  update_destination :: id
  update_value :: id
  update_module :: id

record pigen_rtl_process =
  rtl_process_origin :: pigen_source_span
  rtl_process_clock :: id
  rtl_process_edge :: pigen_semantic_edge
  rtl_process_updates :: pigen_rtl_record_range
  rtl_process_module :: id

record pigen_rtl_module =
  rtl_module_origin :: pigen_source_span
  rtl_semantic_module :: id
  module_objects :: pigen_rtl_record_range
  module_instances :: pigen_rtl_record_range
  module_equations :: pigen_rtl_record_range
  module_processes :: pigen_rtl_record_range

datatype pigen_rtl_name_kind =
    PIGEN_RTL_NAME_KIND_INVALID | PIGEN_RTL_NAME_SOURCE | PIGEN_RTL_NAME_PAYLOAD
  | PIGEN_RTL_NAME_VALID | PIGEN_RTL_NAME_READY | PIGEN_RTL_NAME_INSTANCE | PIGEN_RTL_NAME_TEMPORARY

record pigen_rtl_name =
  name_origin :: pigen_source_span
  name_kind :: pigen_rtl_name_kind
  name_text :: string

record pigen_rtl_model =
  rtl_types :: "pigen_rtl_type list"
  rtl_expressions :: "pigen_rtl_expr list"
  rtl_expression_children :: "id list"
  rtl_objects :: "pigen_rtl_object list"
  rtl_instances :: "pigen_rtl_instance list"
  rtl_equations :: "pigen_rtl_equation list"
  rtl_updates :: "pigen_rtl_update list"
  rtl_processes :: "pigen_rtl_process list"
  rtl_modules :: "pigen_rtl_module list"
  rtl_instance_parameters :: "id list"
  rtl_instance_connections :: "id list"
  rtl_names :: "pigen_rtl_name list"

definition pigen_free_rtl_model :: pigen_rtl_model where
  "pigen_free_rtl_model =
     \<lparr>rtl_types = [], rtl_expressions = [], rtl_expression_children = [], rtl_objects = [],
      rtl_instances = [], rtl_equations = [], rtl_updates = [], rtl_processes = [], rtl_modules = [],
      rtl_instance_parameters = [], rtl_instance_connections = [], rtl_names = []\<rparr>"

section \<open>Accessors\<close>

definition pigen_rtl_type_get :: "pigen_rtl_model \<Rightarrow> id \<Rightarrow> pigen_rtl_type option" where
  "pigen_rtl_type_get model i = arena_get (rtl_types model) i"

definition pigen_rtl_expr_get :: "pigen_rtl_model \<Rightarrow> id \<Rightarrow> pigen_rtl_expr option" where
  "pigen_rtl_expr_get model i = arena_get (rtl_expressions model) i"

definition pigen_rtl_object_get :: "pigen_rtl_model \<Rightarrow> id \<Rightarrow> pigen_rtl_object option" where
  "pigen_rtl_object_get model i = arena_get (rtl_objects model) i"

definition pigen_rtl_instance_get :: "pigen_rtl_model \<Rightarrow> id \<Rightarrow> pigen_rtl_instance option" where
  "pigen_rtl_instance_get model i = arena_get (rtl_instances model) i"

definition pigen_rtl_equation_get :: "pigen_rtl_model \<Rightarrow> id \<Rightarrow> pigen_rtl_equation option" where
  "pigen_rtl_equation_get model i = arena_get (rtl_equations model) i"

definition pigen_rtl_update_get :: "pigen_rtl_model \<Rightarrow> id \<Rightarrow> pigen_rtl_update option" where
  "pigen_rtl_update_get model i = arena_get (rtl_updates model) i"

definition pigen_rtl_process_get :: "pigen_rtl_model \<Rightarrow> id \<Rightarrow> pigen_rtl_process option" where
  "pigen_rtl_process_get model i = arena_get (rtl_processes model) i"

definition pigen_rtl_module_get :: "pigen_rtl_model \<Rightarrow> id \<Rightarrow> pigen_rtl_module option" where
  "pigen_rtl_module_get model i = arena_get (rtl_modules model) i"

lemmas rtl_get_defs =
  pigen_rtl_type_get_def pigen_rtl_expr_get_def pigen_rtl_object_get_def pigen_rtl_instance_get_def
  pigen_rtl_equation_get_def pigen_rtl_update_get_def pigen_rtl_process_get_def pigen_rtl_module_get_def

text \<open>The children of a known expression; the result is null when there are none.\<close>

definition pigen_rtl_expr_children :: "pigen_rtl_model \<Rightarrow> id \<Rightarrow> id list option" where
  "pigen_rtl_expr_children model i =
     (case pigen_rtl_expr_get model i of
        None \<Rightarrow> None
      | Some known \<Rightarrow>
          if rtl_child_count known = 0 then None
          else Some (slice (rtl_first_child known) (rtl_child_count known) (rtl_expression_children model)))"

section \<open>Types\<close>

definition bound_valid :: "pigen_rtl_model \<Rightarrow> pigen_rtl_bound \<Rightarrow> bool" where
  "bound_valid model bound \<longleftrightarrow>
     bound_expression bound = PIGEN_INVALID_ID \<or>
     (case pigen_rtl_expr_get model (bound_expression bound) of
        None \<Rightarrow> False | Some known \<Rightarrow> rtl_expr_as known \<noteq> PIGEN_RTL_EXPR_INVALID)"

definition bound_equal :: "pigen_rtl_bound \<Rightarrow> pigen_rtl_bound \<Rightarrow> bool" where
  "bound_equal a b \<longleftrightarrow>
     bound_expression a = bound_expression b \<and>
     (bound_expression a \<noteq> PIGEN_INVALID_ID \<or> bound_value a = bound_value b)"

definition rtl_dimensions_equal :: "pigen_rtl_type \<Rightarrow> pigen_rtl_type \<Rightarrow> bool" where
  "rtl_dimensions_equal a b \<longleftrightarrow>
     length (rtl_dimensions a) = length (rtl_dimensions b) \<and>
     (\<forall>i < length (rtl_dimensions a).
        bound_equal (packed_left (rtl_dimensions a ! i)) (packed_left (rtl_dimensions b ! i)) \<and>
        bound_equal (packed_right (rtl_dimensions a ! i)) (packed_right (rtl_dimensions b ! i)))"

definition rtl_type_matches :: "pigen_rtl_type \<Rightarrow> pigen_rtl_type \<Rightarrow> bool" where
  "rtl_type_matches descriptor known \<longleftrightarrow>
     rtl_signedness known = rtl_signedness descriptor \<and>
     rtl_state_domain known = rtl_state_domain descriptor \<and>
     (rtl_width_expression descriptor \<noteq> PIGEN_INVALID_ID \<or> rtl_width known = rtl_width descriptor) \<and>
     rtl_width_expression known = rtl_width_expression descriptor \<and>
     rtl_dimensions_equal known descriptor"

text \<open>\<open>sizeof\<close> of a packed dimension is 32 bytes.\<close>

definition rtl_type_rejected :: "pigen_rtl_model \<Rightarrow> pigen_rtl_type \<Rightarrow> bool" where
  "rtl_type_rejected model descriptor \<longleftrightarrow>
     rtl_signedness descriptor = PIGEN_SIGN_INVALID \<or>
     rtl_state_domain descriptor = PIGEN_DATA_TYPE_STATE_INVALID \<or>
     (rtl_width_expression descriptor \<noteq> PIGEN_INVALID_ID \<and>
      \<not> bound_valid model \<lparr>bound_value = 0, bound_expression = rtl_width_expression descriptor\<rparr>) \<or>
     length (rtl_dimensions descriptor) > SIZE_MAX div 32 \<or>
     length (rtl_types model) = PIGEN_INVALID_ID \<or>
     (\<exists>d \<in> set (rtl_dimensions descriptor).
        \<not> bound_valid model (packed_left d) \<or> \<not> bound_valid model (packed_right d))"

definition pigen_rtl_type_intern :: "pigen_rtl_model \<Rightarrow> pigen_rtl_type \<Rightarrow> id \<times> pigen_rtl_model" where
  "pigen_rtl_type_intern model descriptor =
     (if rtl_type_rejected model descriptor then (PIGEN_INVALID_ID, model)
      else case first_index (rtl_type_matches descriptor) (rtl_types model) of
        Some i \<Rightarrow> (u32 i, model)
      | None \<Rightarrow> (u32 (length (rtl_types model)), model\<lparr>rtl_types := rtl_types model @ [descriptor]\<rparr>))"

text \<open>The constructor of the earlier stage: every member but the origin is zero.\<close>

definition pigen_rtl_type_add :: "pigen_rtl_model \<Rightarrow> pigen_source_span \<Rightarrow> (id \<times> pigen_rtl_model) outcome" where
  "pigen_rtl_type_add model origin =
     (if length (rtl_types model) = PIGEN_INVALID_ID then Fail ''too many rtl types''
      else Value (u32 (length (rtl_types model)),
        model\<lparr>rtl_types := rtl_types model @
          [\<lparr>rtl_signedness = PIGEN_SIGN_INVALID, rtl_state_domain = PIGEN_DATA_TYPE_STATE_INVALID, rtl_width = 0,
            rtl_width_expression = 0, rtl_type_origin = origin, rtl_dimensions = []\<rparr>]\<rparr>))"

section \<open>Expressions\<close>

definition blank_expr :: "pigen_rtl_expr_as \<Rightarrow> id \<Rightarrow> pigen_source_span \<Rightarrow> pigen_rtl_expr" where
  "blank_expr kind type1 origin =
     \<lparr>rtl_expr_as = kind, rtl_expr_type = type1, rtl_expr_origin = origin, rtl_expr_value = 0,
      literal_words = [], literal_bit_count = 0, literal_negative = False, rtl_expr_object = 0,
      rtl_first_child = 0, rtl_child_count = 0\<rparr>"

definition pigen_rtl_expr_add :: "pigen_rtl_model \<Rightarrow> pigen_source_span \<Rightarrow> (id \<times> pigen_rtl_model) outcome" where
  "pigen_rtl_expr_add model origin =
     (if length (rtl_expressions model) = PIGEN_INVALID_ID then Fail ''too many rtl expressions''
      else Value (u32 (length (rtl_expressions model)),
        model\<lparr>rtl_expressions := rtl_expressions model @ [blank_expr PIGEN_RTL_EXPR_INVALID 0 origin]\<rparr>))"

text \<open>\<open>sizeof\<close> of an identity is 4 bytes.\<close>

definition expr_append :: "pigen_rtl_model \<Rightarrow> pigen_rtl_expr \<Rightarrow> id list \<Rightarrow> id \<times> pigen_rtl_model" where
  "expr_append model node children =
     (if pigen_rtl_type_get model (rtl_expr_type node) = None \<or>
         length children > SIZE_MAX div 4 - length (rtl_expression_children model) \<or>
         length (rtl_expressions model) = PIGEN_INVALID_ID \<or>
         (\<exists>c \<in> set children. pigen_rtl_expr_get model c = None)
      then (PIGEN_INVALID_ID, model)
      else (u32 (length (rtl_expressions model)),
        model\<lparr>rtl_expressions := rtl_expressions model @
            [node\<lparr>rtl_first_child := length (rtl_expression_children model), rtl_child_count := length children\<rparr>],
          rtl_expression_children := rtl_expression_children model @ children\<rparr>))"

definition expr_add_children ::
    "pigen_rtl_model \<Rightarrow> pigen_rtl_expr_as \<Rightarrow> id \<Rightarrow> pigen_source_span \<Rightarrow> id list \<Rightarrow> id \<times> pigen_rtl_model" where
  "expr_add_children model kind type1 origin children =
     expr_append model (blank_expr kind type1 origin) children"

text \<open>Whether the word at position \<open>i\<close> of a literal of \<open>bit_count\<close> bits is refused.\<close>

definition literal_word_rejected ::
    "pigen_rtl_type \<Rightarrow> pigen_rtl_expr_as \<Rightarrow> nat \<Rightarrow> nat \<Rightarrow> nat \<Rightarrow> pigen_rtl_literal_word \<Rightarrow> bool" where
  "literal_word_rejected descriptor kind bit_count count i w =
     (let masks = x_mask w OR z_mask w
      in x_mask w AND z_mask w \<noteq> 0 \<or> word_value w AND masks \<noteq> 0 \<or>
         (masks \<noteq> 0 \<and> (kind = PIGEN_RTL_EXPR_INTEGER \<or> rtl_state_domain descriptor \<noteq> PIGEN_DATA_TYPE_STATE_FOUR)) \<or>
         (i = count - 1 \<and> bit_count mod 64 \<noteq> 0 \<and> drop_bit (bit_count mod 64) (word_value w OR masks) \<noteq> 0))"

text \<open>
  The words are given as an array of at least the needed length; \<open>sizeof\<close> of a word is 24 bytes.
\<close>

definition pigen_rtl_expr_add_literal ::
    "pigen_rtl_model \<Rightarrow> pigen_rtl_expr_as \<Rightarrow> id \<Rightarrow> pigen_rtl_literal_word list \<Rightarrow> nat \<Rightarrow> bool \<Rightarrow>
     pigen_source_span \<Rightarrow> id \<times> pigen_rtl_model" where
  "pigen_rtl_expr_add_literal model kind type1 words bit_count neg origin =
     (let count = bit_count div 64 + (if bit_count mod 64 \<noteq> 0 then 1 else 0)
      in case pigen_rtl_type_get model type1 of
           None \<Rightarrow> (PIGEN_INVALID_ID, model)
         | Some descriptor \<Rightarrow>
             if bit_count = 0 \<or> (kind \<noteq> PIGEN_RTL_EXPR_INTEGER \<and> kind \<noteq> PIGEN_RTL_EXPR_BITS) \<or>
                (kind = PIGEN_RTL_EXPR_BITS \<and> neg) \<or> count > SIZE_MAX div 24 \<or>
                (\<exists>i < count. literal_word_rejected descriptor kind bit_count count i (words ! i))
             then (PIGEN_INVALID_ID, model)
             else expr_append model
               ((blank_expr kind type1 origin)\<lparr>rtl_expr_value := word_value (words ! 0),
                  literal_words := take count words, literal_bit_count := bit_count, literal_negative := neg\<rparr>) [])"

definition pigen_rtl_expr_add_integer ::
    "pigen_rtl_model \<Rightarrow> id \<Rightarrow> u64 \<Rightarrow> pigen_source_span \<Rightarrow> id \<times> pigen_rtl_model" where
  "pigen_rtl_expr_add_integer model type1 v origin =
     pigen_rtl_expr_add_literal model PIGEN_RTL_EXPR_INTEGER type1
       [\<lparr>word_value = v, x_mask = 0, z_mask = 0\<rparr>] 64 False origin"

definition pigen_rtl_expr_add_bits ::
    "pigen_rtl_model \<Rightarrow> id \<Rightarrow> u64 \<Rightarrow> pigen_source_span \<Rightarrow> id \<times> pigen_rtl_model" where
  "pigen_rtl_expr_add_bits model type1 v origin =
     pigen_rtl_expr_add_literal model PIGEN_RTL_EXPR_BITS type1
       [\<lparr>word_value = v, x_mask = 0, z_mask = 0\<rparr>] 64 False origin"

definition pigen_rtl_expr_add_object ::
    "pigen_rtl_model \<Rightarrow> id \<Rightarrow> id \<Rightarrow> pigen_source_span \<Rightarrow> id \<times> pigen_rtl_model" where
  "pigen_rtl_expr_add_object model type1 obj origin =
     (if pigen_rtl_object_get model obj = None then (PIGEN_INVALID_ID, model)
      else expr_append model ((blank_expr PIGEN_RTL_EXPR_OBJECT type1 origin)\<lparr>rtl_expr_object := obj\<rparr>) [])"

definition pigen_rtl_expr_add_unary ::
    "pigen_rtl_model \<Rightarrow> id \<Rightarrow> pigen_unary_resolution \<Rightarrow> id \<Rightarrow> pigen_source_span \<Rightarrow> id \<times> pigen_rtl_model" where
  "pigen_rtl_expr_add_unary model type1 resolution operand origin =
     expr_append model (blank_expr (PIGEN_RTL_EXPR_UNARY resolution) type1 origin) [operand]"

definition pigen_rtl_expr_add_binary ::
    "pigen_rtl_model \<Rightarrow> id \<Rightarrow> pigen_binary_resolution \<Rightarrow> id \<Rightarrow> id \<Rightarrow> pigen_source_span \<Rightarrow> id \<times> pigen_rtl_model" where
  "pigen_rtl_expr_add_binary model type1 resolution left right origin =
     expr_append model (blank_expr (PIGEN_RTL_EXPR_BINARY resolution) type1 origin) [left, right]"

definition pigen_rtl_expr_add_conditional ::
    "pigen_rtl_model \<Rightarrow> id \<Rightarrow> pigen_conditional_resolution \<Rightarrow> id \<Rightarrow> id \<Rightarrow> id \<Rightarrow> pigen_source_span \<Rightarrow>
     id \<times> pigen_rtl_model" where
  "pigen_rtl_expr_add_conditional model type1 resolution condition when_true when_false origin =
     expr_append model (blank_expr (PIGEN_RTL_EXPR_CONDITIONAL resolution) type1 origin)
       [condition, when_true, when_false]"

definition pigen_rtl_expr_add_conversion ::
    "pigen_rtl_model \<Rightarrow> id \<Rightarrow> pigen_conversion \<Rightarrow> id \<Rightarrow> pigen_source_span \<Rightarrow> id \<times> pigen_rtl_model" where
  "pigen_rtl_expr_add_conversion model type1 conversion operand origin =
     (if conversion_kind conversion = PIGEN_CONVERSION_INVALID then (PIGEN_INVALID_ID, model)
      else expr_append model (blank_expr (PIGEN_RTL_EXPR_CONVERSION conversion) type1 origin) [operand])"

definition pigen_rtl_expr_add_index ::
    "pigen_rtl_model \<Rightarrow> id \<Rightarrow> id \<Rightarrow> id \<Rightarrow> pigen_source_span \<Rightarrow> id \<times> pigen_rtl_model" where
  "pigen_rtl_expr_add_index model type1 base index origin =
     expr_add_children model PIGEN_RTL_EXPR_INDEX type1 origin [base, index]"

definition pigen_rtl_expr_add_select ::
    "pigen_rtl_model \<Rightarrow> id \<Rightarrow> id \<Rightarrow> id \<Rightarrow> id \<Rightarrow> pigen_select_kind \<Rightarrow> pigen_source_span \<Rightarrow>
     id \<times> pigen_rtl_model" where
  "pigen_rtl_expr_add_select model type1 base left right kind origin =
     expr_append model (blank_expr (PIGEN_RTL_EXPR_SELECT kind) type1 origin) [base, left, right]"

definition pigen_rtl_expr_add_concatenation ::
    "pigen_rtl_model \<Rightarrow> id \<Rightarrow> id list \<Rightarrow> pigen_source_span \<Rightarrow> id \<times> pigen_rtl_model" where
  "pigen_rtl_expr_add_concatenation model type1 children origin =
     expr_add_children model PIGEN_RTL_EXPR_CONCATENATION type1 origin children"

section \<open>The constructors that only take an origin\<close>

text \<open>
  Except for modules they set nothing but the origin of a slot of fresh memory, which is the argument
  \<open>slot\<close>.
\<close>

definition pigen_rtl_object_add ::
    "pigen_rtl_object \<Rightarrow> pigen_rtl_model \<Rightarrow> pigen_source_span \<Rightarrow> (id \<times> pigen_rtl_model) outcome" where
  "pigen_rtl_object_add slot model origin =
     (if length (rtl_objects model) = PIGEN_INVALID_ID then Fail ''too many rtl objects''
      else Value (u32 (length (rtl_objects model)),
        model\<lparr>rtl_objects := rtl_objects model @ [slot\<lparr>object_origin := origin\<rparr>]\<rparr>))"

definition pigen_rtl_instance_add ::
    "pigen_rtl_instance \<Rightarrow> pigen_rtl_model \<Rightarrow> pigen_source_span \<Rightarrow> (id \<times> pigen_rtl_model) outcome" where
  "pigen_rtl_instance_add slot model origin =
     (if length (rtl_instances model) = PIGEN_INVALID_ID then Fail ''too many rtl instances''
      else Value (u32 (length (rtl_instances model)),
        model\<lparr>rtl_instances := rtl_instances model @ [slot\<lparr>instance_origin := origin\<rparr>]\<rparr>))"

definition pigen_rtl_equation_add ::
    "pigen_rtl_equation \<Rightarrow> pigen_rtl_model \<Rightarrow> pigen_source_span \<Rightarrow> (id \<times> pigen_rtl_model) outcome" where
  "pigen_rtl_equation_add slot model origin =
     (if length (rtl_equations model) = PIGEN_INVALID_ID then Fail ''too many rtl equations''
      else Value (u32 (length (rtl_equations model)),
        model\<lparr>rtl_equations := rtl_equations model @ [slot\<lparr>equation_origin := origin\<rparr>]\<rparr>))"

definition pigen_rtl_update_add ::
    "pigen_rtl_update \<Rightarrow> pigen_rtl_model \<Rightarrow> pigen_source_span \<Rightarrow> (id \<times> pigen_rtl_model) outcome" where
  "pigen_rtl_update_add slot model origin =
     (if length (rtl_updates model) = PIGEN_INVALID_ID then Fail ''too many rtl updates''
      else Value (u32 (length (rtl_updates model)),
        model\<lparr>rtl_updates := rtl_updates model @ [slot\<lparr>update_origin := origin\<rparr>]\<rparr>))"

definition pigen_rtl_process_add ::
    "pigen_rtl_process \<Rightarrow> pigen_rtl_model \<Rightarrow> pigen_source_span \<Rightarrow> (id \<times> pigen_rtl_model) outcome" where
  "pigen_rtl_process_add slot model origin =
     (if length (rtl_processes model) = PIGEN_INVALID_ID then Fail ''too many rtl processes''
      else Value (u32 (length (rtl_processes model)),
        model\<lparr>rtl_processes := rtl_processes model @ [slot\<lparr>rtl_process_origin := origin\<rparr>]\<rparr>))"

definition no_range :: pigen_rtl_record_range where
  "no_range = \<lparr>range_first = 0, range_count = 0\<rparr>"

definition pigen_rtl_module_add :: "pigen_rtl_model \<Rightarrow> pigen_source_span \<Rightarrow> (id \<times> pigen_rtl_model) outcome" where
  "pigen_rtl_module_add model origin =
     (if length (rtl_modules model) = PIGEN_INVALID_ID then Fail ''too many rtl modules''
      else Value (u32 (length (rtl_modules model)),
        model\<lparr>rtl_modules := rtl_modules model @
          [\<lparr>rtl_module_origin = origin, rtl_semantic_module = 0, module_objects = no_range,
            module_instances = no_range, module_equations = no_range, module_processes = no_range\<rparr>]\<rparr>))"

section \<open>The constructors with an owner\<close>

definition pigen_rtl_module_add_with_owner ::
    "pigen_rtl_model \<Rightarrow> id \<Rightarrow> pigen_source_span \<Rightarrow> id \<times> pigen_rtl_model" where
  "pigen_rtl_module_add_with_owner model semantic_module sp =
     (if semantic_module = PIGEN_INVALID_ID \<or> length (rtl_modules model) = PIGEN_INVALID_ID
      then (PIGEN_INVALID_ID, model)
      else (u32 (length (rtl_modules model)),
        model\<lparr>rtl_modules := rtl_modules model @
          [\<lparr>rtl_module_origin = sp, rtl_semantic_module = semantic_module,
            module_objects = \<lparr>range_first = length (rtl_objects model), range_count = 0\<rparr>,
            module_instances = \<lparr>range_first = length (rtl_instances model), range_count = 0\<rparr>,
            module_equations = \<lparr>range_first = length (rtl_equations model), range_count = 0\<rparr>,
            module_processes = \<lparr>range_first = length (rtl_processes model), range_count = 0\<rparr>\<rparr>]\<rparr>))"

text \<open>Whether the range ends where the arena ends, so that one more record extends it.\<close>

definition range_open :: "pigen_rtl_record_range \<Rightarrow> nat \<Rightarrow> bool" where
  "range_open r count \<longleftrightarrow> size_wrap (range_first r + range_count r) = count"

definition grow_range :: "pigen_rtl_record_range \<Rightarrow> pigen_rtl_record_range" where
  "grow_range r = r\<lparr>range_count := range_count r + 1\<rparr>"

definition pigen_rtl_object_add_with_owner ::
    "pigen_rtl_model \<Rightarrow> id \<Rightarrow> pigen_rtl_object_kind \<Rightarrow> id \<Rightarrow> pigen_semantic_direction \<Rightarrow> id \<Rightarrow>
     pigen_source_span \<Rightarrow> id \<times> pigen_rtl_model" where
  "pigen_rtl_object_add_with_owner model module1 kind type1 direction semantic_signal sp =
     (if pigen_rtl_type_get model type1 = None \<or> kind = PIGEN_RTL_OBJECT_KIND_INVALID \<or>
         length (rtl_objects model) = PIGEN_INVALID_ID
      then (PIGEN_INVALID_ID, model)
      else case pigen_rtl_module_get model module1 of
        None \<Rightarrow> (PIGEN_INVALID_ID, model)
      | Some owner \<Rightarrow>
          if \<not> range_open (module_objects owner) (length (rtl_objects model)) then (PIGEN_INVALID_ID, model)
          else (u32 (length (rtl_objects model)),
            model\<lparr>rtl_objects := rtl_objects model @
                [\<lparr>object_origin = sp, object_kind = kind, object_type = type1, object_direction = direction,
                  object_semantic_signal = semantic_signal, object_module = module1\<rparr>],
              rtl_modules := (rtl_modules model)[module1 := owner\<lparr>module_objects := grow_range (module_objects owner)\<rparr>]\<rparr>))"

definition pigen_rtl_equation_add_with_owner ::
    "pigen_rtl_model \<Rightarrow> id \<Rightarrow> id \<Rightarrow> id \<Rightarrow> pigen_source_span \<Rightarrow> id \<times> pigen_rtl_model" where
  "pigen_rtl_equation_add_with_owner model module1 destination val sp =
     (if pigen_rtl_expr_get model val = None \<or> length (rtl_equations model) = PIGEN_INVALID_ID
      then (PIGEN_INVALID_ID, model)
      else case pigen_rtl_object_get model destination of
        None \<Rightarrow> (PIGEN_INVALID_ID, model)
      | Some dest \<Rightarrow>
          if object_module dest \<noteq> module1 then (PIGEN_INVALID_ID, model)
          else (case pigen_rtl_module_get model module1 of
            None \<Rightarrow> (PIGEN_INVALID_ID, model)
          | Some owner \<Rightarrow>
              if \<not> range_open (module_equations owner) (length (rtl_equations model)) then (PIGEN_INVALID_ID, model)
              else (u32 (length (rtl_equations model)),
                model\<lparr>rtl_equations := rtl_equations model @
                    [\<lparr>equation_origin = sp, equation_destination = destination, equation_value = val,
                      equation_module = module1\<rparr>],
                  rtl_modules := (rtl_modules model)[module1 := owner\<lparr>module_equations := grow_range (module_equations owner)\<rparr>]\<rparr>)))"

definition pigen_rtl_update_add_with_owner ::
    "pigen_rtl_model \<Rightarrow> id \<Rightarrow> id \<Rightarrow> id \<Rightarrow> pigen_source_span \<Rightarrow> id \<times> pigen_rtl_model" where
  "pigen_rtl_update_add_with_owner model module1 destination val sp =
     (if pigen_rtl_expr_get model val = None \<or> length (rtl_updates model) = PIGEN_INVALID_ID
      then (PIGEN_INVALID_ID, model)
      else case pigen_rtl_object_get model destination of
        None \<Rightarrow> (PIGEN_INVALID_ID, model)
      | Some dest \<Rightarrow>
          if object_module dest \<noteq> module1 \<or> pigen_rtl_module_get model module1 = None then (PIGEN_INVALID_ID, model)
          else (u32 (length (rtl_updates model)),
            model\<lparr>rtl_updates := rtl_updates model @
              [\<lparr>update_origin = sp, update_destination = destination, update_value = val,
                update_module = module1\<rparr>]\<rparr>))"

text \<open>The range of updates is the end of the arena; the given identities are only checked.\<close>

definition pigen_rtl_process_add_with_owner ::
    "pigen_rtl_model \<Rightarrow> id \<Rightarrow> id \<Rightarrow> pigen_semantic_edge \<Rightarrow> id list \<Rightarrow> pigen_source_span \<Rightarrow>
     id \<times> pigen_rtl_model" where
  "pigen_rtl_process_add_with_owner model module1 clock_expression edge updates sp =
     (if pigen_rtl_expr_get model clock_expression = None \<or> length (rtl_processes model) = PIGEN_INVALID_ID \<or>
         (\<exists>u \<in> set updates. case pigen_rtl_update_get model u of
            None \<Rightarrow> True | Some known \<Rightarrow> update_module known \<noteq> module1)
      then (PIGEN_INVALID_ID, model)
      else case pigen_rtl_module_get model module1 of
        None \<Rightarrow> (PIGEN_INVALID_ID, model)
      | Some owner \<Rightarrow>
          if \<not> range_open (module_processes owner) (length (rtl_processes model)) then (PIGEN_INVALID_ID, model)
          else (u32 (length (rtl_processes model)),
            model\<lparr>rtl_processes := rtl_processes model @
                [\<lparr>rtl_process_origin = sp, rtl_process_clock = clock_expression, rtl_process_edge = edge,
                  rtl_process_updates = \<lparr>range_first = size_wrap (length (rtl_updates model) + (SIZE_MAX + 1) - length updates),
                    range_count = length updates\<rparr>,
                  rtl_process_module = module1\<rparr>],
              rtl_modules := (rtl_modules model)[module1 := owner\<lparr>module_processes := grow_range (module_processes owner)\<rparr>]\<rparr>))"

text \<open>The range for \<open>additions\<close> new entries of an array with \<open>count\<close> entries, and the new count.\<close>

definition range_append :: "pigen_rtl_record_range \<Rightarrow> nat \<Rightarrow> nat \<Rightarrow> (pigen_rtl_record_range \<times> nat) option" where
  "range_append r count additions =
     (if additions > SIZE_MAX - count \<or>
         count < range_count r \<or> size_wrap (count + (SIZE_MAX + 1) - range_first r) \<noteq> range_count r \<or>
         additions > SIZE_MAX - range_first r - range_count r
      then None else Some (r\<lparr>range_count := range_count r + additions\<rparr>, count + additions))"

text \<open>
  The routine first sets the count of an array and copies the new entries later, or sets the count
  back when it fails in between. \<open>with_count\<close> sets the count: entries that only the count has
  added are not read before they are copied, and stand here as invalid identities. \<open>copied\<close> is the
  copy of the entries to their place.
\<close>

definition with_count :: "nat \<Rightarrow> id list \<Rightarrow> id list" where
  "with_count n entries = take n entries @ replicate (n - length entries) PIGEN_INVALID_ID"

definition copied :: "nat \<Rightarrow> id list \<Rightarrow> id list \<Rightarrow> id list" where
  "copied at values1 entries = take at entries @ values1 @ drop (at + length values1) entries"

lemma with_count_simps [simp]:
  "n = length xs \<Longrightarrow> with_count n xs = xs" "n = length xs \<Longrightarrow> with_count n (with_count (n + k) xs) = xs"
  "n = length xs \<Longrightarrow> copied n ys (with_count (n + length ys) xs) = xs @ ys"
  by (simp_all add: with_count_def copied_def)

lemma copied_nothing [simp]: "copied n [] xs = xs"
  by (simp add: copied_def)

definition pigen_rtl_instance_add_with_owner ::
    "pigen_rtl_model \<Rightarrow> id \<Rightarrow> id \<Rightarrow> id list \<Rightarrow> id list \<Rightarrow> pigen_source_span \<Rightarrow> id \<times> pigen_rtl_model" where
  "pigen_rtl_instance_add_with_owner model module1 semantic_module parameter_values connections sp =
     (if semantic_module = PIGEN_INVALID_ID \<or> length (rtl_instances model) = PIGEN_INVALID_ID
      then (PIGEN_INVALID_ID, model)
      else case pigen_rtl_module_get model module1 of
        None \<Rightarrow> (PIGEN_INVALID_ID, model)
      | Some owner \<Rightarrow>
          if (\<exists>p \<in> set parameter_values. pigen_rtl_expr_get model p = None) \<or>
             (\<exists>c \<in> set connections. case pigen_rtl_object_get model c of
                None \<Rightarrow> True | Some known \<Rightarrow> object_module known \<noteq> module1) \<or>
             \<not> range_open (module_instances owner) (length (rtl_instances model))
          then (PIGEN_INVALID_ID, model)
          else
            let parameter_count = length (rtl_instance_parameters model);
                connection_count = length (rtl_instance_connections model);
                parameter_range = \<lparr>range_first = parameter_count, range_count = 0\<rparr>;
                connection_range = \<lparr>range_first = connection_count, range_count = 0\<rparr>
            in case (if parameter_values = [] then Some (parameter_range, parameter_count)
                  else range_append parameter_range parameter_count (length parameter_values)) of
                 None \<Rightarrow> (PIGEN_INVALID_ID, model)
               | Some (parameter_range1, parameter_count1) \<Rightarrow>
                   let model1 = model\<lparr>rtl_instance_parameters :=
                     with_count parameter_count1 (rtl_instance_parameters model)\<rparr>
                   in (case (if connections = [] then Some (connection_range, connection_count)
                      else range_append connection_range connection_count (length connections)) of
                     None \<Rightarrow>
                       (PIGEN_INVALID_ID, model1\<lparr>rtl_instance_parameters :=
                          with_count (range_first parameter_range1) (rtl_instance_parameters model1)\<rparr>)
                   | Some (connection_range1, connection_count1) \<Rightarrow>
                       (u32 (length (rtl_instances model1)),
                        model1\<lparr>rtl_instance_parameters :=
                            copied (range_first parameter_range1) parameter_values (rtl_instance_parameters model1),
                          rtl_instance_connections :=
                            copied (range_first connection_range1) connections
                              (with_count connection_count1 (rtl_instance_connections model1)),
                          rtl_instances := rtl_instances model1 @
                            [\<lparr>instance_origin = sp, instance_semantic_module = semantic_module,
                              instance_parameters = parameter_range1, instance_connections = connection_range1,
                              instance_module = module1\<rparr>],
                          rtl_modules := (rtl_modules model1)[module1 := owner\<lparr>module_instances := grow_range (module_instances owner)\<rparr>]\<rparr>)))"

end
