(* ===== verification/RtlInvariant.thy ===== *)
theory RtlInvariant
  imports Rtl Interning
begin

text \<open>
  The invariant of the hardware model under the constructors of src/src/rtl.c: references are valid,
  children of an expression are older than it, types are stored once, and the records of each kind
  are partitioned among the modules that own them.
\<close>

section \<open>Ownership\<close>

text \<open>
  \<open>owned ranges owners\<close>: record \<open>i\<close> has owner \<open>owners ! i\<close> exactly when it lies in the range of that
  owner, and no range goes beyond the arena.
\<close>

definition in_range :: "nat \<Rightarrow> pigen_rtl_record_range \<Rightarrow> bool" where
  "in_range i r \<longleftrightarrow> range_first r \<le> i \<and> i < range_first r + range_count r"

definition owned :: "pigen_rtl_record_range list \<Rightarrow> nat list \<Rightarrow> bool" where
  "owned ranges owners \<longleftrightarrow>
     (\<forall>k < length ranges. range_first (ranges ! k) + range_count (ranges ! k) \<le> length owners) \<and>
     (\<forall>i < length owners. owners ! i < length ranges \<and> in_range i (ranges ! (owners ! i))) \<and>
     (\<forall>k < length ranges. \<forall>i. in_range i (ranges ! k) \<longrightarrow> owners ! i = k)"

lemma owned_empty: "owned [] []"
  by (simp add: owned_def)

lemma owned_module: "owned rs os \<Longrightarrow> owned (rs @ [\<lparr>range_first = length os, range_count = 0\<rparr>]) os"
  by (auto simp: owned_def in_range_def nth_append less_Suc_eq)

lemma owned_record:
  assumes own: "owned rs os" and k: "k < length rs" and last: "range_first (rs ! k) + range_count (rs ! k) = length os"
  shows "owned (rs[k := grow_range (rs ! k)]) (os @ [k])"
proof -
  let ?r = "grow_range (rs ! k)"
  have r: "in_range i ?r \<longleftrightarrow> in_range i (rs ! k) \<or> i = length os" for i
    using last by (auto simp: in_range_def grow_range_def)
  have inside: "i < length os" if "j < length rs" "in_range i (rs ! j)" for i j
    using own that unfolding owned_def in_range_def by fastforce
  have owner: "os ! i = j" if "j < length rs" "in_range i (rs ! j)" for i j
    using own that unfolding owned_def by blast
  have bound: "range_first ((rs[k := ?r]) ! j) + range_count ((rs[k := ?r]) ! j) \<le> length (os @ [k])" if "j < length rs" for j
    using own that last by (cases "j = k") (auto simp: owned_def grow_range_def nth_list_update le_SucI)
  moreover have "(os @ [k]) ! i < length rs \<and> in_range i ((rs[k := ?r]) ! ((os @ [k]) ! i))" if "i < Suc (length os)" for i
  proof (cases "i = length os")
    case True
    then show ?thesis using k r [of i] by simp
  next
    case False
    then have i: "i < length os" using that by simp
    then have "os ! i < length rs" "in_range i (rs ! (os ! i))" using own unfolding owned_def by auto
    then show ?thesis using i k r [of i] by (cases "os ! i = k") (simp_all add: nth_append)
  qed
  moreover have "(os @ [k]) ! i = j" if "j < length rs" "in_range i ((rs[k := ?r]) ! j)" for i j
  proof (cases "j = k")
    case True
    then have "in_range i (rs ! k) \<or> i = length os" using that k r by simp
    then show ?thesis
    proof
      assume i: "in_range i (rs ! k)"
      show ?thesis using inside [OF k i] owner [OF k i] True by (simp add: nth_append)
    qed (simp add: True)
  next
    case False
    then have i: "in_range i (rs ! j)" using that by simp
    show ?thesis using inside [OF that(1) i] owner [OF that(1) i] by (simp add: nth_append)
  qed
  ultimately show ?thesis unfolding owned_def by simp
qed

lemma owned_lt: "owned rs os \<Longrightarrow> i < length os \<Longrightarrow> os ! i < length rs"
  by (simp add: owned_def)

section \<open>Types up to their identity\<close>

definition normal_bound :: "pigen_rtl_bound \<Rightarrow> pigen_rtl_bound" where
  "normal_bound b = (if bound_expression b = PIGEN_INVALID_ID then b else b\<lparr>bound_value := 0\<rparr>)"

definition normal_dimension :: "pigen_rtl_packed_dimension \<Rightarrow> pigen_rtl_packed_dimension" where
  "normal_dimension d = \<lparr>packed_left = normal_bound (packed_left d), packed_right = normal_bound (packed_right d)\<rparr>"

definition no_span :: pigen_source_span where
  "no_span = \<lparr>span_source = PIGEN_INVALID_ID, span_start = 0, span_end = 0\<rparr>"

text \<open>What a type says: the origin and the values an expression overrides do not count.\<close>

definition normal_type :: "pigen_rtl_type \<Rightarrow> pigen_rtl_type" where
  "normal_type t = t\<lparr>rtl_width := (if rtl_width_expression t = PIGEN_INVALID_ID then rtl_width t else 0),
     rtl_type_origin := no_span, rtl_dimensions := map normal_dimension (rtl_dimensions t)\<rparr>"

lemma bound_equal_iff: "bound_equal a b \<longleftrightarrow> normal_bound a = normal_bound b"
  by (cases a; cases b) (auto simp: bound_equal_def normal_bound_def)

lemma rtl_dimensions_equal_iff:
  "rtl_dimensions_equal a b \<longleftrightarrow> map normal_dimension (rtl_dimensions a) = map normal_dimension (rtl_dimensions b)"
  by (auto simp: rtl_dimensions_equal_def bound_equal_iff normal_dimension_def list_eq_iff_nth_eq)

lemma rtl_type_matches_iff: "rtl_type_matches d t \<longleftrightarrow> normal_type t = normal_type d"
  by (cases d; cases t) (auto simp: rtl_type_matches_def rtl_dimensions_equal_iff normal_type_def)

lemma normal_idem [simp]: "normal_type (normal_type t) = normal_type t"
proof -
  have "normal_dimension (normal_dimension d) = normal_dimension d" for d
    by (simp add: normal_dimension_def normal_bound_def)
  then show ?thesis by (simp add: normal_type_def comp_def)
qed

lemma bound_valid_normal [simp]: "bound_valid m (normal_bound b) \<longleftrightarrow> bound_valid m b"
  by (simp add: bound_valid_def normal_bound_def)

lemma rejected_normal [simp]: "rtl_type_rejected m (normal_type t) \<longleftrightarrow> rtl_type_rejected m t"
  by (simp add: rtl_type_rejected_def normal_type_def normal_dimension_def)

section \<open>The invariant\<close>

definition rtl_type_ok :: "pigen_rtl_model \<Rightarrow> pigen_rtl_type \<Rightarrow> bool" where
  "rtl_type_ok m t \<longleftrightarrow> \<not> rtl_type_rejected (m\<lparr>rtl_types := []\<rparr>) t"

definition rtl_types_inv :: "pigen_rtl_model \<Rightarrow> bool" where
  "rtl_types_inv m \<longleftrightarrow>
     length (rtl_types m) \<le> PIGEN_INVALID_ID \<and> (\<forall>t \<in> set (rtl_types m). rtl_type_ok m t) \<and>
     (\<forall>i < length (rtl_types m). \<forall>j < length (rtl_types m).
        normal_type (rtl_types m ! i) = normal_type (rtl_types m ! j) \<longrightarrow> i = j)"

definition children_of :: "pigen_rtl_model \<Rightarrow> id \<Rightarrow> id list" where
  "children_of m e = slice (rtl_first_child (rtl_expressions m ! e)) (rtl_child_count (rtl_expressions m ! e))
     (rtl_expression_children m)"

text \<open>What a record of the arena may refer to.\<close>

definition expression_ok :: "pigen_rtl_model \<Rightarrow> id \<Rightarrow> bool" where
  "expression_ok m e \<longleftrightarrow>
     (let x = rtl_expressions m ! e
      in rtl_expr_type x < length (rtl_types m) \<and> rtl_expr_as x \<noteq> PIGEN_RTL_EXPR_INVALID \<and>
         rtl_first_child x + rtl_child_count x \<le> length (rtl_expression_children m) \<and>
         (\<forall>c \<in> set (children_of m e). c < e) \<and>
         (rtl_expr_as x = PIGEN_RTL_EXPR_OBJECT \<longrightarrow> rtl_expr_object x < length (rtl_objects m)))"

text \<open>A driven object belongs to the module of what drives it.\<close>

definition drives :: "pigen_rtl_model \<Rightarrow> id \<Rightarrow> id \<Rightarrow> id \<Rightarrow> bool" where
  "drives m destination val module1 \<longleftrightarrow>
     destination < length (rtl_objects m) \<and> object_module (rtl_objects m ! destination) = module1 \<and>
     val < length (rtl_expressions m)"

definition process_ok :: "pigen_rtl_model \<Rightarrow> pigen_rtl_process \<Rightarrow> bool" where
  "process_ok m x \<longleftrightarrow>
     rtl_process_clock x < length (rtl_expressions m) \<and>
     range_first (rtl_process_updates x) + range_count (rtl_process_updates x) \<le> length (rtl_updates m) \<and>
     (\<forall>u. in_range u (rtl_process_updates x) \<longrightarrow> update_module (rtl_updates m ! u) = rtl_process_module x)"

definition instance_ok :: "pigen_rtl_model \<Rightarrow> pigen_rtl_instance \<Rightarrow> bool" where
  "instance_ok m x \<longleftrightarrow>
     range_first (instance_parameters x) + range_count (instance_parameters x) \<le> length (rtl_instance_parameters m) \<and>
     range_first (instance_connections x) + range_count (instance_connections x) \<le> length (rtl_instance_connections m) \<and>
     (\<forall>p. in_range p (instance_parameters x) \<longrightarrow> rtl_instance_parameters m ! p < length (rtl_expressions m)) \<and>
     (\<forall>c. in_range c (instance_connections x) \<longrightarrow>
        rtl_instance_connections m ! c < length (rtl_objects m) \<and>
        object_module (rtl_objects m ! (rtl_instance_connections m ! c)) = instance_module x)"

definition rtl_expressions_inv :: "pigen_rtl_model \<Rightarrow> bool" where
  "rtl_expressions_inv m \<longleftrightarrow>
     length (rtl_expressions m) \<le> PIGEN_INVALID_ID \<and> (\<forall>e < length (rtl_expressions m). expression_ok m e)"

definition rtl_records_inv :: "pigen_rtl_model \<Rightarrow> bool" where
  "rtl_records_inv m \<longleftrightarrow>
     (\<forall>x \<in> set (rtl_objects m). object_type x < length (rtl_types m)) \<and>
     (\<forall>x \<in> set (rtl_equations m). drives m (equation_destination x) (equation_value x) (equation_module x)) \<and>
     (\<forall>x \<in> set (rtl_updates m). drives m (update_destination x) (update_value x) (update_module x)) \<and>
     (\<forall>x \<in> set (rtl_processes m). rtl_process_clock x < length (rtl_expressions m)) \<and>
     (\<forall>x \<in> set (rtl_instances m). instance_ok m x)"

text \<open>
  That processes hold updates of their own module is no part of the invariant: the constructor does
  not make sure of it.
\<close>

definition rtl_processes_inv :: "pigen_rtl_model \<Rightarrow> bool" where
  "rtl_processes_inv m \<longleftrightarrow> (\<forall>x \<in> set (rtl_processes m). process_ok m x)"

definition rtl_counts_inv :: "pigen_rtl_model \<Rightarrow> bool" where
  "rtl_counts_inv m \<longleftrightarrow>
     length (rtl_objects m) \<le> PIGEN_INVALID_ID \<and> length (rtl_instances m) \<le> PIGEN_INVALID_ID \<and>
     length (rtl_equations m) \<le> PIGEN_INVALID_ID \<and> length (rtl_updates m) \<le> PIGEN_INVALID_ID \<and>
     length (rtl_processes m) \<le> PIGEN_INVALID_ID \<and> length (rtl_modules m) \<le> PIGEN_INVALID_ID"

definition rtl_owners_inv :: "pigen_rtl_model \<Rightarrow> bool" where
  "rtl_owners_inv m \<longleftrightarrow>
     owned (map module_objects (rtl_modules m)) (map object_module (rtl_objects m)) \<and>
     owned (map module_instances (rtl_modules m)) (map instance_module (rtl_instances m)) \<and>
     owned (map module_equations (rtl_modules m)) (map equation_module (rtl_equations m)) \<and>
     owned (map module_processes (rtl_modules m)) (map rtl_process_module (rtl_processes m))"

definition rtl_inv :: "pigen_rtl_model \<Rightarrow> bool" where
  "rtl_inv m \<longleftrightarrow> rtl_types_inv m \<and> rtl_expressions_inv m \<and> rtl_records_inv m \<and> rtl_counts_inv m \<and> rtl_owners_inv m"

lemmas rtl_inv_defs = rtl_inv_def rtl_types_inv_def rtl_expressions_inv_def rtl_records_inv_def
  rtl_counts_inv_def rtl_owners_inv_def

lemma empty_inv: "rtl_inv pigen_free_rtl_model"
  by (simp add: rtl_inv_defs pigen_free_rtl_model_def owned_empty)

lemma rtl_get_lt: "arena_get xs i = Some x \<Longrightarrow> i < length xs \<and> x = xs ! i"
  by (auto simp: arena_get_def split: if_splits)

section \<open>Growth\<close>

text \<open>The arenas other records refer to only grow at their ends.\<close>

definition rtl_extends :: "pigen_rtl_model \<Rightarrow> pigen_rtl_model \<Rightarrow> bool" where
  "rtl_extends m m' \<longleftrightarrow>
     (\<exists>xs. rtl_types m' = rtl_types m @ xs) \<and> (\<exists>xs. rtl_expressions m' = rtl_expressions m @ xs) \<and>
     (\<exists>xs. rtl_expression_children m' = rtl_expression_children m @ xs) \<and>
     (\<exists>xs. rtl_objects m' = rtl_objects m @ xs) \<and> (\<exists>xs. rtl_updates m' = rtl_updates m @ xs) \<and>
     (\<exists>xs. rtl_instance_parameters m' = rtl_instance_parameters m @ xs) \<and>
     (\<exists>xs. rtl_instance_connections m' = rtl_instance_connections m @ xs)"

lemma drives_extends: "drives m d v k \<Longrightarrow> rtl_extends m m' \<Longrightarrow> drives m' d v k"
  by (auto simp: drives_def rtl_extends_def nth_append)

lemma expression_ok_extends:
  assumes ok: "expression_ok m e" and e: "e < length (rtl_expressions m)" and ext: "rtl_extends m m'"
  shows "expression_ok m' e"
proof -
  have x: "rtl_expressions m' ! e = rtl_expressions m ! e"
    using e ext by (auto simp: rtl_extends_def nth_append)
  then have "children_of m' e = children_of m e"
    using ok ext by (auto simp: children_of_def expression_ok_def rtl_extends_def Let_def)
  moreover have "length (rtl_types m) \<le> length (rtl_types m')" "length (rtl_objects m) \<le> length (rtl_objects m')"
    "length (rtl_expression_children m) \<le> length (rtl_expression_children m')"
    using ext by (auto simp: rtl_extends_def)
  ultimately show ?thesis using ok x by (auto simp: expression_ok_def Let_def)
qed

lemma process_ok_extends:
  assumes ok: "process_ok m x" and ext: "rtl_extends m m'"
  shows "process_ok m' x"
proof -
  have "rtl_updates m' ! u = rtl_updates m ! u" if "in_range u (rtl_process_updates x)" for u
    using that ok ext by (auto simp: process_ok_def rtl_extends_def in_range_def nth_append)
  then show ?thesis using ok ext by (auto simp: process_ok_def rtl_extends_def)
qed

lemma instance_ok_extends:
  assumes ok: "instance_ok m x" and ext: "rtl_extends m m'"
  shows "instance_ok m' x"
proof -
  have "rtl_instance_parameters m' ! p = rtl_instance_parameters m ! p" if "in_range p (instance_parameters x)" for p
    using that ok ext by (auto simp: instance_ok_def rtl_extends_def in_range_def nth_append)
  moreover have "rtl_instance_connections m' ! c = rtl_instance_connections m ! c \<and>
      rtl_objects m' ! (rtl_instance_connections m ! c) = rtl_objects m ! (rtl_instance_connections m ! c)"
    if "in_range c (instance_connections x)" for c
    using that ok ext by (auto simp: instance_ok_def rtl_extends_def in_range_def nth_append)
  ultimately show ?thesis using ok ext by (auto simp: instance_ok_def rtl_extends_def)
qed

lemma bound_valid_extends:
  assumes "bound_valid m b" and "rtl_extends m m'"
  shows "bound_valid m' b"
proof -
  have "pigen_rtl_expr_get m' i = Some x" if "pigen_rtl_expr_get m i = Some x" for i x
    using that assms(2)
    by (auto simp: pigen_rtl_expr_get_def rtl_extends_def arena_get_def nth_append split: if_splits)
  with assms(1) show ?thesis by (fastforce simp: bound_valid_def split: option.splits)
qed

lemma bound_valid_types [simp]: "bound_valid (m\<lparr>rtl_types := ts\<rparr>) b \<longleftrightarrow> bound_valid m b"
  by (simp add: bound_valid_def pigen_rtl_expr_get_def)

lemma type_ok_extends: "rtl_type_ok m t \<Longrightarrow> rtl_extends m m' \<Longrightarrow> rtl_type_ok m' t"
  using bound_valid_extends [of m _ m'] by (auto simp: rtl_type_ok_def rtl_type_rejected_def)

lemma rtl_type_rejected_iff: "rtl_type_rejected m t \<longleftrightarrow> length (rtl_types m) = PIGEN_INVALID_ID \<or> \<not> rtl_type_ok m t"
  by (auto simp: rtl_type_ok_def rtl_type_rejected_def PIGEN_INVALID_ID_def)

text \<open>What is left to show after a step that adds records.\<close>

lemma rtl_records_extend:
  assumes "rtl_records_inv m" and "rtl_extends m m'"
    and "\<forall>x \<in> set (rtl_objects m') - set (rtl_objects m). object_type x < length (rtl_types m')"
    and "\<forall>x \<in> set (rtl_equations m') - set (rtl_equations m).
      drives m' (equation_destination x) (equation_value x) (equation_module x)"
    and "\<forall>x \<in> set (rtl_updates m') - set (rtl_updates m).
      drives m' (update_destination x) (update_value x) (update_module x)"
    and "\<forall>x \<in> set (rtl_processes m') - set (rtl_processes m). rtl_process_clock x < length (rtl_expressions m')"
    and "\<forall>x \<in> set (rtl_instances m') - set (rtl_instances m). instance_ok m' x"
  shows "rtl_records_inv m'"
proof -
  have "length (rtl_types m) \<le> length (rtl_types m')" using assms(2) by (auto simp: rtl_extends_def)
  then have "object_type x < length (rtl_types m')" if "x \<in> set (rtl_objects m')" for x
    using that assms(1,3) by (cases "x \<in> set (rtl_objects m)") (auto simp: rtl_records_inv_def)
  moreover have "drives m' (equation_destination x) (equation_value x) (equation_module x)"
    if "x \<in> set (rtl_equations m')" for x
    using that assms(1,4) drives_extends [OF _ assms(2)]
    by (cases "x \<in> set (rtl_equations m)") (auto simp: rtl_records_inv_def)
  moreover have "drives m' (update_destination x) (update_value x) (update_module x)"
    if "x \<in> set (rtl_updates m')" for x
    using that assms(1,5) drives_extends [OF _ assms(2)]
    by (cases "x \<in> set (rtl_updates m)") (auto simp: rtl_records_inv_def)
  moreover have "length (rtl_expressions m) \<le> length (rtl_expressions m')" using assms(2) by (auto simp: rtl_extends_def)
  then have "rtl_process_clock x < length (rtl_expressions m')" if "x \<in> set (rtl_processes m')" for x
    using that assms(1,6)
    by (cases "x \<in> set (rtl_processes m)") (auto simp: rtl_records_inv_def)
  moreover have "instance_ok m' x" if "x \<in> set (rtl_instances m')" for x
    using that assms(1,7) instance_ok_extends [OF _ assms(2)]
    by (cases "x \<in> set (rtl_instances m)") (auto simp: rtl_records_inv_def)
  ultimately show ?thesis by (simp add: rtl_records_inv_def)
qed

lemma rtl_processes_keep:
  "rtl_processes_inv m \<Longrightarrow> rtl_extends m m' \<Longrightarrow> rtl_processes m' = rtl_processes m \<Longrightarrow> rtl_processes_inv m'"
  using process_ok_extends by (auto simp: rtl_processes_inv_def)

lemma rtl_types_keep:
  "rtl_types_inv m \<Longrightarrow> rtl_extends m m' \<Longrightarrow> rtl_types m' = rtl_types m \<Longrightarrow> rtl_types_inv m'"
  using type_ok_extends by (auto simp: rtl_types_inv_def)

lemma rtl_expressions_keep:
  "rtl_expressions_inv m \<Longrightarrow> rtl_extends m m' \<Longrightarrow> rtl_expressions m' = rtl_expressions m \<Longrightarrow> rtl_expressions_inv m'"
  using expression_ok_extends by (auto simp: rtl_expressions_inv_def)

section \<open>Interning types\<close>

lemma rtl_type_intern:
  assumes inv: "rtl_types_inv m" and run: "pigen_rtl_type_intern m t = (i, m')"
  shows "i = PIGEN_INVALID_ID \<and> m' = m \<and> (length (rtl_types m) = PIGEN_INVALID_ID \<or> \<not> rtl_type_ok m t) \<or>
    rtl_type_ok m t \<and> length (rtl_types m) < PIGEN_INVALID_ID \<and>
      (i < length (rtl_types m) \<and> normal_type (rtl_types m ! i) = normal_type t \<and> m' = m \<or>
       i = length (rtl_types m) \<and> (\<forall>j < length (rtl_types m). normal_type (rtl_types m ! j) \<noteq> normal_type t) \<and>
       m' = m\<lparr>rtl_types := rtl_types m @ [t]\<rparr>)"
proof (cases "rtl_type_rejected m t")
  case True
  then show ?thesis using run by (simp add: pigen_rtl_type_intern_def rtl_type_rejected_iff)
next
  case False
  then have ok: "rtl_type_ok m t" and n: "length (rtl_types m) < PIGEN_INVALID_ID"
    using inv by (auto simp: rtl_type_rejected_iff rtl_types_inv_def)
  show ?thesis
  proof (cases "first_index (rtl_type_matches t) (rtl_types m)")
    case None
    then have "\<forall>j < length (rtl_types m). normal_type (rtl_types m ! j) \<noteq> normal_type t"
      using nth_mem unfolding first_index_None rtl_type_matches_iff by blast
    then show ?thesis using run False None ok n by (simp add: pigen_rtl_type_intern_def)
  next
    case (Some k)
    then have k: "k < length (rtl_types m)" "normal_type (rtl_types m ! k) = normal_type t"
      using first_index_Some [OF Some] by (auto simp: rtl_type_matches_iff)
    then show ?thesis using run False Some ok n by (simp add: pigen_rtl_type_intern_def)
  qed
qed

lemma rtl_type_added:
  assumes inv: "rtl_types_inv m" and ok: "rtl_type_ok m t" and n: "length (rtl_types m) < PIGEN_INVALID_ID"
    and new: "\<forall>j < length (rtl_types m). normal_type (rtl_types m ! j) \<noteq> normal_type t"
  shows "rtl_types_inv (m\<lparr>rtl_types := rtl_types m @ [t]\<rparr>)"
proof -
  let ?n = "length (rtl_types m)" and ?ts = "rtl_types m @ [t]"
  have keep: "rtl_type_ok (m\<lparr>rtl_types := ts\<rparr>) u = rtl_type_ok m u" for u ts
    by (simp add: rtl_type_ok_def)
  have "i = j" if ij: "i < Suc ?n" "j < Suc ?n" "normal_type (?ts ! i) = normal_type (?ts ! j)" for i j
  proof -
    have old: "i = j" if "i < ?n" "j < ?n" "normal_type (rtl_types m ! i) = normal_type (rtl_types m ! j)"
      using inv that unfolding rtl_types_inv_def by blast
    show ?thesis using ij old new by (cases "i < ?n"; cases "j < ?n") (auto simp: nth_append less_Suc_eq)
  qed
  then show ?thesis using inv ok n by (auto simp: rtl_types_inv_def keep)
qed

interpretation hardware_types: interning rtl_types_inv "\<lambda>m. length (rtl_types m)"
  "\<lambda>m i. normal_type (rtl_types m ! i)" "\<lambda>m v. normal_type v = v"
  "\<lambda>m. length (rtl_types m) < PIGEN_INVALID_ID" pigen_rtl_type_intern
proof unfold_locales
  show "length (rtl_types m) \<le> PIGEN_INVALID_ID" if "rtl_types_inv m" for m
    using that by (simp add: rtl_types_inv_def)
  show "i = j" if "rtl_types_inv m" "i < length (rtl_types m)" "j < length (rtl_types m)"
    "normal_type (rtl_types m ! i) = normal_type (rtl_types m ! j)" for m i j
    using that unfolding rtl_types_inv_def by blast
  fix m v i m'
  assume inv: "rtl_types_inv m" and v: "normal_type v = v" and run: "pigen_rtl_type_intern m v = (i, m')"
  note r = rtl_type_intern [OF inv run]
  show "rtl_types_inv m'" using r inv rtl_type_added [OF inv] by auto
  show "i < length (rtl_types m') \<and> normal_type (rtl_types m' ! i) = v" if "i \<noteq> PIGEN_INVALID_ID"
    using r that v by auto
  show "length (rtl_types m) \<le> length (rtl_types m') \<and>
      (\<forall>j < length (rtl_types m). normal_type (rtl_types m' ! j) = normal_type (rtl_types m ! j))"
    using r by (auto simp: nth_append)
next
  fix m i
  assume inv: "rtl_types_inv m" and n: "length (rtl_types m) < PIGEN_INVALID_ID" and i: "i < length (rtl_types m)"
  let ?v = "normal_type (rtl_types m ! i)"
  obtain k m' where run: "pigen_rtl_type_intern m ?v = (k, m')" by fastforce
  have "rtl_type_ok m ?v" using inv i by (simp add: rtl_types_inv_def rtl_type_ok_def)
  then have "k < length (rtl_types m) \<and> normal_type (rtl_types m ! k) = ?v \<and> m' = m"
    using rtl_type_intern [OF inv run] n i by auto
  moreover from this have "k = i" using inv i unfolding rtl_types_inv_def by blast
  ultimately show "pigen_rtl_type_intern m ?v = (i, m)" using run by simp
qed

section \<open>Preservation\<close>

lemma type_intern_inv:
  assumes inv: "rtl_inv m" and run: "pigen_rtl_type_intern m t = (i, m')"
  shows "rtl_inv m'"
proof -
  have types: "rtl_types_inv m" using inv by (simp add: rtl_inv_def)
  show ?thesis
  proof (cases "m' = m")
    case True
    with inv show ?thesis by simp
  next
    case False
    with rtl_type_intern [OF types run] rtl_type_added [OF types]
    have m': "m' = m\<lparr>rtl_types := rtl_types m @ [t]\<rparr>" and t: "rtl_types_inv m'" by auto
    have ext: "rtl_extends m m'" by (simp add: rtl_extends_def m')
    have "rtl_records_inv m'"
      by (rule rtl_records_extend [OF _ ext]) (use inv in \<open>simp_all add: rtl_inv_def m'\<close>)
    moreover have "rtl_expressions_inv m'"
      by (rule rtl_expressions_keep [OF _ ext]) (use inv in \<open>simp_all add: rtl_inv_def m'\<close>)
    ultimately show ?thesis using inv t by (simp add: rtl_inv_def rtl_counts_inv_def rtl_owners_inv_def m')
  qed
qed

lemma expr_append_inv:
  assumes inv: "rtl_inv m" and run: "expr_append m node cs = (i, m')"
    and kind: "rtl_expr_as node \<noteq> PIGEN_RTL_EXPR_INVALID"
    and obj: "rtl_expr_as node = PIGEN_RTL_EXPR_OBJECT \<Longrightarrow> rtl_expr_object node < length (rtl_objects m)"
  shows "rtl_inv m'"
proof (cases "m' = m")
  case True
  with inv show ?thesis by simp
next
  case False
  let ?n = "length (rtl_expressions m)"
    and ?x = "node\<lparr>rtl_first_child := length (rtl_expression_children m), rtl_child_count := length cs\<rparr>"
  have m': "m' = m\<lparr>rtl_expressions := rtl_expressions m @ [?x],
        rtl_expression_children := rtl_expression_children m @ cs\<rparr>"
    and t: "rtl_expr_type node < length (rtl_types m)" and n: "?n \<noteq> PIGEN_INVALID_ID"
    and cs: "\<And>c. c \<in> set cs \<Longrightarrow> c < ?n"
    using run False
    by (auto simp: expr_append_def pigen_rtl_type_get_def pigen_rtl_expr_get_def arena_get_def split: if_splits)
  have ext: "rtl_extends m m'" by (simp add: rtl_extends_def m')
  have "expression_ok m' ?n"
    using t kind obj cs by (simp add: expression_ok_def children_of_def m')
  moreover have "expression_ok m' e" if "e < ?n" for e
    using expression_ok_extends [OF _ that ext] inv that by (simp add: rtl_inv_def rtl_expressions_inv_def)
  ultimately have "rtl_expressions_inv m'"
    using n inv by (auto simp: rtl_expressions_inv_def rtl_inv_def less_Suc_eq m')
  moreover have "rtl_records_inv m'"
    by (rule rtl_records_extend [OF _ ext]) (use inv in \<open>simp_all add: rtl_inv_def m'\<close>)
  moreover have "rtl_types_inv m'"
    by (rule rtl_types_keep [OF _ ext]) (use inv in \<open>simp_all add: rtl_inv_def m'\<close>)
  ultimately show ?thesis using inv by (simp add: rtl_inv_def rtl_counts_inv_def rtl_owners_inv_def m')
qed

lemma module_add_owner_inv:
  assumes inv: "rtl_inv m" and run: "pigen_rtl_module_add_with_owner m sm sp = (i, m')"
  shows "rtl_inv m'"
proof (cases "m' = m")
  case True
  with inv show ?thesis by simp
next
  case False
  then have m': "\<exists>k. m' = m\<lparr>rtl_modules := rtl_modules m @ [k]\<rparr> \<and>
        module_objects k = \<lparr>range_first = length (rtl_objects m), range_count = 0\<rparr> \<and>
        module_instances k = \<lparr>range_first = length (rtl_instances m), range_count = 0\<rparr> \<and>
        module_equations k = \<lparr>range_first = length (rtl_equations m), range_count = 0\<rparr> \<and>
        module_processes k = \<lparr>range_first = length (rtl_processes m), range_count = 0\<rparr>"
    and n: "length (rtl_modules m) \<noteq> PIGEN_INVALID_ID"
    using run by (auto simp: pigen_rtl_module_add_with_owner_def split: if_splits)
  from m' have ext: "rtl_extends m m'" by (auto simp: rtl_extends_def)
  have "rtl_records_inv m'"
    by (rule rtl_records_extend [OF _ ext]) (use inv m' in \<open>auto simp: rtl_inv_def\<close>)
  moreover have "rtl_types_inv m'"
    by (rule rtl_types_keep [OF _ ext]) (use inv m' in \<open>auto simp: rtl_inv_def\<close>)
  moreover have "rtl_expressions_inv m'"
    by (rule rtl_expressions_keep [OF _ ext]) (use inv m' in \<open>auto simp: rtl_inv_def\<close>)
  moreover have "rtl_owners_inv m'"
    using m' inv owned_module [of _ "map object_module (rtl_objects m)"]
      owned_module [of _ "map instance_module (rtl_instances m)"]
      owned_module [of _ "map equation_module (rtl_equations m)"]
      owned_module [of _ "map rtl_process_module (rtl_processes m)"]
    by (auto simp: rtl_inv_def rtl_owners_inv_def)
  ultimately show ?thesis using inv m' n by (auto simp: rtl_inv_def rtl_counts_inv_def)
qed

text \<open>A range that is open is extended by the new record of its module.\<close>

lemma range_open_end:
  assumes "owned rs os" and "k < length rs" and "length os \<le> PIGEN_INVALID_ID" and "range_open (rs ! k) (length os)"
  shows "range_first (rs ! k) + range_count (rs ! k) = length os"
proof -
  have "range_first (rs ! k) + range_count (rs ! k) \<le> length os" using assms(1,2) by (simp add: owned_def)
  moreover have "length os \<le> SIZE_MAX" using assms(3) by (simp add: PIGEN_INVALID_ID_def SIZE_MAX_def)
  ultimately show ?thesis using assms(4) by (simp add: range_open_def)
qed

lemma owned_open:
  assumes "owned rs os" and "k < length rs" and "length os \<le> PIGEN_INVALID_ID" and "range_open (rs ! k) (length os)"
  shows "owned (rs[k := grow_range (rs ! k)]) (os @ [k])"
  by (rule owned_record [OF assms(1,2) range_open_end [OF assms]])

lemma map_update_id [simp]: "(map f xs)[k := f (xs ! k)] = map f xs"
  by (simp flip: map_update)

lemma object_add_inv:
  assumes inv: "rtl_inv m" and run: "pigen_rtl_object_add_with_owner m k kind ty dir sig sp = (i, m')"
  shows "rtl_inv m'"
proof (cases "m' = m")
  case True
  with inv show ?thesis by simp
next
  case False
  let ?o = "rtl_modules m ! k"
  obtain x where m': "m' = m\<lparr>rtl_objects := rtl_objects m @ [x],
        rtl_modules := (rtl_modules m)[k := ?o\<lparr>module_objects := grow_range (module_objects ?o)\<rparr>]\<rparr>"
    and x: "object_module x = k" "object_type x < length (rtl_types m)"
    and k: "k < length (rtl_modules m)" "range_open (module_objects ?o) (length (rtl_objects m))"
    and n: "length (rtl_objects m) \<noteq> PIGEN_INVALID_ID"
    using run False
    by (auto simp: pigen_rtl_object_add_with_owner_def rtl_get_defs arena_get_def split: if_splits)
  have ext: "rtl_extends m m'" by (simp add: rtl_extends_def m')
  have "rtl_records_inv m'"
    by (rule rtl_records_extend [OF _ ext]) (use inv x in \<open>auto simp: rtl_inv_def m'\<close>)
  moreover have "rtl_types_inv m'"
    by (rule rtl_types_keep [OF _ ext]) (use inv in \<open>simp_all add: rtl_inv_def m'\<close>)
  moreover have "rtl_expressions_inv m'"
    by (rule rtl_expressions_keep [OF _ ext]) (use inv in \<open>simp_all add: rtl_inv_def m'\<close>)
  moreover have "rtl_owners_inv m'"
    using inv k x owned_open [of "map module_objects (rtl_modules m)" "map object_module (rtl_objects m)" k]
    by (simp add: rtl_inv_def rtl_owners_inv_def rtl_counts_inv_def m' map_update)
  ultimately show ?thesis using inv n by (simp add: rtl_inv_def rtl_counts_inv_def m')
qed

lemma equation_add_inv:
  assumes inv: "rtl_inv m" and run: "pigen_rtl_equation_add_with_owner m k d v sp = (i, m')"
  shows "rtl_inv m'"
proof (cases "m' = m")
  case True
  with inv show ?thesis by simp
next
  case False
  let ?o = "rtl_modules m ! k"
  obtain x where m': "m' = m\<lparr>rtl_equations := rtl_equations m @ [x],
        rtl_modules := (rtl_modules m)[k := ?o\<lparr>module_equations := grow_range (module_equations ?o)\<rparr>]\<rparr>"
    and x: "equation_module x = k" "drives m (equation_destination x) (equation_value x) k"
    and k: "k < length (rtl_modules m)" "range_open (module_equations ?o) (length (rtl_equations m))"
    and n: "length (rtl_equations m) \<noteq> PIGEN_INVALID_ID"
    using run False
    by (auto simp: pigen_rtl_equation_add_with_owner_def rtl_get_defs arena_get_def drives_def split: if_splits)
  have ext: "rtl_extends m m'" by (simp add: rtl_extends_def m')
  have "rtl_records_inv m'"
    by (rule rtl_records_extend [OF _ ext])
      (use inv x drives_extends [OF x(2) ext] in \<open>auto simp: rtl_inv_def m'\<close>)
  moreover have "rtl_types_inv m'"
    by (rule rtl_types_keep [OF _ ext]) (use inv in \<open>simp_all add: rtl_inv_def m'\<close>)
  moreover have "rtl_expressions_inv m'"
    by (rule rtl_expressions_keep [OF _ ext]) (use inv in \<open>simp_all add: rtl_inv_def m'\<close>)
  moreover have "rtl_owners_inv m'"
    using inv k x owned_open [of "map module_equations (rtl_modules m)" "map equation_module (rtl_equations m)" k]
    by (simp add: rtl_inv_def rtl_owners_inv_def rtl_counts_inv_def m' map_update)
  ultimately show ?thesis using inv n by (simp add: rtl_inv_def rtl_counts_inv_def m')
qed

lemma update_add_inv:
  assumes inv: "rtl_inv m" and run: "pigen_rtl_update_add_with_owner m k d v sp = (i, m')"
  shows "rtl_inv m'"
proof (cases "m' = m")
  case True
  with inv show ?thesis by simp
next
  case False
  obtain x where m': "m' = m\<lparr>rtl_updates := rtl_updates m @ [x]\<rparr>"
    and x: "drives m (update_destination x) (update_value x) (update_module x)"
    and n: "length (rtl_updates m) \<noteq> PIGEN_INVALID_ID"
    using run False
    by (auto simp: pigen_rtl_update_add_with_owner_def rtl_get_defs arena_get_def drives_def split: if_splits)
  have ext: "rtl_extends m m'" by (simp add: rtl_extends_def m')
  have "rtl_records_inv m'"
    by (rule rtl_records_extend [OF _ ext])
      (use inv drives_extends [OF x ext] in \<open>auto simp: rtl_inv_def m'\<close>)
  moreover have "rtl_types_inv m'"
    by (rule rtl_types_keep [OF _ ext]) (use inv in \<open>simp_all add: rtl_inv_def m'\<close>)
  moreover have "rtl_expressions_inv m'"
    by (rule rtl_expressions_keep [OF _ ext]) (use inv in \<open>simp_all add: rtl_inv_def m'\<close>)
  ultimately show ?thesis using inv n by (simp add: rtl_inv_def rtl_counts_inv_def rtl_owners_inv_def m')
qed

text \<open>
  The constructor of processes checks the updates it is given, and then takes as many updates from
  the end of the arena, which are the same ones only when its caller has just added them.
\<close>

lemma wrap_back: "b \<le> a \<Longrightarrow> a \<le> SIZE_MAX \<Longrightarrow> size_wrap (a + (SIZE_MAX + 1) - b) = a - b"
proof -
  assume "b \<le> a" and a: "a \<le> SIZE_MAX"
  then obtain d where d: "a = b + d" by (auto simp: le_iff_add)
  then have "a + (SIZE_MAX + 1) - b = d + (SIZE_MAX + 1)" by simp
  then have "size_wrap (a + (SIZE_MAX + 1) - b) = size_wrap (d + (SIZE_MAX + 1))" by (rule arg_cong)
  also have "\<dots> = d" using a d by (simp add: size_wrap_def SIZE_MAX_def)
  finally show ?thesis using d by simp
qed

text \<open>What the constructor does when it succeeds.\<close>

lemma process_added:
  assumes run: "pigen_rtl_process_add_with_owner m k c edge us sp = (i, m')" and new: "m' \<noteq> m"
  obtains x where "m' = m\<lparr>rtl_processes := rtl_processes m @ [x],
      rtl_modules := (rtl_modules m)[k := (rtl_modules m ! k)
        \<lparr>module_processes := grow_range (module_processes (rtl_modules m ! k))\<rparr>]\<rparr>"
    and "i = u32 (length (rtl_processes m))" and "k < length (rtl_modules m)"
    and "range_open (module_processes (rtl_modules m ! k)) (length (rtl_processes m))"
    and "length (rtl_processes m) \<noteq> PIGEN_INVALID_ID"
    and "\<And>u. u \<in> set us \<Longrightarrow> u < length (rtl_updates m) \<and> update_module (rtl_updates m ! u) = k"
    and "rtl_process_module x = k" and "rtl_process_clock x < length (rtl_expressions m)"
    and "rtl_process_updates x = \<lparr>range_first = size_wrap (length (rtl_updates m) + (SIZE_MAX + 1) - length us),
      range_count = length us\<rparr>"
proof -
  let ?o = "rtl_modules m ! k"
  define x where "x = \<lparr>rtl_process_origin = sp, rtl_process_clock = c, rtl_process_edge = edge,
    rtl_process_updates = \<lparr>range_first = size_wrap (length (rtl_updates m) + (SIZE_MAX + 1) - length us),
      range_count = length us\<rparr>, rtl_process_module = k\<rparr>"
  have known: "\<not> (case pigen_rtl_update_get m u of None \<Rightarrow> True | Some known \<Rightarrow> update_module known \<noteq> k) \<longleftrightarrow>
      u < length (rtl_updates m) \<and> u \<noteq> PIGEN_INVALID_ID \<and> update_module (rtl_updates m ! u) = k" for u
    by (auto simp: rtl_get_defs arena_get_def)
  have "pigen_rtl_expr_get m c \<noteq> None" "length (rtl_processes m) \<noteq> PIGEN_INVALID_ID"
      "\<forall>u \<in> set us. u < length (rtl_updates m) \<and> update_module (rtl_updates m ! u) = k"
      "pigen_rtl_module_get m k = Some ?o" "range_open (module_processes ?o) (length (rtl_processes m))"
      "i = u32 (length (rtl_processes m))"
      "m' = m\<lparr>rtl_processes := rtl_processes m @ [x],
        rtl_modules := (rtl_modules m)[k := ?o\<lparr>module_processes := grow_range (module_processes ?o)\<rparr>]\<rparr>"
    using run new known unfolding pigen_rtl_process_add_with_owner_def x_def
    by (auto split: if_splits option.splits simp: pigen_rtl_module_get_def arena_get_def)
  with that [of x] show ?thesis
    by (auto simp: x_def rtl_get_defs arena_get_def split: if_splits)
qed

lemma rtl_process_add_inv:
  assumes inv: "rtl_inv m" and run: "pigen_rtl_process_add_with_owner m k c edge us sp = (i, m')"
  shows "rtl_inv m'"
proof (cases "m' = m")
  case True
  with inv show ?thesis by simp
next
  case False
  let ?o = "rtl_modules m ! k"
  from process_added [OF run False] obtain x where m': "m' = m\<lparr>rtl_processes := rtl_processes m @ [x],
      rtl_modules := (rtl_modules m)[k := ?o\<lparr>module_processes := grow_range (module_processes ?o)\<rparr>]\<rparr>"
    and k: "k < length (rtl_modules m)" "range_open (module_processes ?o) (length (rtl_processes m))"
    and n: "length (rtl_processes m) \<noteq> PIGEN_INVALID_ID"
    and x: "rtl_process_module x = k" "rtl_process_clock x < length (rtl_expressions m)" .
  have ext: "rtl_extends m m'" by (simp add: rtl_extends_def m')
  have "rtl_records_inv m'"
    by (rule rtl_records_extend [OF _ ext]) (use inv x in \<open>auto simp: rtl_inv_def m'\<close>)
  moreover have "rtl_types_inv m'"
    by (rule rtl_types_keep [OF _ ext]) (use inv in \<open>simp_all add: rtl_inv_def m'\<close>)
  moreover have "rtl_expressions_inv m'"
    by (rule rtl_expressions_keep [OF _ ext]) (use inv in \<open>simp_all add: rtl_inv_def m'\<close>)
  moreover have "rtl_owners_inv m'"
    using inv k x owned_open [of "map module_processes (rtl_modules m)" "map rtl_process_module (rtl_processes m)" k]
    by (simp add: rtl_inv_def rtl_owners_inv_def rtl_counts_inv_def m' map_update)
  ultimately show ?thesis using inv n by (simp add: rtl_inv_def rtl_counts_inv_def m')
qed

text \<open>
  The range the new process holds: the last updates of the arena. It is right exactly when they all
  are of the module of the process.
\<close>

lemma process_add_range:
  assumes inv: "rtl_inv m" and run: "pigen_rtl_process_add_with_owner m k c edge us sp = (i, m')"
    and i: "i \<noteq> PIGEN_INVALID_ID" and le: "length us \<le> length (rtl_updates m)"
  shows "\<exists>x. rtl_processes m' = rtl_processes m @ [x] \<and> i = length (rtl_processes m) \<and>
    rtl_updates m' = rtl_updates m \<and> rtl_extends m m' \<and>
    rtl_process_module x = k \<and>
    rtl_process_updates x = \<lparr>range_first = length (rtl_updates m) - length us, range_count = length us\<rparr> \<and>
    (process_ok m' x \<longleftrightarrow>
      (\<forall>u. length (rtl_updates m) - length us \<le> u \<and> u < length (rtl_updates m) \<longrightarrow> update_module (rtl_updates m ! u) = k))"
proof -
  let ?u = "length (rtl_updates m)"
  have n: "length (rtl_processes m) \<le> PIGEN_INVALID_ID" "?u \<le> PIGEN_INVALID_ID"
    using inv by (simp_all add: rtl_inv_def rtl_counts_inv_def)
  have first: "size_wrap (?u + (SIZE_MAX + 1) - length us) = ?u - length us"
    using le n(2) by (intro wrap_back) (simp_all add: SIZE_MAX_def PIGEN_INVALID_ID_def)
  have "m' \<noteq> m"
    using run i unfolding pigen_rtl_process_add_with_owner_def by (auto split: if_splits option.splits dest: arg_cong [of _ _ rtl_processes])
  from process_added [OF run this, unfolded first] obtain x where
    m': "m' = m\<lparr>rtl_processes := rtl_processes m @ [x],
      rtl_modules := (rtl_modules m)[k := (rtl_modules m ! k)
        \<lparr>module_processes := grow_range (module_processes (rtl_modules m ! k))\<rparr>]\<rparr>"
    and i': "i = u32 (length (rtl_processes m))"
    and x: "rtl_process_module x = k" "rtl_process_clock x < length (rtl_expressions m)"
      "rtl_process_updates x = \<lparr>range_first = ?u - length us, range_count = length us\<rparr>" .
  have "process_ok m' x \<longleftrightarrow> (\<forall>u. ?u - length us \<le> u \<and> u < ?u \<longrightarrow> update_module (rtl_updates m ! u) = k)"
    using x le by (auto simp: process_ok_def m' in_range_def)
  then show ?thesis using m' i' x n(1) by (auto simp: rtl_extends_def)
qed

text \<open>The requests for an instance that the constructor grants.\<close>

definition instance_granted :: "pigen_rtl_model \<Rightarrow> id \<Rightarrow> id \<Rightarrow> id list \<Rightarrow> id list \<Rightarrow> bool" where
  "instance_granted m k sm ps cs \<longleftrightarrow>
     sm \<noteq> PIGEN_INVALID_ID \<and> k < length (rtl_modules m) \<and> length (rtl_instances m) < PIGEN_INVALID_ID \<and>
     (\<forall>p \<in> set ps. p < length (rtl_expressions m)) \<and>
     (\<forall>c \<in> set cs. c < length (rtl_objects m) \<and> object_module (rtl_objects m ! c) = k) \<and>
     range_open (module_instances (rtl_modules m ! k)) (length (rtl_instances m)) \<and>
     length ps \<le> SIZE_MAX - length (rtl_instance_parameters m) \<and>
     length cs \<le> SIZE_MAX - length (rtl_instance_connections m)"

lemma fresh_range:
  "(if xs = [] then Some (\<lparr>range_first = n, range_count = 0\<rparr>, n)
    else range_append \<lparr>range_first = n, range_count = 0\<rparr> n (length xs)) =
   (if length xs \<le> SIZE_MAX - n then Some (\<lparr>range_first = n, range_count = length xs\<rparr>, n + length xs) else None)"
proof -
  have "size_wrap (n + (SIZE_MAX + 1) - n) = 0" by (simp add: size_wrap_def SIZE_MAX_def)
  then show ?thesis by (auto simp: range_append_def)
qed

lemma instance_add:
  assumes inv: "rtl_inv m"
  shows "pigen_rtl_instance_add_with_owner m k sm ps cs sp =
    (if instance_granted m k sm ps cs
     then (length (rtl_instances m),
       m\<lparr>rtl_instance_parameters := rtl_instance_parameters m @ ps,
         rtl_instance_connections := rtl_instance_connections m @ cs,
         rtl_instances := rtl_instances m @
           [\<lparr>instance_origin = sp, instance_semantic_module = sm,
             instance_parameters = \<lparr>range_first = length (rtl_instance_parameters m), range_count = length ps\<rparr>,
             instance_connections = \<lparr>range_first = length (rtl_instance_connections m), range_count = length cs\<rparr>,
             instance_module = k\<rparr>],
         rtl_modules := (rtl_modules m)[k := (rtl_modules m ! k)
           \<lparr>module_instances := grow_range (module_instances (rtl_modules m ! k))\<rparr>]\<rparr>)
     else (PIGEN_INVALID_ID, m))"
proof -
  let ?bad_ps = "\<exists>p \<in> set ps. pigen_rtl_expr_get m p = None"
    and ?bad_cs = "\<exists>c \<in> set cs. case pigen_rtl_object_get m c of
      None \<Rightarrow> True | Some known \<Rightarrow> object_module known \<noteq> k"
  have n: "length (rtl_instances m) \<le> PIGEN_INVALID_ID" "length (rtl_modules m) \<le> PIGEN_INVALID_ID"
      "length (rtl_objects m) \<le> PIGEN_INVALID_ID" "length (rtl_expressions m) \<le> PIGEN_INVALID_ID"
    using inv by (simp_all add: rtl_inv_def rtl_counts_inv_def rtl_expressions_inv_def)
  have ps: "?bad_ps \<longleftrightarrow> \<not> (\<forall>p \<in> set ps. p < length (rtl_expressions m))"
  proof -
    have "pigen_rtl_expr_get m p = None \<longleftrightarrow> \<not> p < length (rtl_expressions m)" for p
      using n(4) by (auto simp: rtl_get_defs arena_get_def)
    then show ?thesis by simp
  qed
  have cs: "?bad_cs \<longleftrightarrow> \<not> (\<forall>c \<in> set cs. c < length (rtl_objects m) \<and> object_module (rtl_objects m ! c) = k)"
  proof -
    have "(case pigen_rtl_object_get m c of None \<Rightarrow> True | Some known \<Rightarrow> object_module known \<noteq> k) \<longleftrightarrow>
        \<not> (c < length (rtl_objects m) \<and> object_module (rtl_objects m ! c) = k)" for c
      using n(3) by (auto simp: rtl_get_defs arena_get_def)
    then show ?thesis by simp
  qed
  have owner: "pigen_rtl_module_get m k = (if k < length (rtl_modules m) then Some (rtl_modules m ! k) else None)"
    using n(2) by (auto simp: rtl_get_defs arena_get_def)
  show ?thesis
    using n(1) unfolding pigen_rtl_instance_add_with_owner_def Let_def fresh_range ps cs owner
    by (simp add: instance_granted_def)
qed

lemma instance_add_inv:
  assumes inv: "rtl_inv m" and run: "pigen_rtl_instance_add_with_owner m k sm ps cs sp = (i, m')"
  shows "rtl_inv m'"
proof (cases "instance_granted m k sm ps cs")
  case False
  with inv run show ?thesis by (simp add: instance_add [OF inv])
next
  case True
  let ?o = "rtl_modules m ! k"
  define x where "x = \<lparr>instance_origin = sp, instance_semantic_module = sm,
    instance_parameters = \<lparr>range_first = length (rtl_instance_parameters m), range_count = length ps\<rparr>,
    instance_connections = \<lparr>range_first = length (rtl_instance_connections m), range_count = length cs\<rparr>,
    instance_module = k\<rparr>"
  have x: "instance_module x = k"
    "instance_parameters x = \<lparr>range_first = length (rtl_instance_parameters m), range_count = length ps\<rparr>"
    "instance_connections x = \<lparr>range_first = length (rtl_instance_connections m), range_count = length cs\<rparr>"
    by (simp_all add: x_def)
  have m': "m' = m\<lparr>rtl_instance_parameters := rtl_instance_parameters m @ ps,
        rtl_instance_connections := rtl_instance_connections m @ cs, rtl_instances := rtl_instances m @ [x],
        rtl_modules := (rtl_modules m)[k := ?o\<lparr>module_instances := grow_range (module_instances ?o)\<rparr>]\<rparr>"
    using run True by (simp add: instance_add [OF inv] x_def)
  have ps: "\<And>p. p \<in> set ps \<Longrightarrow> p < length (rtl_expressions m)"
    and cs: "\<And>c. c \<in> set cs \<Longrightarrow> c < length (rtl_objects m) \<and> object_module (rtl_objects m ! c) = k"
    and k: "k < length (rtl_modules m)" "range_open (module_instances ?o) (length (rtl_instances m))"
    and n: "length (rtl_instances m) \<noteq> PIGEN_INVALID_ID"
    using True by (auto simp: instance_granted_def)
  have "instance_ok m' x"
    using ps cs x by (auto simp: instance_ok_def m' in_range_def nth_append)
  moreover have ext: "rtl_extends m m'" by (simp add: rtl_extends_def m')
  ultimately have "rtl_records_inv m'"
    by (intro rtl_records_extend [OF _ ext]) (use inv in \<open>auto simp: rtl_inv_def m'\<close>)
  moreover have "rtl_types_inv m'"
    by (rule rtl_types_keep [OF _ ext]) (use inv in \<open>simp_all add: rtl_inv_def m'\<close>)
  moreover have "rtl_expressions_inv m'"
    by (rule rtl_expressions_keep [OF _ ext]) (use inv in \<open>simp_all add: rtl_inv_def m'\<close>)
  moreover have "rtl_owners_inv m'"
    using inv k x owned_open [of "map module_instances (rtl_modules m)" "map instance_module (rtl_instances m)" k]
    by (simp add: rtl_inv_def rtl_owners_inv_def rtl_counts_inv_def m' map_update)
  ultimately show ?thesis using inv n by (simp add: rtl_inv_def rtl_counts_inv_def m')
qed

end
