(* ===== verification/RtlProperties.thy ===== *)
theory RtlProperties
  imports RtlInvariant
begin

text \<open>
  What the constructors of the hardware model guarantee (src/src/rtl.c), for every sequence of calls
  from an empty model, whatever their arguments. The constructors that only take an origin belong
  to an earlier stage and leave members unset; they are not steps here.
\<close>

section \<open>Steps\<close>

text \<open>
  A step is one successful or failing call of a constructor. Nothing is asked of the arguments when
  \<open>orderly\<close> is false. When it is true the caller passes to the constructor of processes the
  identities of the last updates of the arena in order, as one does that has just added them.
\<close>

inductive hardware_step :: "bool \<Rightarrow> pigen_rtl_model \<Rightarrow> pigen_rtl_model \<Rightarrow> bool"
  for orderly where
  hardware_type: "pigen_rtl_type_intern m t = (i, m') \<Longrightarrow> hardware_step orderly m m'"
| hardware_literal: "pigen_rtl_expr_add_literal m kind ty ws n neg sp = (i, m') \<Longrightarrow> hardware_step orderly m m'"
| hardware_object_expr: "pigen_rtl_expr_add_object m ty obj sp = (i, m') \<Longrightarrow> hardware_step orderly m m'"
| hardware_unary: "pigen_rtl_expr_add_unary m ty ur a sp = (i, m') \<Longrightarrow> hardware_step orderly m m'"
| hardware_binary: "pigen_rtl_expr_add_binary m ty br a b sp = (i, m') \<Longrightarrow> hardware_step orderly m m'"
| hardware_conditional: "pigen_rtl_expr_add_conditional m ty cr a b c sp = (i, m') \<Longrightarrow> hardware_step orderly m m'"
| hardware_conversion: "pigen_rtl_expr_add_conversion m ty cv a sp = (i, m') \<Longrightarrow> hardware_step orderly m m'"
| hardware_index: "pigen_rtl_expr_add_index m ty a b sp = (i, m') \<Longrightarrow> hardware_step orderly m m'"
| hardware_select: "pigen_rtl_expr_add_select m ty a b c sel sp = (i, m') \<Longrightarrow> hardware_step orderly m m'"
| hardware_concatenation: "pigen_rtl_expr_add_concatenation m ty cs sp = (i, m') \<Longrightarrow> hardware_step orderly m m'"
| hardware_module: "pigen_rtl_module_add_with_owner m sm sp = (i, m') \<Longrightarrow> hardware_step orderly m m'"
| hardware_object: "pigen_rtl_object_add_with_owner m k okind ty dir sig sp = (i, m') \<Longrightarrow> hardware_step orderly m m'"
| hardware_equation: "pigen_rtl_equation_add_with_owner m k d v sp = (i, m') \<Longrightarrow> hardware_step orderly m m'"
| hardware_update: "pigen_rtl_update_add_with_owner m k d v sp = (i, m') \<Longrightarrow> hardware_step orderly m m'"
| hardware_process: "pigen_rtl_process_add_with_owner m k c edge us sp = (i, m') \<Longrightarrow>
    (orderly \<longrightarrow> us = [length (rtl_updates m) - length us ..< length (rtl_updates m)]) \<Longrightarrow>
    hardware_step orderly m m'"
| hardware_instance: "pigen_rtl_instance_add_with_owner m k sm ps cs sp = (i, m') \<Longrightarrow> hardware_step orderly m m'"

definition hardware_reachable :: "bool \<Rightarrow> pigen_rtl_model \<Rightarrow> bool" where
  "hardware_reachable orderly m \<longleftrightarrow> (hardware_step orderly)\<^sup>*\<^sup>* pigen_free_rtl_model m"

lemmas expression_constructors = pigen_rtl_expr_add_unary_def pigen_rtl_expr_add_binary_def
  pigen_rtl_expr_add_conditional_def pigen_rtl_expr_add_conversion_def pigen_rtl_expr_add_index_def
  pigen_rtl_expr_add_select_def pigen_rtl_expr_add_concatenation_def expr_add_children_def
  pigen_rtl_expr_add_object_def blank_expr_def

lemma hardware_step_inv: "hardware_step orderly m m' \<Longrightarrow> rtl_inv m \<Longrightarrow> rtl_inv m'"
proof (induction rule: hardware_step.induct)
  case (hardware_literal m kind ty ws n neg sp i m')
  then consider "m' = m" | node where "expr_append m node [] = (i, m')" "rtl_expr_as node = kind"
      "kind = PIGEN_RTL_EXPR_INTEGER \<or> kind = PIGEN_RTL_EXPR_BITS"
    by (auto simp: pigen_rtl_expr_add_literal_def Let_def blank_expr_def split: if_splits option.splits)
  then show ?case
  proof cases
    case 2
    with hardware_literal show ?thesis by (auto intro: expr_append_inv)
  qed (use hardware_literal in simp)
next
  case (hardware_object_expr m ty obj sp i m')
  then consider "m' = m"
    | "expr_append m ((blank_expr PIGEN_RTL_EXPR_OBJECT ty sp)\<lparr>rtl_expr_object := obj\<rparr>) [] = (i, m')"
      "obj < length (rtl_objects m)"
    by (auto simp: pigen_rtl_expr_add_object_def pigen_rtl_object_get_def arena_get_def split: if_splits)
  then show ?case
    using hardware_object_expr expr_append_inv by cases (auto simp: blank_expr_def)
next
  case (hardware_conversion m ty cv a sp i m')
  then show ?case
    by (auto simp: expression_constructors split: if_splits intro: expr_append_inv)
qed (auto simp: expression_constructors intro: expr_append_inv
      dest: type_intern_inv module_add_owner_inv object_add_inv equation_add_inv update_add_inv
        rtl_process_add_inv instance_add_inv)

lemma hardware_inv: "hardware_reachable orderly m \<Longrightarrow> rtl_inv m"
  unfolding hardware_reachable_def
  by (induction rule: rtranclp_induct) (auto intro: empty_inv hardware_step_inv)

text \<open>All steps but those that add a process leave the processes alone.\<close>

definition processes_kept :: "pigen_rtl_model \<Rightarrow> pigen_rtl_model \<Rightarrow> bool" where
  "processes_kept m m' \<longleftrightarrow> rtl_extends m m' \<and> rtl_processes m' = rtl_processes m"

lemma processes_kept_refl [simp]: "processes_kept m m"
  by (simp add: processes_kept_def rtl_extends_def)

lemma expr_append_kept: "expr_append m node cs = (i, m') \<Longrightarrow> processes_kept m m'"
  by (auto simp: expr_append_def processes_kept_def rtl_extends_def split: if_splits)

lemma constructor_kept:
  "pigen_rtl_type_intern m t = (i, m') \<Longrightarrow> processes_kept m m'"
  "pigen_rtl_expr_add_literal m kind ty ws n neg sp = (i, m') \<Longrightarrow> processes_kept m m'"
  "pigen_rtl_module_add_with_owner m sm sp = (i, m') \<Longrightarrow> processes_kept m m'"
  "pigen_rtl_object_add_with_owner m k okind ty dir sig sp = (i, m') \<Longrightarrow> processes_kept m m'"
  "pigen_rtl_equation_add_with_owner m k d v sp = (i, m') \<Longrightarrow> processes_kept m m'"
  "pigen_rtl_update_add_with_owner m k d v sp = (i, m') \<Longrightarrow> processes_kept m m'"
  subgoal by (auto simp: pigen_rtl_type_intern_def processes_kept_def rtl_extends_def split: if_splits option.splits)
  subgoal by (auto simp: pigen_rtl_expr_add_literal_def Let_def intro: expr_append_kept split: if_splits option.splits)
  subgoal by (auto simp: pigen_rtl_module_add_with_owner_def processes_kept_def rtl_extends_def split: if_splits)
  subgoal by (auto simp: pigen_rtl_object_add_with_owner_def processes_kept_def rtl_extends_def split: if_splits option.splits)
  subgoal by (auto simp: pigen_rtl_equation_add_with_owner_def processes_kept_def rtl_extends_def split: if_splits option.splits)
  subgoal by (auto simp: pigen_rtl_update_add_with_owner_def processes_kept_def rtl_extends_def split: if_splits option.splits)
  done

lemma instance_kept:
  "rtl_inv m \<Longrightarrow> pigen_rtl_instance_add_with_owner m k sm ps cs sp = (i, m') \<Longrightarrow> processes_kept m m'"
  by (auto simp: instance_add processes_kept_def rtl_extends_def split: if_splits)

lemma kept_inv: "processes_kept m m' \<Longrightarrow> rtl_processes_inv m \<Longrightarrow> rtl_processes_inv m'"
  by (auto simp: processes_kept_def intro: rtl_processes_keep)

lemma hardware_step_processes:
  "hardware_step orderly m m' \<Longrightarrow> orderly \<Longrightarrow> rtl_inv m \<Longrightarrow> rtl_processes_inv m \<Longrightarrow> rtl_processes_inv m'"
proof (induction rule: hardware_step.induct)
  case (hardware_process m k c edge us sp i m')
  then have us: "us = [length (rtl_updates m) - length us ..< length (rtl_updates m)]" by simp
  show ?case
  proof (cases "m' = m")
    case True
    with hardware_process show ?thesis by simp
  next
    case False
    have le: "length us \<le> length (rtl_updates m)" using arg_cong [OF us, of length] by simp
    from process_added [OF hardware_process(1) False] have own: "\<And>u. u \<in> set us \<Longrightarrow> update_module (rtl_updates m ! u) = k"
      and i: "i = u32 (length (rtl_processes m))" "length (rtl_processes m) \<noteq> PIGEN_INVALID_ID" by blast+
    then have "i \<noteq> PIGEN_INVALID_ID"
      using hardware_process(4) by (simp add: rtl_inv_def rtl_counts_inv_def)
    from process_add_range [OF hardware_process(4,1) this le] obtain x where
      x: "rtl_processes m' = rtl_processes m @ [x]" "rtl_extends m m'"
        "process_ok m' x \<longleftrightarrow> (\<forall>u. length (rtl_updates m) - length us \<le> u \<and> u < length (rtl_updates m) \<longrightarrow>
          update_module (rtl_updates m ! u) = k)" by blast
    have "process_ok m' x" unfolding x(3)
    proof (intro allI impI)
      fix u
      assume "length (rtl_updates m) - length us \<le> u \<and> u < length (rtl_updates m)"
      then have "u \<in> set us" by (subst us) simp
      then show "update_module (rtl_updates m ! u) = k" by (rule own)
    qed
    then show ?thesis
      using hardware_process(5) process_ok_extends [OF _ x(2)] by (auto simp: rtl_processes_inv_def x(1))
  qed
next
  case (hardware_instance m k sm ps cs sp i m')
  then show ?case by (blast intro: kept_inv instance_kept)
qed (auto simp: expression_constructors split: if_splits intro: kept_inv [OF expr_append_kept]
    kept_inv [OF constructor_kept(1)] kept_inv [OF constructor_kept(2)] kept_inv [OF constructor_kept(3)]
    kept_inv [OF constructor_kept(4)] kept_inv [OF constructor_kept(5)] kept_inv [OF constructor_kept(6)])

lemma hardware_processes: "hardware_reachable True m \<Longrightarrow> rtl_processes_inv m"
proof -
  have "rtl_inv m \<and> rtl_processes_inv m" if "(hardware_step True)\<^sup>*\<^sup>* pigen_free_rtl_model m"
    using that
  proof (induction rule: rtranclp_induct)
    case base
    show ?case using empty_inv by (simp add: rtl_processes_inv_def) (simp add: pigen_free_rtl_model_def)
  qed (auto intro: hardware_step_inv hardware_step_processes)
  then show "hardware_reachable True m \<Longrightarrow> rtl_processes_inv m" by (simp add: hardware_reachable_def)
qed

section \<open>A small model\<close>

text \<open>One bit variable of one module, its reading and the negation of it, and an equation.\<close>

definition bit_type :: pigen_rtl_type where
  "bit_type = \<lparr>rtl_signedness = PIGEN_SIGN_UNSIGNED, rtl_state_domain = PIGEN_DATA_TYPE_STATE_TWO, rtl_width = 1,
     rtl_width_expression = PIGEN_INVALID_ID, rtl_type_origin = no_span, rtl_dimensions = []\<rparr>"

definition negation :: pigen_unary_resolution where
  "negation = \<lparr>operand_conversion = \<lparr>conversion_kind = PIGEN_CONVERSION_IDENTITY, source_data_type = 0, target_data_type = 0\<rparr>,
     unary_operation = \<lparr>unary_operator = PIGEN_UNARY_BITWISE_NOT, operand_data_type = 0, unary_result_data_type = 0\<rparr>\<rparr>"

definition sample_hardware :: pigen_rtl_model where
  "sample_hardware =
     (let m1 = snd (pigen_rtl_type_intern pigen_free_rtl_model bit_type);
          m2 = snd (pigen_rtl_module_add_with_owner m1 0 no_span);
          m3 = snd (pigen_rtl_object_add_with_owner m2 0 PIGEN_RTL_OBJECT_VARIABLE 0 PIGEN_SEMANTIC_INTERNAL
                 PIGEN_INVALID_ID no_span);
          m4 = snd (pigen_rtl_expr_add_object m3 0 0 no_span);
          m5 = snd (pigen_rtl_expr_add_unary m4 0 negation 0 no_span)
      in snd (pigen_rtl_equation_add_with_owner m5 0 0 1 no_span))"

lemma hardware_then:
  "hardware_reachable orderly m \<Longrightarrow> hardware_step orderly m m' \<Longrightarrow> hardware_reachable orderly m'"
  unfolding hardware_reachable_def by (rule rtranclp.rtrancl_into_rtrancl)

lemma sample_hardware_reachable: "hardware_reachable orderly sample_hardware"
proof -
  have "hardware_reachable orderly pigen_free_rtl_model" by (simp add: hardware_reachable_def)
  then show ?thesis
    unfolding sample_hardware_def Let_def
    by (intro hardware_then [OF _ hardware_equation [OF prod.collapse [symmetric]]]
        hardware_then [OF _ hardware_unary [OF prod.collapse [symmetric]]]
        hardware_then [OF _ hardware_object_expr [OF prod.collapse [symmetric]]]
        hardware_then [OF _ hardware_object [OF prod.collapse [symmetric]]]
        hardware_then [OF _ hardware_module [OF prod.collapse [symmetric]]]
        hardware_then [OF _ hardware_type [OF prod.collapse [symmetric]]])
qed

lemma sample_hardware_records:
  "length (rtl_objects sample_hardware) = 1" "length (rtl_modules sample_hardware) = 1"
  "rtl_types sample_hardware = [bit_type]"
  "module_objects (rtl_modules sample_hardware ! 0) = \<lparr>range_first = 0, range_count = 1\<rparr>"
  "object_module (rtl_objects sample_hardware ! 0) = 0"
  "length (rtl_expressions sample_hardware) = 2" "children_of sample_hardware 1 = [0]"
  "length (rtl_equations sample_hardware) = 1" "rtl_instances sample_hardware = []"
  "module_instances (rtl_modules sample_hardware ! 0) = \<lparr>range_first = 0, range_count = 0\<rparr>"
  "rtl_instance_parameters sample_hardware = []" "rtl_instance_connections sample_hardware = []"
  by (simp_all add: sample_hardware_def pigen_rtl_type_intern_def pigen_free_rtl_model_def bit_type_def
      rtl_type_rejected_def pigen_rtl_module_add_with_owner_def pigen_rtl_object_add_with_owner_def
      expression_constructors expr_append_def rtl_get_defs arena_get_def PIGEN_INVALID_ID_def SIZE_MAX_def u32_def
      range_open_def size_wrap_def grow_range_def pigen_rtl_equation_add_with_owner_def children_of_def slice_def)

section \<open>Properties\<close>

text \<open>
  C28: Every model that the constructors build from an empty one is consistent, whatever their arguments:
  types are valid and stored once, the type, object and children of an expression exist, equations
  and updates drive objects of their own module, the clock of a process exists, instances connect
  objects of the module they stand in, and every record lies in the range of the module it names.
  When processes are moreover only added with the identities of the last updates of the arena
  (\<open>orderly\<close>), then all updates of a process are of its own module.
\<close>

theorem hardware_consistent:
  assumes "hardware_reachable orderly m"
  shows "rtl_inv m \<and> (orderly \<longrightarrow> rtl_processes_inv m)"
  using hardware_inv [OF assms] hardware_processes assms by (cases orderly) simp_all

theorem hardware_consistent_witness: "rtl_inv sample_hardware \<and> rtl_processes_inv sample_hardware"
  using hardware_consistent [OF sample_hardware_reachable, of True] by simp

text \<open>
  C29: In every model the constructors build, with whatever arguments, the expressions form an acyclic
  graph, so every walk to the children ends.
\<close>

theorem hardware_acyclic:
  assumes "hardware_reachable orderly m"
  shows "wf {(c, e). e < length (rtl_expressions m) \<and> c \<in> set (children_of m e)}"
proof (rule wf_subset [OF wf_less_than])
  have "rtl_expressions_inv m" using hardware_inv [OF assms] by (simp add: rtl_inv_def)
  then show "{(c, e). e < length (rtl_expressions m) \<and> c \<in> set (children_of m e)} \<subseteq> less_than"
    by (auto simp: rtl_expressions_inv_def expression_ok_def Let_def)
qed

theorem hardware_acyclic_witness:
  "wf {(c, e). e < 2 \<and> c \<in> set (children_of sample_hardware e)}"
  using hardware_acyclic [OF sample_hardware_reachable] by (simp add: sample_hardware_records)

text \<open>
  C30: The module ranges partition the records: the module an object names exists, and the object lies
  in the range of that module and of no other one, so it is in exactly one module; the same holds
  for instances, equations and processes. This is so in every model the constructors build, with
  whatever arguments.
\<close>

theorem hardware_partition:
  assumes "hardware_reachable orderly m"
  shows "(\<forall>i < length (rtl_objects m). object_module (rtl_objects m ! i) < length (rtl_modules m) \<and>
      (\<forall>k < length (rtl_modules m).
        in_range i (module_objects (rtl_modules m ! k)) \<longleftrightarrow> object_module (rtl_objects m ! i) = k)) \<and>
    (\<forall>i < length (rtl_instances m). instance_module (rtl_instances m ! i) < length (rtl_modules m) \<and>
      (\<forall>k < length (rtl_modules m).
        in_range i (module_instances (rtl_modules m ! k)) \<longleftrightarrow> instance_module (rtl_instances m ! i) = k)) \<and>
    (\<forall>i < length (rtl_equations m). equation_module (rtl_equations m ! i) < length (rtl_modules m) \<and>
      (\<forall>k < length (rtl_modules m).
        in_range i (module_equations (rtl_modules m ! k)) \<longleftrightarrow> equation_module (rtl_equations m ! i) = k)) \<and>
    (\<forall>i < length (rtl_processes m). rtl_process_module (rtl_processes m ! i) < length (rtl_modules m) \<and>
      (\<forall>k < length (rtl_modules m).
        in_range i (module_processes (rtl_modules m ! k)) \<longleftrightarrow> rtl_process_module (rtl_processes m ! i) = k))"
proof -
  have own: "\<forall>i < length os. os ! i < length rs \<and> (\<forall>k < length rs. in_range i (rs ! k) \<longleftrightarrow> os ! i = k)"
    if "owned rs os" for rs os
    using that unfolding owned_def by blast
  have "rtl_owners_inv m" using hardware_inv [OF assms] by (simp add: rtl_inv_def)
  then show ?thesis
    using own [of "map module_objects (rtl_modules m)" "map object_module (rtl_objects m)"]
      own [of "map module_instances (rtl_modules m)" "map instance_module (rtl_instances m)"]
      own [of "map module_equations (rtl_modules m)" "map equation_module (rtl_equations m)"]
      own [of "map module_processes (rtl_modules m)" "map rtl_process_module (rtl_processes m)"]
    by (simp add: rtl_owners_inv_def)
qed

theorem hardware_partition_witness:
  "in_range 0 (module_objects (rtl_modules sample_hardware ! 0)) \<and> object_module (rtl_objects sample_hardware ! 0) = 0"
  using hardware_partition [OF sample_hardware_reachable] by (simp add: sample_hardware_records)

text \<open>The parameters and connections an instance has in the arenas.\<close>

definition parameters_of :: "pigen_rtl_model \<Rightarrow> pigen_rtl_instance \<Rightarrow> id list" where
  "parameters_of m x = slice (range_first (instance_parameters x)) (range_count (instance_parameters x))
     (rtl_instance_parameters m)"

definition connections_of :: "pigen_rtl_model \<Rightarrow> pigen_rtl_instance \<Rightarrow> id list" where
  "connections_of m x = slice (range_first (instance_connections x)) (range_count (instance_connections x))
     (rtl_instance_connections m)"

text \<open>
  C31: Adding an instance is all or nothing. It succeeds exactly for the requests of
  \<open>instance_granted\<close>: an existing module whose range of instances ends the arena, existing
  parameter values, connected objects of that very module, and room for the identity, the
  parameters and the connections. Then the new instance is the last one, its ranges hold exactly the
  given parameters and connections, and every earlier instance keeps the ones it had. In every other
  case, also when the parameters had been counted already and the connections do not fit, the
  invalid identity is returned and the whole model is what it was.
\<close>

theorem instance_all_or_nothing:
  assumes "hardware_reachable orderly m"
    and "pigen_rtl_instance_add_with_owner m k sm ps cs sp = (i, m')"
  shows "if instance_granted m k sm ps cs
    then i = length (rtl_instances m) \<and>
      (\<exists>x. rtl_instances m' = rtl_instances m @ [x] \<and> instance_module x = k \<and> instance_semantic_module x = sm \<and>
        parameters_of m' x = ps \<and> connections_of m' x = cs) \<and>
      (\<forall>x \<in> set (rtl_instances m). parameters_of m' x = parameters_of m x \<and> connections_of m' x = connections_of m x)
    else i = PIGEN_INVALID_ID \<and> m' = m"
proof (cases "instance_granted m k sm ps cs")
  case False
  with assms(2) show ?thesis by (simp add: instance_add [OF hardware_inv [OF assms(1)]])
next
  case True
  have ok: "instance_ok m x" if "x \<in> set (rtl_instances m)" for x
    using hardware_inv [OF assms(1)] that by (simp add: rtl_inv_def rtl_records_inv_def)
  have params: "parameters_of m' x = parameters_of m x" "connections_of m' x = connections_of m x"
    if "x \<in> set (rtl_instances m)" for x
    using True assms(2) ok [OF that]
    by (auto simp: instance_add [OF hardware_inv [OF assms(1)]] parameters_of_def connections_of_def instance_ok_def)
  from True assms(2) params show ?thesis
    by (auto simp: instance_add [OF hardware_inv [OF assms(1)]] parameters_of_def connections_of_def slice_def)
qed

theorem instance_all_or_nothing_witness:
  "let (i, m') = pigen_rtl_instance_add_with_owner sample_hardware 0 7 [1, 0] [0] no_span
   in i = 0 \<and> parameters_of m' (rtl_instances m' ! 0) = [1, 0]"
proof -
  obtain i m' where r: "pigen_rtl_instance_add_with_owner sample_hardware 0 7 [1, 0] [0] no_span = (i, m')" by fastforce
  have "instance_granted sample_hardware 0 7 [1, 0] [0]" "length (rtl_instances sample_hardware) = 0"
    by (simp_all add: instance_granted_def sample_hardware_records range_open_def size_wrap_def PIGEN_INVALID_ID_def
        SIZE_MAX_def)
  with instance_all_or_nothing [OF sample_hardware_reachable r] show ?thesis unfolding r by auto
qed





end
