(* ===== verification/RtlNames.thy ===== *)
theory RtlNames
  imports Rtl
begin

text \<open>
  The names of the hardware model (src/src/rtl_name.c): one call names a list of requests, reusing the name
  of a request with the same role and origin. The array of the names staged in the call comes from
  \<open>realloc\<close> unset; the entry of a request that reuses a name is never set, and reading it is the outcome
  Undefined.
\<close>

section \<open>The routines\<close>

record pigen_rtl_name_request =
  request_kind :: pigen_rtl_name_kind
  request_origin :: pigen_source_span

definition request_valid :: "pigen_source_manager \<Rightarrow> pigen_rtl_name_request \<Rightarrow> bool" where
  "request_valid manager request \<longleftrightarrow>
     request_kind request \<noteq> PIGEN_RTL_NAME_KIND_INVALID \<and>
     (request_kind request = PIGEN_RTL_NAME_SOURCE \<longrightarrow> pigen_source_span_valid manager (request_origin request))"

definition same_identity ::
    "pigen_rtl_name_kind \<Rightarrow> pigen_source_span \<Rightarrow> pigen_rtl_name_kind \<Rightarrow> pigen_source_span \<Rightarrow> bool" where
  "same_identity a_kind a b_kind b \<longleftrightarrow>
     a_kind = b_kind \<and> span_source a = span_source b \<and> span_start a = span_start b \<and> span_end a = span_end b"

definition request_matches_name :: "pigen_rtl_name \<Rightarrow> pigen_rtl_name_request \<Rightarrow> bool" where
  "request_matches_name name request \<longleftrightarrow>
     same_identity (name_kind name) (name_origin name) (request_kind request) (request_origin request)"

definition requests_match :: "pigen_rtl_name_request \<Rightarrow> pigen_rtl_name_request \<Rightarrow> bool" where
  "requests_match a b \<longleftrightarrow> same_identity (request_kind a) (request_origin a) (request_kind b) (request_origin b)"

definition role_stem :: "pigen_rtl_name_kind \<Rightarrow> string" where
  "role_stem kind =
     (case kind of
        PIGEN_RTL_NAME_SOURCE \<Rightarrow> ''source''
      | PIGEN_RTL_NAME_PAYLOAD \<Rightarrow> ''payload''
      | PIGEN_RTL_NAME_VALID \<Rightarrow> ''valid''
      | PIGEN_RTL_NAME_READY \<Rightarrow> ''ready''
      | PIGEN_RTL_NAME_INSTANCE \<Rightarrow> ''instance''
      | PIGEN_RTL_NAME_TEMPORARY \<Rightarrow> ''temporary''
      | PIGEN_RTL_NAME_KIND_INVALID \<Rightarrow> ''name'')"

text \<open>The scan of the staged names; None is an entry that was not set.\<close>

fun staged_taken :: "string option list \<Rightarrow> string \<Rightarrow> bool outcome" where
  "staged_taken [] name = Value False"
| "staged_taken (None # staged) name = Undefined"
| "staged_taken (Some s # staged) name = (if s = name then Value True else staged_taken staged name)"

definition name_taken :: "pigen_rtl_name list \<Rightarrow> string option list \<Rightarrow> string \<Rightarrow> bool outcome" where
  "name_taken names staged name =
     (if list_ex (\<lambda>known. name_text known = name) names then Value True else staged_taken staged name)"

text \<open>The decimal numeral that \<open>%zu\<close> prints.\<close>

definition digit :: "nat \<Rightarrow> char" where
  "digit n = char_of (n + 48)"

fun decimal :: "nat \<Rightarrow> string" where
  "decimal n = (if n < 10 then [digit n] else decimal (n div 10) @ [digit (n mod 10)])"

declare decimal.simps [simp del]

definition suffixed_name :: "string \<Rightarrow> nat \<Rightarrow> string" where
  "suffixed_name stem candidate = stem @ CHR ''_'' # decimal candidate"

text \<open>The suffix loop; the buffer always holds a numeral of 64 bits.\<close>

partial_function (option) suffix_loop ::
    "pigen_rtl_name list \<Rightarrow> string option list \<Rightarrow> string \<Rightarrow> nat \<Rightarrow> string outcome option" where
  "suffix_loop names staged stem candidate =
     (case name_taken names staged (suffixed_name stem candidate) of
        Undefined \<Rightarrow> Some Undefined
      | Fail msg \<Rightarrow> Some (Fail msg)
      | Value taken \<Rightarrow>
          if taken then suffix_loop names staged stem (candidate + 1)
          else Some (Value (suffixed_name stem candidate)))"

definition unique_name :: "pigen_rtl_name list \<Rightarrow> string option list \<Rightarrow> string \<Rightarrow> string outcome option" where
  "unique_name names staged stem =
     (case name_taken names staged stem of
        Undefined \<Rightarrow> Some Undefined
      | Fail msg \<Rightarrow> Some (Fail msg)
      | Value taken \<Rightarrow> if taken then suffix_loop names staged stem 1 else Some (Value stem))"

definition append_name :: "pigen_rtl_name list \<Rightarrow> pigen_rtl_name_request \<Rightarrow> string \<Rightarrow> pigen_rtl_name list" where
  "append_name names request txt =
     names @ [\<lparr>name_origin = request_origin request, name_kind = request_kind request, name_text = txt\<rparr>]"

text \<open>
  Phase 2: the identity of each request, given the requests already resolved with their identities and
  the number of new names so far.
\<close>

fun resolve_requests ::
    "pigen_rtl_name list \<Rightarrow> (pigen_rtl_name_request \<times> id) list \<Rightarrow> nat \<Rightarrow> pigen_rtl_name_request list \<Rightarrow> id list" where
  "resolve_requests names earlier additions [] = []"
| "resolve_requests names earlier additions (request # rest) =
     (case first_index (\<lambda>known. request_matches_name known request) names of
        Some j \<Rightarrow> u32 j # resolve_requests names (earlier @ [(request, u32 j)]) additions rest
      | None \<Rightarrow>
          (case first_index (\<lambda>(r, i). requests_match r request) earlier of
             Some j \<Rightarrow> snd (earlier ! j) # resolve_requests names (earlier @ [(request, snd (earlier ! j))]) additions rest
           | None \<Rightarrow>
               let i = u32 (length names + additions)
               in i # resolve_requests names (earlier @ [(request, i)]) (additions + 1) rest))"

text \<open>Phase 3: publish the new names in order.\<close>

fun publish_names ::
    "pigen_source_manager \<Rightarrow> pigen_rtl_name list \<Rightarrow> string option list \<Rightarrow> (pigen_rtl_name_request \<times> id) list \<Rightarrow>
     pigen_rtl_name list outcome option" where
  "publish_names manager names staged [] = Some (Value names)"
| "publish_names manager names staged ((request, resolved) # rest) =
     (if resolved < length names then publish_names manager names (staged @ [None]) rest
      else if request_kind request = PIGEN_RTL_NAME_SOURCE then
        (case pigen_source_span_text manager (request_origin request) of
           None \<Rightarrow> Some Undefined
         | Some txt \<Rightarrow>
             publish_names manager (append_name names request txt) (staged @ [Some txt]) rest)
      else Option.bind (unique_name names staged (role_stem (request_kind request))) (\<lambda>r.
        case r of
          Undefined \<Rightarrow> Some Undefined
        | Fail msg \<Rightarrow> Some (Fail msg)
        | Value txt \<Rightarrow> publish_names manager (append_name names request txt) (staged @ [Some txt]) rest))"

definition pigen_rtl_assign_names ::
    "pigen_rtl_model \<Rightarrow> pigen_source_manager \<Rightarrow> pigen_rtl_name_request list \<Rightarrow>
     (id \<times> pigen_rtl_model) outcome option" where
  "pigen_rtl_assign_names model manager requests =
     (if requests = [] \<or> \<not> list_all (request_valid manager) requests then Some (Value (PIGEN_INVALID_ID, model))
      else map_option (\<lambda>r. and_then r (\<lambda>names. Value (0, model\<lparr>rtl_names := names\<rparr>)))
        (publish_names manager (rtl_names model) []
          (zip requests (resolve_requests (rtl_names model) [] 0 requests))))"

definition pigen_rtl_name_get :: "pigen_rtl_model \<Rightarrow> id \<Rightarrow> pigen_rtl_name option" where
  "pigen_rtl_name_get model i = arena_get (rtl_names model) i"

end
