(* ===== verification/RtlNameProperties.thy ===== *)
theory RtlNameProperties
  imports RtlNames RtlProperties
begin

text \<open>
  The naming of src/src/rtl_name.c: it ends, internal names are new, a repeated call changes nothing; and the
  two ways in which the code does not keep what its comments promise.
\<close>

section \<open>Numerals\<close>

definition numeral_value :: "string \<Rightarrow> nat" where
  "numeral_value s = foldl (\<lambda>a c. 10 * a + (of_char c - 48)) 0 s"

lemma digit_value: "n < 10 \<Longrightarrow> of_char (digit n) - 48 = n"
  by (simp add: digit_def)

lemma decimal_value: "numeral_value (decimal n) = n"
proof (induction n rule: decimal.induct)
  case (1 n)
  show ?case
  proof (cases "n < 10")
    case True
    then show ?thesis using digit_value [of n] by (simp add: decimal.simps [of n] numeral_value_def)
  next
    case False
    then show ?thesis using 1 digit_value [of "n mod 10"] by (simp add: decimal.simps [of n] numeral_value_def)
  qed
qed

lemma suffixed_inject: "suffixed_name stem i = suffixed_name stem j \<longleftrightarrow> i = j"
proof
  assume "suffixed_name stem i = suffixed_name stem j"
  then have "numeral_value (decimal i) = numeral_value (decimal j)" by (simp add: suffixed_name_def)
  then show "i = j" by (simp add: decimal_value)
qed simp

section \<open>Taken names\<close>

lemma staged_taken_True: "staged_taken staged name = Value True \<Longrightarrow> Some name \<in> set staged"
  by (induction staged name rule: staged_taken.induct) (auto split: if_splits)

lemma staged_taken_Fail: "staged_taken staged name \<noteq> Fail msg"
  by (induction staged name rule: staged_taken.induct) auto

lemma name_taken_True:
  "name_taken names staged name = Value True \<Longrightarrow> name \<in> name_text ` set names \<union> {s. Some s \<in> set staged}"
  by (auto simp: name_taken_def list_ex_iff dest: staged_taken_True split: if_splits)

lemma name_taken_False: "name_taken names staged name = Value False \<Longrightarrow> name \<notin> name_text ` set names"
  by (auto simp: name_taken_def list_ex_iff split: if_splits)

text \<open>The suffix loop ends, at the latest at the first candidate that is not among the finitely many names.\<close>

lemma suffix_loop_ends: "\<exists>r. suffix_loop names staged stem c = Some r"
proof -
  let ?T = "name_text ` set names \<union> {s. Some s \<in> set staged}"
  have "finite {s. Some s \<in> set staged}"
    using finite_vimageI [of "set staged" Some] by (simp add: vimage_def)
  then have "finite ?T" by simp
  moreover have "infinite (range (\<lambda>i. suffixed_name stem (c + i)))"
    using finite_imageD [of "\<lambda>i. suffixed_name stem (c + i)" UNIV] by (auto simp: inj_def suffixed_inject)
  ultimately obtain d where "suffixed_name stem (c + d) \<notin> ?T"
    by (metis finite_subset image_subsetI rangeI subsetI)
  then show ?thesis
  proof (induction d arbitrary: c)
    case 0
    then have "name_taken names staged (suffixed_name stem c) \<noteq> Value True"
      using name_taken_True by fastforce
    then show ?case by (subst suffix_loop.simps) (auto split: outcome.split)
  next
    case (Suc d)
    then have "suffixed_name stem (Suc c + d) \<notin> ?T" by simp
    from Suc.IH [OF this] show ?case by (subst suffix_loop.simps) (auto split: outcome.split)
  qed
qed

lemma suffix_loop_result:
  assumes run: "suffix_loop names staged stem c = Some r"
  shows "\<forall>s. r = Value s \<longrightarrow> s \<notin> name_text ` set names"
proof (rule suffix_loop.raw_induct [OF _ run])
  fix f :: "pigen_rtl_name list \<Rightarrow> string option list \<Rightarrow> string \<Rightarrow> nat \<Rightarrow> string outcome option"
    and names :: "pigen_rtl_name list" and staged stem c r
  assume ih: "\<And>names staged stem c r. f names staged stem c = Some r \<Longrightarrow>
      \<forall>s. r = Value s \<longrightarrow> s \<notin> name_text ` set names"
    and step: "(case name_taken names staged (suffixed_name stem c) of
        Value taken \<Rightarrow> if taken then f names staged stem (c + 1) else Some (Value (suffixed_name stem c))
      | Fail msg \<Rightarrow> Some (Fail msg) | Undefined \<Rightarrow> Some Undefined) = Some r"
  show "\<forall>s. r = Value s \<longrightarrow> s \<notin> name_text ` set names"
  proof (cases "name_taken names staged (suffixed_name stem c)")
    case (Value taken)
    show ?thesis
    proof (cases taken)
      case True
      with step Value have "f names staged stem (c + 1) = Some r" by simp
      then show ?thesis by (rule ih)
    next
      case False
      with step Value show ?thesis using name_taken_False [of names staged] by auto
    qed
  qed (use step in auto)
qed

lemma suffix_loop_new: "suffix_loop names staged stem c = Some (Value s) \<Longrightarrow> s \<notin> name_text ` set names"
  using suffix_loop_result by blast

lemma unique_name_ends: "\<exists>r. unique_name names staged stem = Some r"
  using suffix_loop_ends [of names staged stem 1] by (auto simp: unique_name_def split: outcome.split)

lemma unique_name_new: "unique_name names staged stem = Some (Value s) \<Longrightarrow> s \<notin> name_text ` set names"
  by (auto simp: unique_name_def split: outcome.splits if_splits dest: name_taken_False suffix_loop_new)

section \<open>Publishing\<close>

lemma bind_outcome_Value:
  "Option.bind u (\<lambda>r. case r of Value t \<Rightarrow> f t | Fail m \<Rightarrow> Some (Fail m) | Undefined \<Rightarrow> Some Undefined) = Some (Value y) \<longleftrightarrow>
     (\<exists>t. u = Some (Value t) \<and> f t = Some (Value y))"
proof (cases u)
  case (Some r)
  then show ?thesis by (cases r) auto
qed simp

lemma publish_ends: "\<exists>r. publish_names manager names staged work = Some r"
proof (induction manager names staged work rule: publish_names.induct)
  case (2 manager names staged request resolved rest)
  show ?case
  proof (cases "resolved < length names")
    case True
    with 2(1) show ?thesis by simp
  next
    case new: False
    show ?thesis
    proof (cases "request_kind request = PIGEN_RTL_NAME_SOURCE")
      case True
      with new 2(2) show ?thesis by (auto split: option.split)
    next
      case False
      obtain r where "unique_name names staged (role_stem (request_kind request)) = Some r"
        using unique_name_ends by blast
      with False new 2(3) show ?thesis by (cases r) auto
    qed
  qed
qed simp

text \<open>The new names: none of an internal role repeats a text before it.\<close>

definition fresh_internal :: "pigen_rtl_name list \<Rightarrow> pigen_rtl_name list \<Rightarrow> bool" where
  "fresh_internal names added \<longleftrightarrow>
     (\<forall>j < length added. name_kind (added ! j) \<noteq> PIGEN_RTL_NAME_SOURCE \<longrightarrow>
        name_text (added ! j) \<notin> name_text ` set (names @ take j added))"

lemma fresh_internal_Cons:
  assumes "name_kind x \<noteq> PIGEN_RTL_NAME_SOURCE \<longrightarrow> name_text x \<notin> name_text ` set names"
    and "fresh_internal (names @ [x]) added"
  shows "fresh_internal names (x # added)"
  unfolding fresh_internal_def
proof (intro allI impI)
  fix j assume j: "j < length (x # added)" "name_kind ((x # added) ! j) \<noteq> PIGEN_RTL_NAME_SOURCE"
  show "name_text ((x # added) ! j) \<notin> name_text ` set (names @ take j (x # added))"
    using assms j by (cases j) (auto simp: fresh_internal_def)
qed

lemma publish_fresh:
  "publish_names manager names staged work = Some (Value names') \<Longrightarrow>
    \<exists>added. names' = names @ added \<and> fresh_internal names added"
proof (induction manager names staged work rule: publish_names.induct)
  case (1 manager names staged)
  then show ?case by (simp add: fresh_internal_def)
next
  case (2 manager names staged request resolved rest)
  show ?case
  proof (cases "resolved < length names")
    case True
    with 2 show ?thesis by simp
  next
    case new: False
    have step: "\<exists>added. names' = names @ added \<and> fresh_internal names added"
      if tx: "request_kind request \<noteq> PIGEN_RTL_NAME_SOURCE \<longrightarrow> tx \<notin> name_text ` set names"
      and ex: "\<exists>added. names' = append_name names request tx @ added \<and>
        fresh_internal (append_name names request tx) added" for tx
    proof -
      obtain added where a: "names' = append_name names request tx @ added"
        "fresh_internal (append_name names request tx) added" using ex by blast
      let ?x = "\<lparr>name_origin = request_origin request, name_kind = request_kind request, name_text = tx\<rparr>"
      have "fresh_internal names (?x # added)"
        by (rule fresh_internal_Cons) (use tx a(2) in \<open>simp_all add: append_name_def\<close>)
      with a(1) show ?thesis by (auto simp: append_name_def intro!: exI [of _ "?x # added"])
    qed
    show ?thesis
    proof (cases "request_kind request = PIGEN_RTL_NAME_SOURCE")
      case True
      with new "2.prems" obtain tx where tx: "pigen_source_span_text manager (request_origin request) = Some tx"
        "publish_names manager (append_name names request tx) (staged @ [Some tx]) rest = Some (Value names')"
        by (auto split: option.splits)
      show ?thesis by (rule step [OF _ "2.IH"(2) [OF new True tx]]) (simp add: True)
    next
      case False
      with new "2.prems" obtain tx where tx: "unique_name names staged (role_stem (request_kind request)) = Some (Value tx)"
        "publish_names manager (append_name names request tx) (staged @ [Some tx]) rest = Some (Value names')"
        by (auto simp: bind_outcome_Value)
      show ?thesis
        by (rule step [OF _ "2.IH"(3) [OF new False tx(1) refl tx(2)]]) (use unique_name_new [OF tx(1)] in simp)
    qed
  qed
qed

section \<open>Repeating a call\<close>

definition named :: "pigen_rtl_name list \<Rightarrow> pigen_rtl_name_request \<Rightarrow> bool" where
  "named names r \<longleftrightarrow> (\<exists>n \<in> set names. request_matches_name n r)"

lemma named_append [simp]: "named names r \<Longrightarrow> named (names @ xs) r"
  by (auto simp: named_def)

lemma named_match: "requests_match r s \<Longrightarrow> named names r \<Longrightarrow> named names s"
  by (auto simp: named_def requests_match_def request_matches_name_def same_identity_def)

lemma append_name_simps [simp]:
  "length (append_name names r tx) = Suc (length names)" "named (append_name names r tx) r"
  "append_name names r tx = names @ [\<lparr>name_origin = request_origin r, name_kind = request_kind r, name_text = tx\<rparr>]"
  by (simp_all add: append_name_def named_def request_matches_name_def same_identity_def)

lemma publish_names_all:
  "length known + a + length rest \<le> PIGEN_INVALID_ID \<Longrightarrow> names = known @ xs \<Longrightarrow> length xs = a \<Longrightarrow>
    \<forall>(r, i) \<in> set earlier. i < length names \<and> named names r \<Longrightarrow>
    publish_names manager names staged (zip rest (resolve_requests known earlier a rest)) = Some (Value names') \<Longrightarrow>
    \<forall>r \<in> set rest. named names' r"
proof (induction rest arbitrary: names xs a earlier staged)
  case Nil
  then show ?case by simp
next
  case (Cons r rest)
  let ?more = "\<lambda>ns. \<exists>added. names' = ns @ added"
  have skip: "\<forall>r \<in> set (r # rest). named names' r" if i: "i < length names" and nr: "named names r"
    and eq: "resolve_requests known earlier a (r # rest) = i # resolve_requests known (earlier @ [(r, i)]) a rest" for i
  proof -
    have run: "publish_names manager names (staged @ [None])
        (zip rest (resolve_requests known (earlier @ [(r, i)]) a rest)) = Some (Value names')"
      using Cons.prems(5) [unfolded eq] i by simp
    have "\<forall>r \<in> set rest. named names' r"
      by (rule Cons.IH [OF _ Cons.prems(2,3) _ run]) (use Cons.prems(1,4) i nr in auto)
    moreover have "named names' r" using publish_fresh [OF run] nr by auto
    ultimately show ?thesis by simp
  qed
  show ?case
  proof (cases "first_index (\<lambda>known. request_matches_name known r) known")
    case (Some j)
    then have j: "j < length known" "request_matches_name (known ! j) r" using first_index_Some by blast+
    then have "named names r" using Cons.prems(2) by (auto simp: named_def)
    with j Cons.prems(1,2) show ?thesis by (intro skip [of j]) (simp_all add: Some)
  next
    case none: None
    show ?thesis
    proof (cases "first_index (\<lambda>(s, i). requests_match s r) earlier")
      case (Some j)
      then have j: "j < length earlier" "requests_match (fst (earlier ! j)) r"
        using first_index_Some [OF Some] by (auto split: prod.splits)
      then have "earlier ! j \<in> set earlier" by simp
      with Cons.prems(4) have "snd (earlier ! j) < length names" "named names (fst (earlier ! j))"
        by (metis (no_types, lifting) case_prod_beta)+
      with j named_match show ?thesis by (intro skip [of "snd (earlier ! j)"]) (auto simp: none Some)
    next
      case None
      let ?i = "length known + a"
      have i: "u32 ?i = ?i" "?i = length names" using Cons.prems(1-3) by simp_all
      have eq: "resolve_requests known earlier a (r # rest) =
          ?i # resolve_requests known (earlier @ [(r, ?i)]) (a + 1) rest"
        using none None i(1) by (simp del: first_index_None add: Let_def)
      obtain tx st where run: "publish_names manager (append_name names r tx) st
          (zip rest (resolve_requests known (earlier @ [(r, ?i)]) (a + 1) rest)) = Some (Value names')"
        using Cons.prems(5) unfolding eq
        by (auto simp: i(2) bind_outcome_Value split: option.splits if_splits)
      have "\<forall>r \<in> set rest. named names' r"
      proof (rule Cons.IH [OF _ _ _ _ run])
        show "append_name names r tx = known @ (xs @ [\<lparr>name_origin = request_origin r, name_kind = request_kind r, name_text = tx\<rparr>])"
          using Cons.prems(2) by simp
      qed (use Cons.prems(1,3,4) i(2) in \<open>auto simp: less_Suc_eq simp del: append_name_simps(3) simp: append_name_def named_def request_matches_name_def same_identity_def\<close>)
      moreover have "named names' r" using publish_fresh [OF run] named_append append_name_simps(2) by metis
      ultimately show ?thesis by simp
    qed
  qed
qed

lemma u32_le: "u32 n \<le> n"
  by (simp add: u32_def)

lemma publish_again:
  assumes "\<forall>r \<in> set rest. named known r"
  shows "publish_names manager known staged (zip rest (resolve_requests known earlier a rest)) = Some (Value known)"
  using assms(1)
proof (induction rest arbitrary: earlier staged)
  case (Cons r rest)
  then obtain j where j: "first_index (\<lambda>known. request_matches_name known r) known = Some j"
    by (cases "first_index (\<lambda>known. request_matches_name known r) known") (auto simp: named_def)
  have "u32 j < length known" using first_index_lt [OF j] by (rule le_less_trans [OF u32_le])
  with j Cons show ?case by simp
qed simp

section \<open>Whole calls\<close>

lemma assign_names_Value:
  assumes "requests \<noteq> []" and "list_all (request_valid manager) requests"
    and "pigen_rtl_assign_names m manager requests = Some (Value (r, m'))"
  obtains names where "m' = m\<lparr>rtl_names := names\<rparr>" and "r = 0"
    and "publish_names manager (rtl_names m) [] (zip requests (resolve_requests (rtl_names m) [] 0 requests)) =
           Some (Value names)"
proof -
  let ?run = "publish_names manager (rtl_names m) [] (zip requests (resolve_requests (rtl_names m) [] 0 requests))"
  obtain x where x: "?run = Some x" using publish_ends by blast
  from assms have eq: "and_then x (\<lambda>names. Value (0, m\<lparr>rtl_names := names\<rparr>)) = Value (r, m')"
    by (simp add: pigen_rtl_assign_names_def x)
  then obtain names where "x = Value names" by (cases x) auto
  with eq x that show thesis by auto
qed

definition internal_request :: "pigen_rtl_name_kind \<Rightarrow> pigen_rtl_name_request" where
  "internal_request kind =
     \<lparr>request_kind = kind, request_origin = \<lparr>span_source = PIGEN_INVALID_ID, span_start = 0, span_end = 0\<rparr>\<rparr>"

definition valid_signal_name :: pigen_rtl_name where
  "valid_signal_name = \<lparr>name_origin = \<lparr>span_source = 0, span_start = 0, span_end = 5\<rparr>, name_kind = PIGEN_RTL_NAME_SOURCE,
     name_text = ''valid''\<rparr>"

definition internal_name :: "pigen_rtl_name_kind \<Rightarrow> string \<Rightarrow> pigen_rtl_name" where
  "internal_name kind name =
     \<lparr>name_origin = request_origin (internal_request kind), name_kind = kind, name_text = name\<rparr>"

definition named_model :: pigen_rtl_model where
  "named_model = pigen_free_rtl_model\<lparr>rtl_names := [valid_signal_name]\<rparr>"

lemma sample_assigned:
  "pigen_rtl_assign_names named_model [] [internal_request PIGEN_RTL_NAME_PAYLOAD, internal_request PIGEN_RTL_NAME_VALID] =
     Some (Value (0, named_model\<lparr>rtl_names := [valid_signal_name, internal_name PIGEN_RTL_NAME_PAYLOAD ''payload'',
       internal_name PIGEN_RTL_NAME_VALID ''valid_1'']\<rparr>))"
  by (simp add: pigen_rtl_assign_names_def named_model_def pigen_free_rtl_model_def request_valid_def internal_request_def
      internal_name_def valid_signal_name_def request_matches_name_def same_identity_def requests_match_def Let_def
      append_name_def unique_name_def role_stem_def name_taken_def suffixed_name_def digit_def decimal.simps [of "Suc 0"] char_of_def bit_0
      suffix_loop.simps u32_def PIGEN_INVALID_ID_def del: first_index_None)

text \<open>
  C33: Every naming call ends, and the names it adds to the model keep all earlier names in place: a name of an
  internal role never has the text of a name before it, published earlier or in the same call. (The suffix
  loop has no bound in the code; it ends because the model holds finitely many names.)
\<close>

theorem names_distinct:
  "(\<exists>result. pigen_rtl_assign_names m manager requests = Some result) \<and>
   (\<forall>r m'. pigen_rtl_assign_names m manager requests = Some (Value (r, m')) \<longrightarrow>
      (\<exists>added. m' = m\<lparr>rtl_names := rtl_names m @ added\<rparr> \<and>
        (\<forall>j < length added. name_kind (added ! j) \<noteq> PIGEN_RTL_NAME_SOURCE \<longrightarrow>
           name_text (added ! j) \<notin> name_text ` set (rtl_names m @ take j added))))"
proof (cases "requests = [] \<or> \<not> list_all (request_valid manager) requests")
  case True
  then show ?thesis by (auto simp: pigen_rtl_assign_names_def intro!: exI [of _ "[]"])
next
  case False
  have ends: "\<exists>result. pigen_rtl_assign_names m manager requests = Some result"
    using publish_ends [of manager "rtl_names m" "[]"] False by (auto simp: pigen_rtl_assign_names_def)
  have "\<exists>added. m' = m\<lparr>rtl_names := rtl_names m @ added\<rparr> \<and> fresh_internal (rtl_names m) added"
    if "pigen_rtl_assign_names m manager requests = Some (Value (r, m'))" for r m'
    using assign_names_Value [of requests manager m r m'] publish_fresh False that by (metis (full_types))
  with ends show ?thesis unfolding fresh_internal_def by blast
qed

theorem names_distinct_witness:
  "''valid_1'' \<notin> name_text ` set [valid_signal_name, internal_name PIGEN_RTL_NAME_PAYLOAD ''payload'']"
proof -
  obtain added where "named_model\<lparr>rtl_names := [valid_signal_name, internal_name PIGEN_RTL_NAME_PAYLOAD ''payload'',
       internal_name PIGEN_RTL_NAME_VALID ''valid_1'']\<rparr> = named_model\<lparr>rtl_names := rtl_names named_model @ added\<rparr>"
    and new: "\<forall>j < length added. name_kind (added ! j) \<noteq> PIGEN_RTL_NAME_SOURCE \<longrightarrow>
           name_text (added ! j) \<notin> name_text ` set (rtl_names named_model @ take j added)"
    using conjunct2 [OF names_distinct, rule_format, OF sample_assigned] by blast
  then have "added = [internal_name PIGEN_RTL_NAME_PAYLOAD ''payload'', internal_name PIGEN_RTL_NAME_VALID ''valid_1'']"
    by (simp add: named_model_def pigen_free_rtl_model_def)
  with new [rule_format, of 1] show ?thesis by (simp add: internal_name_def named_model_def)
qed

text \<open>
  C34: Repeating an accepted call changes nothing: every request finds the name of its identity, so the second
  call adds no name, whatever the first one had to add.
\<close>

theorem names_stable:
  assumes "pigen_rtl_assign_names m manager requests = Some (Value (r, m'))"
    and "requests \<noteq> []" and "list_all (request_valid manager) requests"
    and "length (rtl_names m) + length requests \<le> PIGEN_INVALID_ID"
  shows "pigen_rtl_assign_names m' manager requests = Some (Value (r, m'))"
proof -
  obtain names where m': "m' = m\<lparr>rtl_names := names\<rparr>" and r: "r = 0" and
    run: "publish_names manager (rtl_names m) [] (zip requests (resolve_requests (rtl_names m) [] 0 requests)) =
           Some (Value names)"
    using assign_names_Value [OF assms(2,3,1)] by blast
  have all: "\<forall>r \<in> set requests. named names r"
    by (rule publish_names_all [OF _ _ _ _ run]) (use assms(4) in simp_all)
  have "publish_names manager names [] (zip requests (resolve_requests names [] 0 requests)) = Some (Value names)"
    by (rule publish_again [OF all])
  then show ?thesis using assms(2,3) by (simp add: m' r pigen_rtl_assign_names_def)
qed

theorem names_stable_witness:
  "\<exists>m'. pigen_rtl_assign_names named_model [] [internal_request PIGEN_RTL_NAME_PAYLOAD, internal_request PIGEN_RTL_NAME_VALID] =
       Some (Value (0, m')) \<and>
     pigen_rtl_assign_names m' [] [internal_request PIGEN_RTL_NAME_PAYLOAD, internal_request PIGEN_RTL_NAME_VALID] =
       Some (Value (0, m'))"
  using names_stable [OF sample_assigned] sample_assigned
  by (auto simp: request_valid_def internal_request_def named_model_def PIGEN_INVALID_ID_def)

text \<open>
  C35: The staged text of a request that reuses a name is read before it is set: a call that asks twice for one
  internal name and then for a name of another role has no defined behaviour.
\<close>

theorem repeated_request_undefined:
  assumes "rtl_names m = []" and "request_kind r \<noteq> request_kind s"
    and "request_kind r \<notin> {PIGEN_RTL_NAME_KIND_INVALID, PIGEN_RTL_NAME_SOURCE}"
    and "request_kind s \<notin> {PIGEN_RTL_NAME_KIND_INVALID, PIGEN_RTL_NAME_SOURCE}"
  shows "pigen_rtl_assign_names m manager [r, r, s] = Some Undefined"
proof -
  have "role_stem (request_kind r) \<noteq> role_stem (request_kind s)"
    using assms(2-4) by (cases "request_kind r"; cases "request_kind s") (simp_all add: role_stem_def)
  moreover have "resolve_requests [] [] 0 [r, r, s] = [0, 0, 1]"
    using assms(2) by (simp add: Let_def requests_match_def same_identity_def u32_def)
  ultimately show ?thesis
    using assms by (simp add: pigen_rtl_assign_names_def request_valid_def unique_name_def name_taken_def append_name_def)
qed

theorem repeated_request_undefined_witness:
  "pigen_rtl_assign_names pigen_free_rtl_model [] [internal_request PIGEN_RTL_NAME_VALID,
     internal_request PIGEN_RTL_NAME_VALID, internal_request PIGEN_RTL_NAME_READY] = Some Undefined"
  by (rule repeated_request_undefined) (simp_all add: internal_request_def pigen_free_rtl_model_def)

end
