(* ===== verification/Expanded.thy ===== *)
theory Expanded
  imports Lexer
begin

text \<open>
  The expanded source of src/include/pigen/preprocess.h: tokens with their provenance. An origin is a span of
  a file, or points to the origins of the macro invocation and of the replacement or argument token it
  comes from. The two walks of src/src/preprocess.c along these links count down from the number of origins.
\<close>

datatype pigen_token_origin =
    PIGEN_ORIGIN_SOURCE pigen_source_span
  | PIGEN_ORIGIN_MACRO_REPLACEMENT id id id
  | PIGEN_ORIGIN_MACRO_ARGUMENT id id id id

record pigen_expanded_token =
  expanded_kind :: pigen_token_kind
  token_origin :: id

record pigen_macro_parameter =
  parameter_name :: pigen_source_span
  parameter_origin :: id

record pigen_macro_definition =
  macro_name :: pigen_source_span
  macro_span :: pigen_source_span
  first_parameter :: nat
  macro_parameter_count :: nat
  first_replacement :: nat
  replacement_count :: nat
  function_like :: bool
  macro_active :: bool

record pigen_source_file_view =
  viewed_source :: id
  viewed_tokens :: "pigen_token list"

record pigen_source_include =
  include_directive :: pigen_source_span
  include_path :: pigen_source_span
  included_source :: id

record pigen_source_view =
  written_root :: id
  written_files :: "pigen_source_file_view list"
  written_includes :: "pigen_source_include list"

record pigen_expanded_source =
  managed_sources :: pigen_source_manager
  expanded_root :: id
  expanded_tokens :: "pigen_expanded_token list"
  token_origins :: "pigen_token_origin list"
  macro_definitions :: "pigen_macro_definition list"
  macro_parameters :: "pigen_macro_parameter list"
  replacement_tokens :: "pigen_expanded_token list"

record pigen_preprocess_result =
  written_view :: pigen_source_view
  expanded_source :: pigen_expanded_source

section \<open>Accessors\<close>

definition invalid_span :: pigen_source_span where
  "invalid_span = \<lparr>span_source = PIGEN_INVALID_ID, span_start = 0, span_end = 0\<rparr>"

definition pigen_expanded_token_get :: "pigen_expanded_source \<Rightarrow> id \<Rightarrow> pigen_expanded_token option" where
  "pigen_expanded_token_get source tok =
     (if tok = PIGEN_INVALID_ID \<or> tok \<ge> length (expanded_tokens source) then None
      else Some (expanded_tokens source ! tok))"

definition pigen_origin_get :: "pigen_expanded_source \<Rightarrow> id \<Rightarrow> pigen_token_origin option" where
  "pigen_origin_get source origin =
     (if origin = PIGEN_INVALID_ID \<or> origin \<ge> length (token_origins source) then None
      else Some (token_origins source ! origin))"

definition pigen_source_view_file :: "pigen_source_view \<Rightarrow> id \<Rightarrow> pigen_source_file_view option" where
  "pigen_source_view_file view source = find (\<lambda>file. viewed_source file = source) (written_files view)"

text \<open>The loops \<open>while (remaining-- && ...)\<close>.\<close>

fun spelling_walk :: "pigen_expanded_source \<Rightarrow> nat \<Rightarrow> id \<Rightarrow> pigen_source_span" where
  "spelling_walk source 0 origin = invalid_span"
| "spelling_walk source (Suc remaining) origin =
     (case pigen_origin_get source origin of
        None \<Rightarrow> invalid_span
      | Some (PIGEN_ORIGIN_SOURCE sp) \<Rightarrow> sp
      | Some (PIGEN_ORIGIN_MACRO_REPLACEMENT invocation replacement macro) \<Rightarrow>
          spelling_walk source remaining replacement
      | Some (PIGEN_ORIGIN_MACRO_ARGUMENT invocation parameter argument macro) \<Rightarrow>
          spelling_walk source remaining argument)"

definition pigen_origin_spelling_span :: "pigen_expanded_source \<Rightarrow> id \<Rightarrow> pigen_source_span" where
  "pigen_origin_spelling_span source origin = spelling_walk source (length (token_origins source)) origin"

fun expansion_walk :: "pigen_expanded_source \<Rightarrow> nat \<Rightarrow> id \<Rightarrow> pigen_source_span" where
  "expansion_walk source 0 origin = invalid_span"
| "expansion_walk source (Suc remaining) origin =
     (case pigen_origin_get source origin of
        None \<Rightarrow> invalid_span
      | Some (PIGEN_ORIGIN_SOURCE sp) \<Rightarrow> sp
      | Some (PIGEN_ORIGIN_MACRO_REPLACEMENT invocation replacement macro) \<Rightarrow>
          expansion_walk source remaining invocation
      | Some (PIGEN_ORIGIN_MACRO_ARGUMENT invocation parameter argument macro) \<Rightarrow>
          expansion_walk source remaining invocation)"

definition pigen_origin_expansion_span :: "pigen_expanded_source \<Rightarrow> id \<Rightarrow> pigen_source_span" where
  "pigen_origin_expansion_span source origin = expansion_walk source (length (token_origins source)) origin"

definition pigen_expanded_token_text :: "pigen_expanded_source \<Rightarrow> pigen_expanded_token \<Rightarrow> string option" where
  "pigen_expanded_token_text source tok =
     pigen_source_span_text (managed_sources source) (pigen_origin_spelling_span source (token_origin tok))"

definition token_text_is :: "pigen_expanded_source \<Rightarrow> pigen_expanded_token \<Rightarrow> string \<Rightarrow> bool" where
  "token_text_is source tok expected \<longleftrightarrow> pigen_expanded_token_text source tok = Some expected"

end
