(* ===== verification/Preprocess.thy ===== *)
theory Preprocess
  imports Expanded
begin

text \<open>
  The preprocessor of src/src/preprocess.c: macro expansion with provenance, conditional compilation and file
  inclusion. A routine that reports an error through \<open>fail\<close> is \<open>Refused\<close>, \<open>pigen_fail\<close> is \<open>Fatal\<close>, a read
  outside an array is \<open>Unread\<close>, and \<open>Deeper\<close> says that the bound on the nesting was used up. A position in the
  array of raw tokens is the list of the tokens from there on. The array of local tokens that an expansion
  builds and the array it appends to are lists; the stacks of running expansions and of open files are
  arguments, as every push is undone on return; the arrays of the open conditionals and of the result are state.
\<close>

datatype 'a attempt =
    Done 'a
  | Refused pigen_source_span "string option"
  | Fatal string
  | Unread
  | Deeper

fun attempt_then :: "'a attempt \<Rightarrow> ('a \<Rightarrow> 'b attempt) \<Rightarrow> 'b attempt" where
  "attempt_then (Done x) f = f x"
| "attempt_then (Refused sp message) f = Refused sp message"
| "attempt_then (Fatal message) f = Fatal message"
| "attempt_then Unread f = Unread"
| "attempt_then Deeper f = Deeper"

record conditional_frame =
  conditional_opening :: pigen_source_span
  parent_active :: bool
  branch_taken :: bool
  branch_active :: bool
  saw_else :: bool

datatype conditional_kind =
    CONDITIONAL_NONE | CONDITIONAL_IFDEF | CONDITIONAL_IFNDEF | CONDITIONAL_ELSIF | CONDITIONAL_ELSE
  | CONDITIONAL_ENDIF

record preprocessor =
  preprocessor_result :: pigen_expanded_source
  preprocessor_written :: pigen_source_view
  conditionals :: "conditional_frame list"

text \<open>The callback that selects the file of an include, or an error message.\<close>

type_synonym pigen_include_loader = "id \<Rightarrow> string \<Rightarrow> string option + id"

section \<open>Origins and tokens\<close>

definition add_origin ::
    "pigen_expanded_source \<Rightarrow> pigen_token_origin \<Rightarrow> (id \<times> pigen_expanded_source) attempt" where
  "add_origin result origin =
     (if length (token_origins result) = PIGEN_INVALID_ID then Fatal ''too many token origins''
      else Done (u32 (length (token_origins result)),
        result\<lparr>token_origins := token_origins result @ [origin]\<rparr>))"

definition add_source_origin ::
    "pigen_expanded_source \<Rightarrow> pigen_source_span \<Rightarrow> (id \<times> pigen_expanded_source) attempt" where
  "add_source_origin result sp = add_origin result (PIGEN_ORIGIN_SOURCE sp)"

definition add_replacement_origin ::
    "pigen_expanded_source \<Rightarrow> id \<Rightarrow> id \<Rightarrow> id \<Rightarrow> (id \<times> pigen_expanded_source) attempt" where
  "add_replacement_origin result invocation replacement macro =
     add_origin result (PIGEN_ORIGIN_MACRO_REPLACEMENT invocation replacement macro)"

definition add_argument_origin ::
    "pigen_expanded_source \<Rightarrow> id \<Rightarrow> id \<Rightarrow> id \<Rightarrow> id \<Rightarrow> (id \<times> pigen_expanded_source) attempt" where
  "add_argument_origin result invocation parameter argument macro =
     add_origin result (PIGEN_ORIGIN_MACRO_ARGUMENT invocation parameter argument macro)"

definition append_replacement_token ::
    "pigen_expanded_source \<Rightarrow> pigen_expanded_token \<Rightarrow> pigen_expanded_source" where
  "append_replacement_token result tok = result\<lparr>replacement_tokens := replacement_tokens result @ [tok]\<rparr>"

definition append_macro_parameter ::
    "pigen_expanded_source \<Rightarrow> pigen_macro_parameter \<Rightarrow> pigen_expanded_source" where
  "append_macro_parameter result parameter =
     result\<lparr>macro_parameters := macro_parameters result @ [parameter]\<rparr>"

definition raw_span :: "id \<Rightarrow> pigen_token \<Rightarrow> pigen_source_span" where
  "raw_span source tok = \<lparr>span_source = source, span_start = token_start tok, span_end = token_end tok\<rparr>"

text \<open>Tokens of a file, each with an origin of its own: the loop that fills a segment.\<close>

fun source_segment ::
    "pigen_expanded_source \<Rightarrow> id \<Rightarrow> pigen_token list \<Rightarrow> (pigen_expanded_token list \<times> pigen_expanded_source) attempt" where
  "source_segment result source [] = Done ([], result)"
| "source_segment result source (tok # ts) =
     attempt_then (add_source_origin result (raw_span source tok)) (\<lambda>(origin, result1).
     attempt_then (source_segment result1 source ts) (\<lambda>(rest, result2).
       Done (\<lparr>expanded_kind = token_kind tok, token_origin = origin\<rparr> # rest, result2)))"

section \<open>Macros\<close>

definition span_equal_text :: "pigen_source_manager \<Rightarrow> pigen_source_span \<Rightarrow> pigen_source_span \<Rightarrow> bool" where
  "span_equal_text sources left right \<longleftrightarrow>
     (case (pigen_source_span_text sources left, pigen_source_span_text sources right) of
        (Some a, Some b) \<Rightarrow> a = b
      | _ \<Rightarrow> False)"

text \<open>The search runs from the last definition down; None is the invalid identity.\<close>

definition find_macro :: "pigen_expanded_source \<Rightarrow> pigen_source_span \<Rightarrow> id option" where
  "find_macro result name =
     map_option u32 (find (\<lambda>i. macro_active (macro_definitions result ! i) \<and>
         span_equal_text (managed_sources result) (macro_name (macro_definitions result ! i)) name)
       (rev [0..<length (macro_definitions result)]))"

definition deactivate :: "pigen_expanded_source \<Rightarrow> id option \<Rightarrow> pigen_expanded_source" where
  "deactivate result known =
     (case known of
        None \<Rightarrow> result
      | Some i \<Rightarrow> result\<lparr>macro_definitions :=
          (macro_definitions result)[i := (macro_definitions result ! i)\<lparr>macro_active := False\<rparr>]\<rparr>)"

definition add_macro ::
    "pigen_expanded_source \<Rightarrow> pigen_macro_definition \<Rightarrow> (id \<times> pigen_expanded_source) attempt" where
  "add_macro result macro =
     (let result1 = deactivate result (find_macro result (macro_name macro))
      in if length (macro_definitions result1) = PIGEN_INVALID_ID then Fatal ''too many macro definitions''
         else Done (u32 (length (macro_definitions result1)),
           result1\<lparr>macro_definitions := macro_definitions result1 @ [macro]\<rparr>))"

definition parameter_index ::
    "pigen_expanded_source \<Rightarrow> pigen_macro_definition \<Rightarrow> pigen_expanded_token \<Rightarrow> nat option" where
  "parameter_index result macro tok =
     (if expanded_kind tok \<noteq> PIGEN_TOKEN_IDENTIFIER then None
      else let spelling = pigen_origin_spelling_span result (token_origin tok)
        in first_index (\<lambda>p. span_equal_text (managed_sources result) (parameter_name p) spelling)
          (slice (first_parameter macro) (macro_parameter_count macro) (macro_parameters result)))"

section \<open>Expansion\<close>

text \<open>The tokens of one argument, with argument origins.\<close>

fun substitute_argument ::
    "pigen_expanded_source \<Rightarrow> id \<Rightarrow> id \<Rightarrow> id \<Rightarrow> pigen_expanded_token list \<Rightarrow>
     (pigen_expanded_token list \<times> pigen_expanded_source) attempt" where
  "substitute_argument result invocation formal macro_id [] = Done ([], result)"
| "substitute_argument result invocation formal macro_id (tok # rest) =
     attempt_then (add_argument_origin result invocation formal (token_origin tok) macro_id) (\<lambda>(origin, result1).
     attempt_then (substitute_argument result1 invocation formal macro_id rest) (\<lambda>(more, result2).
       Done (tok\<lparr>token_origin := origin\<rparr> # more, result2)))"

text \<open>The replacement tokens of a macro with its arguments put in.\<close>

fun substitute ::
    "pigen_expanded_source \<Rightarrow> pigen_macro_definition \<Rightarrow> id \<Rightarrow> id \<Rightarrow> pigen_expanded_token list list \<Rightarrow>
     pigen_expanded_token list \<Rightarrow> (pigen_expanded_token list \<times> pigen_expanded_source) attempt" where
  "substitute result macro macro_id invocation arguments [] = Done ([], result)"
| "substitute result macro macro_id invocation arguments (replacement # rest) =
     attempt_then
       (case parameter_index result macro replacement of
          Some parameter \<Rightarrow>
            substitute_argument result invocation
              (parameter_origin (macro_parameters result ! (first_parameter macro + parameter))) macro_id
              (arguments ! parameter)
        | None \<Rightarrow>
            attempt_then (add_replacement_origin result invocation (token_origin replacement) macro_id)
              (\<lambda>(origin, result1). Done ([replacement\<lparr>token_origin := origin\<rparr>], result1)))
       (\<lambda>(expanded, result1).
         attempt_then (substitute result1 macro macro_id invocation arguments rest) (\<lambda>(more, result2).
           Done (expanded @ more, result2)))"

text \<open>
  The argument list after its opening parenthesis: \<open>current\<close> are the tokens since the start of the argument
  and \<open>collected\<close> the arguments kept so far, of \<open>actual\<close> arguments seen. The result has the tokens after the closing parenthesis.
\<close>

fun macro_argument_list ::
    "pigen_expanded_source \<Rightarrow> pigen_macro_definition \<Rightarrow> id \<Rightarrow> nat \<Rightarrow> nat \<Rightarrow> nat \<Rightarrow> nat \<Rightarrow>
     pigen_expanded_token list \<Rightarrow> pigen_expanded_token list list \<Rightarrow> pigen_expanded_token list \<Rightarrow>
     (pigen_expanded_token list list \<times> pigen_expanded_token list) attempt" where
  "macro_argument_list result macro invocation actual parentheses brackets braces current collected [] =
     Refused (pigen_origin_expansion_span result invocation) (Some ''unterminated macro argument list'')"
| "macro_argument_list result macro invocation actual parentheses brackets braces current collected (tok # rest) =
     (let continue = (\<lambda>p b c. macro_argument_list result macro invocation actual p b c (current @ [tok]) collected rest);
          keep = (if actual < macro_parameter_count macro then collected @ [current] else collected)
      in if token_text_is result tok ''('' then continue (parentheses + 1) brackets braces
         else if token_text_is result tok '')'' then
           (if parentheses - 1 \<noteq> 0 then continue (parentheses - 1) brackets braces
            else
              let given = current \<noteq> [] \<or> macro_parameter_count macro \<noteq> 0;
                  total = (if given then actual + 1 else actual)
              in if total \<noteq> macro_parameter_count macro
                 then Refused (pigen_origin_expansion_span result invocation)
                   (Some ''macro invocation has the wrong number of arguments'')
                 else Done (if given then keep else collected, rest))
         else if token_text_is result tok ''['' then continue parentheses (brackets + 1) braces
         else if token_text_is result tok '']'' then continue parentheses (brackets - 1) braces
         else if token_text_is result tok ''{'' then continue parentheses brackets (braces + 1)
         else if token_text_is result tok ''}'' then continue parentheses brackets (braces - 1)
         else if parentheses = 1 \<and> brackets = 0 \<and> braces = 0 \<and> token_text_is result tok '','' then
           macro_argument_list result macro invocation (actual + 1) parentheses brackets braces [] keep rest
         else continue parentheses brackets braces)"

definition parse_macro_arguments ::
    "pigen_expanded_source \<Rightarrow> pigen_macro_definition \<Rightarrow> id \<Rightarrow> pigen_expanded_token list \<Rightarrow>
     (pigen_expanded_token list list \<times> pigen_expanded_token list) attempt" where
  "parse_macro_arguments result macro invocation ts =
     macro_argument_list result macro invocation 0 1 0 0 [] [] ts"

lemma macro_argument_list_shorter:
  "macro_argument_list result macro invocation actual p b c current collected ts = Done (arguments, rest) \<Longrightarrow>
    length rest < length ts"
proof (induction ts arbitrary: actual p b c current collected)
  case (Cons tok ts)
  from Cons.prems show ?case by (auto simp: Let_def less_Suc_eq split: if_splits dest!: Cons.IH)
qed simp

lemma parse_macro_arguments_shorter:
  "parse_macro_arguments result macro invocation ts = Done (arguments, rest) \<Longrightarrow> length rest < length ts"
  unfolding parse_macro_arguments_def by (rule macro_argument_list_shorter)

text \<open>
  The tokens are read from the front; \<open>stack\<close> is the array of running expansions, \<open>out\<close> the array appended to.
\<close>

function (sequential) expand_tokens ::
    "nat \<Rightarrow> pigen_expanded_source \<Rightarrow> id list \<Rightarrow> pigen_expanded_token list \<Rightarrow> pigen_expanded_token list \<Rightarrow>
     (pigen_expanded_token list \<times> pigen_expanded_source) attempt"
  and expand_macro ::
    "nat \<Rightarrow> pigen_expanded_source \<Rightarrow> id list \<Rightarrow> pigen_expanded_token list \<Rightarrow> id \<Rightarrow> id \<Rightarrow>
     pigen_expanded_token list list \<Rightarrow> (pigen_expanded_token list \<times> pigen_expanded_source) attempt" where
  "expand_tokens depth result stack out [] = Done (out, result)"
| "expand_tokens depth result stack out [tok] = Done (out @ [tok], result)"
| "expand_tokens depth result stack out (tok # name # rest) =
     (if token_text_is result tok ''`'' \<and> expanded_kind name = PIGEN_TOKEN_IDENTIFIER then
        (case find_macro result (pigen_origin_spelling_span result (token_origin name)) of
           None \<Rightarrow> Refused (pigen_origin_expansion_span result (token_origin name))
             (Some ''undefined macro or unsupported compiler directive'')
         | Some macro \<Rightarrow>
             if function_like (macro_definitions result ! macro) then
               (if rest = [] \<or> \<not> token_text_is result (hd rest) ''('' then
                  Refused (pigen_origin_expansion_span result (token_origin name))
                    (Some ''function-like macro requires an argument list'')
                else
                  case parse_macro_arguments result (macro_definitions result ! macro) (token_origin name) (tl rest) of
                    Done (arguments, after) \<Rightarrow>
                      attempt_then (expand_macro depth result stack out macro (token_origin name) arguments)
                        (\<lambda>(out1, result1). expand_tokens depth result1 stack out1 after)
                  | Refused sp message \<Rightarrow> Refused sp message
                  | Fatal message \<Rightarrow> Fatal message
                  | Unread \<Rightarrow> Unread
                  | Deeper \<Rightarrow> Deeper)
             else
               attempt_then (expand_macro depth result stack out macro (token_origin name) [])
                 (\<lambda>(out1, result1). expand_tokens depth result1 stack out1 rest))
      else expand_tokens depth result stack (out @ [tok]) (name # rest))"
| "expand_macro 0 result stack out macro_id invocation arguments = Deeper"
| "expand_macro (Suc depth) result stack out macro_id invocation arguments =
     (if macro_id \<in> set stack then
        Refused (pigen_origin_expansion_span result invocation) (Some ''recursive macro expansion'')
      else
        let macro = macro_definitions result ! macro_id
        in attempt_then
          (substitute result macro macro_id invocation arguments
            (slice (first_replacement macro) (replacement_count macro) (replacement_tokens result)))
          (\<lambda>(expanded, result1). expand_tokens depth result1 (stack @ [macro_id]) out expanded))"
  by pat_completeness auto
termination
  by (relation "inv_image (less_than <*lex*> less_than)
    (\<lambda>x. case x of Inl (depth, _, _, _, ts) \<Rightarrow> (depth, Suc (length ts)) | Inr (depth, _) \<Rightarrow> (depth, 0))")
    (auto dest!: parse_macro_arguments_shorter)

text \<open>As deep as there are macros: no macro can run inside itself.\<close>

definition expand_all ::
    "pigen_expanded_source \<Rightarrow> pigen_expanded_token list \<Rightarrow> pigen_expanded_token list \<Rightarrow>
     (pigen_expanded_token list \<times> pigen_expanded_source) attempt" where
  "expand_all result out ts = expand_tokens (Suc (length (macro_definitions result))) result [] out ts"

end
