(* ===== verification/Directives.thy ===== *)
theory Directives
  imports Preprocess
begin

text \<open>
  The compiler directives of src/src/preprocess.c and its main loop: conditional compilation, macro
  definitions over continued lines, file inclusion, and the segments between directives, which are expanded.
\<close>

section \<open>Lines of raw tokens\<close>

definition raw_directive_is :: "string \<Rightarrow> pigen_token list \<Rightarrow> string \<Rightarrow> bool" where
  "raw_directive_is bytes raw name =
     (case raw of
        tok # word # _ \<Rightarrow>
          pigen_token_is bytes tok ''`'' \<and> token_kind word = PIGEN_TOKEN_IDENTIFIER \<and>
          token_line word = token_line tok \<and> pigen_token_is bytes word name
      | _ \<Rightarrow> False)"

definition raw_conditional_kind :: "string \<Rightarrow> pigen_token list \<Rightarrow> conditional_kind" where
  "raw_conditional_kind bytes raw =
     (if raw_directive_is bytes raw ''ifdef'' then CONDITIONAL_IFDEF
      else if raw_directive_is bytes raw ''ifndef'' then CONDITIONAL_IFNDEF
      else if raw_directive_is bytes raw ''elsif'' then CONDITIONAL_ELSIF
      else if raw_directive_is bytes raw ''else'' then CONDITIONAL_ELSE
      else if raw_directive_is bytes raw ''endif'' then CONDITIONAL_ENDIF
      else CONDITIONAL_NONE)"

definition on_line :: "nat \<Rightarrow> pigen_token \<Rightarrow> bool" where
  "on_line line tok \<longleftrightarrow> token_kind tok \<noteq> PIGEN_TOKEN_EOF \<and> token_line tok = line"

text \<open>The tokens before and from \<open>raw_line_after\<close>, for a list that is not empty.\<close>

definition raw_line :: "pigen_token list \<Rightarrow> pigen_token list" where
  "raw_line raw = takeWhile (on_line (token_line (hd raw))) raw"

definition raw_line_after :: "pigen_token list \<Rightarrow> pigen_token list" where
  "raw_line_after raw = dropWhile (on_line (token_line (hd raw))) raw"

lemma raw_line_after_shorter: "raw_line raw \<noteq> [] \<Longrightarrow> length (raw_line_after raw) < length raw"
  by (cases raw) (auto simp: raw_line_def raw_line_after_def le_imp_less_Suc length_dropWhile_le split: if_splits)

definition continuation_status :: "string \<Rightarrow> pigen_token \<Rightarrow> int" where
  "continuation_status bytes tok =
     (if \<not> pigen_token_is bytes tok [backslash] then 0
      else
        let at = token_end tok;
            at1 = (if at < length bytes \<and> bytes ! at = CHR 0x0D then at + 1 else at)
        in if at1 < length bytes \<and> bytes ! at1 = newline then 1 else -1)"

text \<open>Whether the line ends a directive: no token after it continues it.\<close>

definition last_line :: "int \<Rightarrow> nat \<Rightarrow> pigen_token list \<Rightarrow> bool" where
  "last_line continued line after \<longleftrightarrow>
     continued \<noteq> 1 \<or> after = [] \<or> token_kind (hd after) = PIGEN_TOKEN_EOF \<or> token_line (hd after) \<noteq> line + 1"

function continued_directive_after :: "string \<Rightarrow> pigen_token list \<Rightarrow> pigen_token list attempt" where
  "continued_directive_after bytes raw =
     (if raw = [] then Unread
      else
        let continued = (if raw_line raw \<noteq> [] then continuation_status bytes (last (raw_line raw)) else 0)
        in if last_line continued (token_line (hd raw)) (raw_line_after raw) then Done (raw_line_after raw)
           else continued_directive_after bytes (raw_line_after raw))"
  by auto
termination
  by (relation "measure (\<lambda>(_, raw). length raw)") (auto intro!: raw_line_after_shorter simp: last_line_def split: if_splits)

declare continued_directive_after.simps [simp del]

text \<open>
  The tokens of a directive without its continuation marks, the end of its last token, and the tokens after it.
\<close>

function collect_logical_directive ::
    "id \<Rightarrow> string \<Rightarrow> pigen_token list \<Rightarrow> pigen_token list \<Rightarrow> nat \<Rightarrow>
     (pigen_token list \<times> nat \<times> pigen_token list) attempt" where
  "collect_logical_directive source bytes raw indices definition_end =
     (if raw = [] then Unread
      else
        let line = raw_line raw;
            continued = (if line \<noteq> [] then continuation_status bytes (last line) else 0);
            definition_end1 = (if line \<noteq> [] then token_end (last line) else definition_end);
            indices1 = indices @ (if continued \<noteq> 0 then butlast line else line)
        in if continued < 0 then
             Refused (raw_span source (last line))
               (Some ''macro continuation backslash must immediately precede newline'')
           else if last_line continued (token_line (hd raw)) (raw_line_after raw) then
             Done (indices1, definition_end1, raw_line_after raw)
           else collect_logical_directive source bytes (raw_line_after raw) indices1 definition_end1)"
  by auto
termination
  by (relation "measure (\<lambda>(_, _, raw, _). length raw)")
    (auto intro!: raw_line_after_shorter simp: last_line_def split: if_splits)

declare collect_logical_directive.simps [simp del]

section \<open>Conditional compilation\<close>

definition conditional_active :: "conditional_frame list \<Rightarrow> bool" where
  "conditional_active frames \<longleftrightarrow> frames = [] \<or> branch_active (last frames)"

text \<open>The list starts with the two tokens of the directive.\<close>

definition handle_conditional ::
    "preprocessor \<Rightarrow> id \<Rightarrow> pigen_token list \<Rightarrow> conditional_kind \<Rightarrow> (preprocessor \<times> pigen_token list) attempt" where
  "handle_conditional pp source raw kind =
     (let directive_span = \<lparr>span_source = source, span_start = token_start (raw ! 0), span_end = token_end (raw ! 1)\<rparr>;
          after = drop 2 raw;
          frames = conditionals pp
      in if kind \<in> {CONDITIONAL_IFDEF, CONDITIONAL_IFNDEF, CONDITIONAL_ELSIF} then
           if after = [] \<or> token_kind (hd after) \<noteq> PIGEN_TOKEN_IDENTIFIER then
             Refused directive_span (Some ''conditional macro directive requires a macro name'')
           else
             let name = raw_span source (hd after);
                 directive_span = directive_span\<lparr>span_end := span_end name\<rparr>;
                 defined = find_macro (preprocessor_result pp) name \<noteq> None
             in if kind \<noteq> CONDITIONAL_ELSIF then
                  let selected = (if kind = CONDITIONAL_IFDEF then defined else \<not> defined);
                      parent = conditional_active frames
                  in Done (pp\<lparr>conditionals := frames @ [\<lparr>conditional_opening = directive_span, parent_active = parent,
                      branch_taken = selected, branch_active = (parent \<and> selected), saw_else = False\<rparr>]\<rparr>, tl after)
                else if frames = [] then
                  Refused directive_span (Some ''`elsif has no matching conditional opener'')
                else if saw_else (last frames) then
                  Refused directive_span (Some ''`elsif cannot follow `else'')
                else
                  let frame = last frames
                  in Done (pp\<lparr>conditionals := butlast frames @
                      [frame\<lparr>branch_active := parent_active frame \<and> \<not> branch_taken frame \<and> defined,
                        branch_taken := branch_taken frame \<or> defined\<rparr>]\<rparr>, tl after)
         else if frames = [] then
           Refused directive_span (Some (if kind = CONDITIONAL_ELSE
             then ''`else has no matching conditional opener'' else ''`endif has no matching conditional opener''))
         else if kind = CONDITIONAL_ELSE then
           if saw_else (last frames) then
             Refused directive_span (Some ''conditional has more than one `else'')
           else
             let frame = last frames
             in Done (pp\<lparr>conditionals := butlast frames @
                 [frame\<lparr>branch_active := parent_active frame \<and> \<not> branch_taken frame,
                   branch_taken := True, saw_else := True\<rparr>]\<rparr>, after)
         else Done (pp\<lparr>conditionals := butlast frames\<rparr>, after))"

section \<open>Definitions of macros\<close>

text \<open>
  The parameter list after its opening parenthesis; parameters from \<open>first\<close> on belong to the new macro.
  The result has the tokens after the closing parenthesis.
\<close>

fun macro_parameter_list ::
    "pigen_expanded_source \<Rightarrow> id \<Rightarrow> string \<Rightarrow> pigen_token \<Rightarrow> nat \<Rightarrow> pigen_token list \<Rightarrow>
     (pigen_expanded_source \<times> pigen_token list) attempt" where
  "macro_parameter_list result source bytes name first [] =
     Refused (raw_span source name) (Some ''macro parameter list requires a name'')"
| "macro_parameter_list result source bytes name first (tok # rest) =
     (let parameter = raw_span source tok
      in if token_kind tok \<noteq> PIGEN_TOKEN_IDENTIFIER then
           Refused (raw_span source name) (Some ''macro parameter list requires a name'')
         else if list_ex (\<lambda>p. span_equal_text (managed_sources result) (parameter_name p) parameter)
             (drop first (macro_parameters result)) then
           Refused parameter (Some ''duplicate macro parameter name'')
         else attempt_then (add_source_origin result parameter) (\<lambda>(origin, result1).
           let result2 = append_macro_parameter result1 \<lparr>parameter_name = parameter, parameter_origin = origin\<rparr>
           in case rest of
                [] \<Rightarrow> Refused (raw_span source name) (Some ''unterminated macro parameter list'')
              | mark # others \<Rightarrow>
                  if pigen_token_is bytes mark '')'' then Done (result2, others)
                  else if \<not> pigen_token_is bytes mark '','' then
                    Refused (raw_span source name) (Some ''unterminated macro parameter list'')
                  else macro_parameter_list result2 source bytes name first others))"

fun add_replacements ::
    "pigen_expanded_source \<Rightarrow> id \<Rightarrow> pigen_token list \<Rightarrow> pigen_expanded_source attempt" where
  "add_replacements result source [] = Done result"
| "add_replacements result source (tok # rest) =
     attempt_then (add_source_origin result (raw_span source tok)) (\<lambda>(origin, result1).
       add_replacements
         (append_replacement_token result1 \<lparr>expanded_kind = token_kind tok, token_origin = origin\<rparr>) source rest)"

text \<open>The tokens after the name that give the replacement, when the parameter list has been read.\<close>

definition publish_macro ::
    "pigen_expanded_source \<Rightarrow> id \<Rightarrow> pigen_token \<Rightarrow> pigen_source_span \<Rightarrow> nat \<Rightarrow> bool \<Rightarrow> pigen_token list \<Rightarrow>
     pigen_expanded_source attempt" where
  "publish_macro result source name sp first is_function replacement =
     attempt_then (add_replacements result source replacement) (\<lambda>result1.
     attempt_then (add_macro result1
         \<lparr>macro_name = raw_span source name, macro_span = sp, first_parameter = first,
           macro_parameter_count = length (macro_parameters result) - first,
           first_replacement = length (replacement_tokens result), replacement_count = length replacement,
           function_like = is_function, macro_active = True\<rparr>) (\<lambda>(macro, result2).
       Done result2))"

text \<open>The part of \<open>define_macro\<close> from the name on: \<open>rest\<close> are the tokens after it.\<close>

definition read_macro ::
    "pigen_expanded_source \<Rightarrow> id \<Rightarrow> string \<Rightarrow> pigen_token \<Rightarrow> pigen_source_span \<Rightarrow> nat \<Rightarrow> pigen_token list \<Rightarrow>
     pigen_expanded_source attempt" where
  "read_macro result source bytes name sp first rest =
     (if rest \<noteq> [] \<and> pigen_token_is bytes (hd rest) ''('' \<and> token_end name = token_start (hd rest) then
        if tl rest \<noteq> [] \<and> pigen_token_is bytes (hd (tl rest)) '')'' then
          publish_macro result source name sp first True (tl (tl rest))
        else attempt_then (macro_parameter_list result source bytes name first (tl rest))
          (\<lambda>(result1, replacement). publish_macro result1 source name sp first True replacement)
      else publish_macro result source name sp first False rest)"

definition define_macro ::
    "preprocessor \<Rightarrow> id \<Rightarrow> string \<Rightarrow> pigen_token list \<Rightarrow> (preprocessor \<times> pigen_token list) attempt" where
  "define_macro pp source bytes raw =
     (let result = preprocessor_result pp
      in if pigen_source_get (managed_sources result) source = None then Refused invalid_span None
         else attempt_then (collect_logical_directive source bytes raw [] 0) (\<lambda>(indices, definition_end, after).
           if length indices < 3 \<or> token_kind (indices ! 2) \<noteq> PIGEN_TOKEN_IDENTIFIER \<or>
              token_line (indices ! 2) \<noteq> token_line (hd raw)
           then Refused (raw_span source (hd raw)) (Some ''`define requires a macro name'')
           else
             let name = indices ! 2;
                 sp = \<lparr>span_source = source, span_start = token_start (hd raw), span_end = definition_end\<rparr>;
                 first = length (macro_parameters result);
                 rest = drop 3 indices
             in attempt_then (read_macro result source bytes name sp first rest)
               (\<lambda>result1. Done (pp\<lparr>preprocessor_result := result1\<rparr>, after))))"

definition undefine_macro ::
    "preprocessor \<Rightarrow> id \<Rightarrow> pigen_token list \<Rightarrow> (preprocessor \<times> pigen_token list) attempt" where
  "undefine_macro pp source raw =
     (let rest = drop 2 raw;
          result = preprocessor_result pp
      in if rest = [] \<or> token_kind (hd rest) \<noteq> PIGEN_TOKEN_IDENTIFIER \<or> token_line (hd rest) \<noteq> token_line (hd raw)
         then Refused (raw_span source (hd raw)) (Some ''`undef requires a macro name'')
         else Done (pp\<lparr>preprocessor_result := deactivate result (find_macro result (raw_span source (hd rest)))\<rparr>,
           dropWhile (on_line (token_line (hd raw))) (tl rest)))"

section \<open>Inclusion\<close>

fun path_text :: "pigen_expanded_source \<Rightarrow> pigen_expanded_token list \<Rightarrow> nat \<Rightarrow> string option" where
  "path_text result [] size_so_far = Some []"
| "path_text result (tok # rest) size_so_far =
     (case pigen_expanded_token_text result tok of
        None \<Rightarrow> None
      | Some s \<Rightarrow>
          if size_so_far > SIZE_MAX - length s then None
          else map_option ((@) s) (path_text result rest (size_so_far + length s)))"

definition decode_include_path ::
    "pigen_expanded_source \<Rightarrow> pigen_expanded_token list \<Rightarrow> pigen_source_span \<Rightarrow> string attempt" where
  "decode_include_path result ts sp =
     (if length ts = 1 \<and> expanded_kind (hd ts) = PIGEN_TOKEN_STRING then
        (case pigen_expanded_token_text result (hd ts) of
           None \<Rightarrow> Refused sp (Some ''`include expansion did not produce a valid path'')
         | Some s \<Rightarrow>
             if length s < 2 \<or> hd s \<noteq> quote \<or> last s \<noteq> quote then
               Refused sp (Some ''`include expansion did not produce a valid path'')
             else Done (butlast (tl s)))
      else if length ts < 3 \<or> \<not> token_text_is result (hd ts) ''<'' \<or> \<not> token_text_is result (last ts) ''>'' then
        Refused sp (Some ''`include expansion must produce one quoted or angle-bracket path'')
      else
        case path_text result (butlast (tl ts)) 0 of
          None \<Rightarrow> Refused sp (Some ''invalid expanded include path'')
        | Some s \<Rightarrow>
            if s = [] then Refused sp (Some ''`include path cannot be empty'')
            else if length s = SIZE_MAX then Refused sp (Some ''expanded include path is too long'')
            else Done s)"

definition source_tokens ::
    "preprocessor \<Rightarrow> id \<Rightarrow> pigen_source_file \<Rightarrow> (pigen_token list \<times> preprocessor) attempt" where
  "source_tokens pp source file =
     (let written = preprocessor_written pp
      in case pigen_source_view_file written source of
           Some known \<Rightarrow> Done (viewed_tokens known, pp)
         | None \<Rightarrow>
             (case pigen_lex_source (source_text file) [] of
                Fail message \<Rightarrow> Fatal message
              | Undefined \<Rightarrow> Unread
              | Value ts \<Rightarrow> Done (ts, pp\<lparr>preprocessor_written := written\<lparr>written_files := written_files written @
                  [\<lparr>viewed_source = source, viewed_tokens = ts\<rparr>]\<rparr>\<rparr>)))"

definition same_site :: "pigen_source_include \<Rightarrow> pigen_source_include \<Rightarrow> bool" where
  "same_site known include \<longleftrightarrow> include_directive known = include_directive include"

definition record_include :: "preprocessor \<Rightarrow> pigen_source_include \<Rightarrow> preprocessor attempt" where
  "record_include pp include =
     (let written = preprocessor_written pp
      in case find (\<lambda>known. same_site known include) (written_includes written) of
           Some known \<Rightarrow>
             if included_source known \<noteq> included_source include then
               Refused (include_path include) (Some ''source provider resolved one include inconsistently'')
             else Done pp
         | None \<Rightarrow> Done (pp\<lparr>preprocessor_written := written\<lparr>written_includes := written_includes written @ [include]\<rparr>\<rparr>))"

text \<open>The call of the loader and the checks of its answer.\<close>

definition select_source ::
    "pigen_include_loader option \<Rightarrow> pigen_source_manager \<Rightarrow> id \<Rightarrow> string \<Rightarrow> pigen_source_span \<Rightarrow> id attempt" where
  "select_source provider sources source path sp =
     (case provider of
        None \<Rightarrow> Refused sp (Some ''`include requires a source provider'')
      | Some loader \<Rightarrow>
          (case loader source path of
             Inl loader_error \<Rightarrow>
               Refused sp (Some (case loader_error of None \<Rightarrow> ''cannot load included source'' | Some e \<Rightarrow> e))
           | Inr included \<Rightarrow>
               if pigen_source_get sources included = None then
                 Refused sp (Some ''source provider returned an unknown SourceId'')
               else Done included))"

text \<open>
  An include directive up to the file it selects; the main loop then preprocesses that file and goes on
  with the tokens after the line.
\<close>

definition include_source ::
    "pigen_include_loader option \<Rightarrow> preprocessor \<Rightarrow> id list \<Rightarrow> id \<Rightarrow> pigen_token list \<Rightarrow> (id \<times> preprocessor) attempt" where
  "include_source provider pp include_stack source raw =
     (let operand = drop 2 (raw_line raw);
          operand_span = \<lparr>span_source = source, span_start = token_start (hd operand), span_end = token_end (last operand)\<rparr>
      in if operand = [] then Refused (raw_span source (hd raw)) (Some ''`include requires a path expression'')
         else attempt_then (source_segment (preprocessor_result pp) source operand) (\<lambda>(input, result1).
           attempt_then (expand_all result1 [] input) (\<lambda>(expanded, result2).
           attempt_then (decode_include_path result2 expanded operand_span) (\<lambda>path.
           attempt_then (select_source provider (managed_sources result2) source path operand_span) (\<lambda>included.
           attempt_then (record_include (pp\<lparr>preprocessor_result := result2\<rparr>)
               \<lparr>include_directive = \<lparr>span_source = source, span_start = token_start (hd raw), span_end = span_end operand_span\<rparr>,
                 include_path = operand_span, included_source = included\<rparr>) (\<lambda>pp1.
             if included \<in> set include_stack then Refused operand_span (Some ''recursive source inclusion'')
             else Done (included, pp1)))))))"

section \<open>The main loop\<close>

text \<open>The number of tokens up to the next directive, or to the end of an included file.\<close>

fun segment_length :: "string \<Rightarrow> bool \<Rightarrow> pigen_token list \<Rightarrow> nat" where
  "segment_length bytes emit_eof [] = 0"
| "segment_length bytes emit_eof (tok # rest) =
     (if (emit_eof \<or> token_kind tok \<noteq> PIGEN_TOKEN_EOF) \<and> raw_conditional_kind bytes (tok # rest) = CONDITIONAL_NONE \<and>
         \<not> raw_directive_is bytes (tok # rest) ''include'' \<and> \<not> raw_directive_is bytes (tok # rest) ''define'' \<and>
         \<not> raw_directive_is bytes (tok # rest) ''undef''
      then Suc (segment_length bytes emit_eof rest) else 0)"

text \<open>
  The first bound is on the nesting of files, the second on the iterations over the tokens of one file.
\<close>

function (sequential) preprocess_loop ::
    "nat \<Rightarrow> nat \<Rightarrow> pigen_include_loader option \<Rightarrow> id list \<Rightarrow> id \<Rightarrow> string \<Rightarrow> bool \<Rightarrow> preprocessor \<Rightarrow>
     pigen_token list \<Rightarrow> preprocessor attempt"
  and preprocess_source ::
    "nat \<Rightarrow> pigen_include_loader option \<Rightarrow> id list \<Rightarrow> id \<Rightarrow> bool \<Rightarrow> preprocessor \<Rightarrow> preprocessor attempt" where
  "preprocess_loop depth 0 provider stack source bytes emit_eof pp raw = Deeper"
| "preprocess_loop depth (Suc n) provider stack source bytes emit_eof pp raw =
     (let kind = raw_conditional_kind bytes raw;
          continue = preprocess_loop depth n provider stack source bytes emit_eof
      in if raw = [] then Done pp
         else if kind \<noteq> CONDITIONAL_NONE then
           attempt_then (handle_conditional pp source raw kind) (\<lambda>(pp1, after). continue pp1 after)
         else if \<not> conditional_active (conditionals pp) then
           if raw_directive_is bytes raw ''define'' then
             attempt_then (continued_directive_after bytes raw) (\<lambda>after. continue pp after)
           else if raw_directive_is bytes raw ''include'' \<or> raw_directive_is bytes raw ''undef'' then
             continue pp (raw_line_after raw)
           else continue pp (tl raw)
         else if raw_directive_is bytes raw ''include'' then
           attempt_then (include_source provider pp stack source raw) (\<lambda>(included, pp1).
             attempt_then (preprocess_source depth provider stack included False pp1)
               (\<lambda>pp2. continue pp2 (raw_line_after raw)))
         else if raw_directive_is bytes raw ''define'' then
           attempt_then (define_macro pp source bytes raw) (\<lambda>(pp1, after). continue pp1 after)
         else if raw_directive_is bytes raw ''undef'' then
           attempt_then (undefine_macro pp source raw) (\<lambda>(pp1, after). continue pp1 after)
         else
           let count = segment_length bytes emit_eof raw
           in if count = 0 then continue pp (tl raw)
              else attempt_then (source_segment (preprocessor_result pp) source (take count raw)) (\<lambda>(segment, result1).
                attempt_then (expand_all result1 (expanded_tokens result1) segment) (\<lambda>(out, result2).
                  continue (pp\<lparr>preprocessor_result := result2\<lparr>expanded_tokens := out\<rparr>\<rparr>) (drop count raw))))"
| "preprocess_source 0 provider stack source emit_eof pp = Deeper"
| "preprocess_source (Suc depth) provider stack source emit_eof pp =
     (case pigen_source_get (managed_sources (preprocessor_result pp)) source of
        None \<Rightarrow> Refused invalid_span None
      | Some file \<Rightarrow>
          attempt_then (source_tokens pp source file) (\<lambda>(raw, pp1).
            preprocess_loop depth (Suc (length raw)) provider (stack @ [source]) source (source_text file) emit_eof pp1 raw))"
  by pat_completeness auto
termination
  by (relation "inv_image (less_than <*lex*> less_than)
    (\<lambda>x. case x of Inl (depth, n, _) \<Rightarrow> (depth, n) | Inr (depth, _) \<Rightarrow> (depth, 0))") auto

definition pigen_preprocess ::
    "pigen_source_manager \<Rightarrow> id \<Rightarrow> pigen_include_loader option \<Rightarrow> pigen_preprocess_result attempt" where
  "pigen_preprocess sources source provider =
     (if pigen_source_get sources source = None then Refused invalid_span None
      else attempt_then
        (preprocess_source (Suc (length sources)) provider [] source True
          \<lparr>preprocessor_result = \<lparr>managed_sources = sources, expanded_root = source, expanded_tokens = [],
              token_origins = [], macro_definitions = [], macro_parameters = [], replacement_tokens = []\<rparr>,
            preprocessor_written = \<lparr>written_root = source, written_files = [], written_includes = []\<rparr>,
            conditionals = []\<rparr>)
        (\<lambda>pp. if conditionals pp \<noteq> [] then
             Refused (conditional_opening (last (conditionals pp)))
               (Some ''unterminated conditional compilation block'')
           else Done \<lparr>written_view = preprocessor_written pp, expanded_source = preprocessor_result pp\<rparr>))"

end
