(* ===== verification/PreprocessInvariant.thy ===== *)
theory PreprocessInvariant
  imports Directives
begin

text \<open>
  The invariant of the expanded source: every origin is a valid span of a managed file or points to earlier
  origins, every token has an origin, and the definitions of macros lie inside the arrays they refer to. Every
  routine of the preprocessor keeps it, and origins that exist never change.
\<close>

section \<open>Attempts\<close>

lemma attempt_then_Done [simp]: "attempt_then r f = Done y \<longleftrightarrow> (\<exists>x. r = Done x \<and> f x = Done y)"
  by (cases r) auto

lemma attempt_then_Deeper [simp]:
  "attempt_then r f = Deeper \<longleftrightarrow> r = Deeper \<or> (\<exists>x. r = Done x \<and> f x = Deeper)"
  by (cases r) auto

section \<open>Origins\<close>

fun origin_ok :: "pigen_source_manager \<Rightarrow> nat \<Rightarrow> pigen_token_origin \<Rightarrow> bool" where
  "origin_ok sources i (PIGEN_ORIGIN_SOURCE sp) \<longleftrightarrow> pigen_source_span_valid sources sp"
| "origin_ok sources i (PIGEN_ORIGIN_MACRO_REPLACEMENT invocation replacement macro) \<longleftrightarrow> invocation < i \<and> replacement < i"
| "origin_ok sources i (PIGEN_ORIGIN_MACRO_ARGUMENT invocation parameter argument macro) \<longleftrightarrow>
     invocation < i \<and> parameter < i \<and> argument < i"

definition origins_ok :: "pigen_expanded_source \<Rightarrow> bool" where
  "origins_ok r \<longleftrightarrow> length (token_origins r) \<le> PIGEN_INVALID_ID \<and>
     (\<forall>i < length (token_origins r). origin_ok (managed_sources r) i (token_origins r ! i))"

definition tokens_ok :: "pigen_expanded_source \<Rightarrow> pigen_expanded_token list \<Rightarrow> bool" where
  "tokens_ok r ts \<longleftrightarrow> (\<forall>t \<in> set ts. token_origin t < length (token_origins r))"

definition macro_ok :: "pigen_expanded_source \<Rightarrow> pigen_macro_definition \<Rightarrow> bool" where
  "macro_ok r m \<longleftrightarrow> first_parameter m + macro_parameter_count m \<le> length (macro_parameters r) \<and>
     first_replacement m + replacement_count m \<le> length (replacement_tokens r) \<and>
     (\<not> function_like m \<longrightarrow> macro_parameter_count m = 0)"

definition expanded_inv :: "pigen_expanded_source \<Rightarrow> bool" where
  "expanded_inv r \<longleftrightarrow> origins_ok r \<and> tokens_ok r (expanded_tokens r) \<and> tokens_ok r (replacement_tokens r) \<and>
     (\<forall>p \<in> set (macro_parameters r). parameter_origin p < length (token_origins r) \<and>
        pigen_source_span_valid (managed_sources r) (parameter_name p)) \<and>
     (\<forall>m \<in> set (macro_definitions r). macro_ok r m) \<and> length (macro_definitions r) \<le> PIGEN_INVALID_ID"

text \<open>Only origins have been added.\<close>

definition more_origins :: "pigen_expanded_source \<Rightarrow> pigen_expanded_source \<Rightarrow> bool" where
  "more_origins r r' \<longleftrightarrow> (\<exists>xs. r' = r\<lparr>token_origins := token_origins r @ xs\<rparr>)"

lemma more_origins_refl [simp]: "more_origins r r"
  unfolding more_origins_def by (rule exI [of _ "[]"]) simp

lemma more_origins_trans: "more_origins r r' \<Longrightarrow> more_origins r' r'' \<Longrightarrow> more_origins r r''"
  by (auto simp: more_origins_def)

lemma more_origins_fields:
  assumes "more_origins r r'"
  shows "managed_sources r' = managed_sources r" "macro_definitions r' = macro_definitions r"
    "macro_parameters r' = macro_parameters r" "replacement_tokens r' = replacement_tokens r"
    "expanded_tokens r' = expanded_tokens r" "length (token_origins r) \<le> length (token_origins r')"
    "\<And>i. i < length (token_origins r) \<Longrightarrow> token_origins r' ! i = token_origins r ! i"
  using assms by (auto simp: more_origins_def nth_append)

lemma tokens_ok_simps [simp]:
  "tokens_ok r []" "tokens_ok r (t # ts) \<longleftrightarrow> token_origin t < length (token_origins r) \<and> tokens_ok r ts"
  "tokens_ok r (ts @ us) \<longleftrightarrow> tokens_ok r ts \<and> tokens_ok r us"
  by (auto simp: tokens_ok_def)

lemma tokens_ok_more: "more_origins r r' \<Longrightarrow> tokens_ok r ts \<Longrightarrow> tokens_ok r' ts"
  using more_origins_fields(6) [of r r'] by (auto simp: tokens_ok_def)

lemma tokens_ok_tl: "tokens_ok r ts \<Longrightarrow> tokens_ok r (tl ts)"
  by (cases ts) simp_all

lemma tokens_ok_slice: "tokens_ok r ts \<Longrightarrow> tokens_ok r (slice a b ts)"
  by (auto simp: tokens_ok_def slice_def dest: in_set_takeD in_set_dropD)

lemma expanded_inv_more:
  assumes "expanded_inv r" and "more_origins r r'" and "origins_ok r'"
  shows "expanded_inv r'"
  using assms tokens_ok_more [OF assms(2)] more_origins_fields(1-6) [OF assms(2)]
  by (auto simp: expanded_inv_def macro_ok_def intro: less_le_trans)

lemma add_origin_ok:
  assumes "add_origin r x = Done (i, r')" and "origins_ok r" and "origin_ok (managed_sources r) (length (token_origins r)) x"
  shows "i = length (token_origins r) \<and> r' = r\<lparr>token_origins := token_origins r @ [x]\<rparr> \<and> more_origins r r' \<and> origins_ok r' \<and>
    i < length (token_origins r')"
  using assms
  by (auto simp: add_origin_def origins_ok_def more_origins_def nth_append less_Suc_eq split: if_splits)

text \<open>A walk along earlier and earlier origins ends at a span of a file.\<close>

lemma spelling_walk_ok:
  "origins_ok r \<Longrightarrow> i < length (token_origins r) \<Longrightarrow> i < n \<Longrightarrow>
    pigen_source_span_valid (managed_sources r) (spelling_walk r n i)"
proof (induction n arbitrary: i)
  case (Suc n)
  then have ok: "origin_ok (managed_sources r) i (token_origins r ! i)"
    and get: "pigen_origin_get r i = Some (token_origins r ! i)"
    by (auto simp: origins_ok_def pigen_origin_get_def)
  show ?case
    using ok get Suc by (cases "token_origins r ! i") auto
qed simp

lemma expansion_walk_ok:
  "origins_ok r \<Longrightarrow> i < length (token_origins r) \<Longrightarrow> i < n \<Longrightarrow>
    pigen_source_span_valid (managed_sources r) (expansion_walk r n i)"
proof (induction n arbitrary: i)
  case (Suc n)
  then have ok: "origin_ok (managed_sources r) i (token_origins r ! i)"
    and get: "pigen_origin_get r i = Some (token_origins r ! i)"
    by (auto simp: origins_ok_def pigen_origin_get_def)
  show ?case
    using ok get Suc by (cases "token_origins r ! i") auto
qed simp

text \<open>The bound on the steps does not matter, and new origins do not change a walk.\<close>

lemma spelling_walk_same:
  "origins_ok r \<Longrightarrow> origins_ok r' \<Longrightarrow> more_origins r r' \<Longrightarrow> i < length (token_origins r) \<Longrightarrow> i < n \<Longrightarrow> i < n' \<Longrightarrow>
    spelling_walk r' n' i = spelling_walk r n i"
proof (induction n arbitrary: i n')
  case (Suc n)
  then have ok: "origin_ok (managed_sources r) i (token_origins r ! i)"
    and get: "pigen_origin_get r i = Some (token_origins r ! i)" "pigen_origin_get r' i = Some (token_origins r ! i)"
    using more_origins_fields(6,7) [OF Suc.prems(3)]
    by (auto simp: origins_ok_def pigen_origin_get_def)
  obtain k where k: "n' = Suc k" using Suc.prems(6) by (cases n') auto
  show ?case
    using ok get Suc by (cases "token_origins r ! i") (auto simp: k)
qed simp

lemma spelling_same:
  "origins_ok r \<Longrightarrow> origins_ok r' \<Longrightarrow> more_origins r r' \<Longrightarrow> i < length (token_origins r) \<Longrightarrow>
    pigen_origin_spelling_span r' i = pigen_origin_spelling_span r i"
  unfolding pigen_origin_spelling_span_def
  using more_origins_fields(6) [of r r'] by (intro spelling_walk_same) auto

lemma token_text_ok:
  "origins_ok r \<Longrightarrow> token_origin t < length (token_origins r) \<Longrightarrow> pigen_expanded_token_text r t \<noteq> None"
  using spelling_walk_ok [of r "token_origin t" "length (token_origins r)"]
  by (auto simp: pigen_expanded_token_text_def pigen_source_span_text_def pigen_origin_spelling_span_def
      pigen_source_span_valid_def split: option.splits)

section \<open>Substitution\<close>

lemma source_segment_ok:
  "source_segment r source ts = Done (us, r') \<Longrightarrow> origins_ok r \<Longrightarrow>
    (\<forall>t \<in> set ts. pigen_source_span_valid (managed_sources r) (raw_span source t)) \<Longrightarrow>
    more_origins r r' \<and> origins_ok r' \<and> tokens_ok r' us"
proof (induction ts arbitrary: r us)
  case (Cons t ts)
  from Cons.prems(1) obtain i r1 vs where add: "add_origin r (PIGEN_ORIGIN_SOURCE (raw_span source t)) = Done (i, r1)"
    and seg: "source_segment r1 source ts = Done (vs, r')"
    and us: "us = \<lparr>expanded_kind = token_kind t, token_origin = i\<rparr> # vs"
    by (auto simp: add_source_origin_def)
  have a: "more_origins r r1" "origins_ok r1" "i < length (token_origins r1)"
    using add_origin_ok [OF add Cons.prems(2)] Cons.prems(3) by auto
  then have "more_origins r1 r' \<and> origins_ok r' \<and> tokens_ok r' vs"
    using Cons.IH [OF seg] Cons.prems(3) more_origins_fields(1) [OF a(1)] by simp
  with a us show ?case using more_origins_trans more_origins_fields(6) [of r1 r'] by fastforce
qed simp

lemma substitute_argument_ok:
  "substitute_argument r invocation formal macro ts = Done (us, r') \<Longrightarrow> origins_ok r \<Longrightarrow>
    invocation < length (token_origins r) \<Longrightarrow> formal < length (token_origins r) \<Longrightarrow> tokens_ok r ts \<Longrightarrow>
    more_origins r r' \<and> origins_ok r' \<and> tokens_ok r' us"
proof (induction ts arbitrary: r us)
  case (Cons t ts)
  from Cons.prems(1) obtain i r1 vs where
      add: "add_origin r (PIGEN_ORIGIN_MACRO_ARGUMENT invocation formal (token_origin t) macro) = Done (i, r1)"
    and rest: "substitute_argument r1 invocation formal macro ts = Done (vs, r')"
    and us: "us = t\<lparr>token_origin := i\<rparr> # vs"
    by (auto simp: add_argument_origin_def)
  have a: "more_origins r r1" "origins_ok r1" "i < length (token_origins r1)"
    using add_origin_ok [OF add Cons.prems(2)] Cons.prems(3-5) by auto
  then have "more_origins r1 r' \<and> origins_ok r' \<and> tokens_ok r' vs"
    using Cons.IH [OF rest] Cons.prems(3-5) more_origins_fields(6) [OF a(1)] tokens_ok_more [OF a(1)] by simp
  with a us show ?case using more_origins_trans more_origins_fields(6) [of r1 r'] by fastforce
qed simp

lemma parameter_index_lt:
  assumes "parameter_index r m t = Some k" and "macro_ok r m"
  shows "k < macro_parameter_count m"
  using assms first_index_lt [of _ "slice (first_parameter m) (macro_parameter_count m) (macro_parameters r)" k]
  by (auto simp: parameter_index_def Let_def macro_ok_def split: if_splits)

lemma substitute_ok:
  "substitute r m macro invocation arguments ts = Done (us, r') \<Longrightarrow> expanded_inv r \<Longrightarrow> macro_ok r m \<Longrightarrow>
    invocation < length (token_origins r) \<Longrightarrow> length arguments = macro_parameter_count m \<Longrightarrow>
    (\<forall>a \<in> set arguments. tokens_ok r a) \<Longrightarrow> tokens_ok r ts \<Longrightarrow>
    more_origins r r' \<and> origins_ok r' \<and> tokens_ok r' us"
proof (induction ts arbitrary: r us)
  case Nil
  then show ?case by (simp add: expanded_inv_def)
next
  case (Cons t ts)
  have inv: "origins_ok r" using Cons.prems(2) by (simp add: expanded_inv_def)
  obtain vs r1 ws where one: "(case parameter_index r m t of
          Some parameter \<Rightarrow> substitute_argument r invocation
              (parameter_origin (macro_parameters r ! (first_parameter m + parameter))) macro (arguments ! parameter)
        | None \<Rightarrow> attempt_then (add_replacement_origin r invocation (token_origin t) macro)
              (\<lambda>(origin, result1). Done ([t\<lparr>token_origin := origin\<rparr>], result1))) = Done (vs, r1)"
    and rest: "substitute r1 m macro invocation arguments ts = Done (ws, r')" and us: "us = vs @ ws"
    using Cons.prems(1) by auto
  have a: "more_origins r r1 \<and> origins_ok r1 \<and> tokens_ok r1 vs"
  proof (cases "parameter_index r m t")
    case None
    then show ?thesis
      using one Cons.prems(4,7) inv add_origin_ok [OF _ inv] by (fastforce simp: add_replacement_origin_def)
  next
    case (Some k)
    have k: "k < macro_parameter_count m" using parameter_index_lt [OF Some Cons.prems(3)] .
    then have "first_parameter m + k < length (macro_parameters r)" using Cons.prems(3) by (simp add: macro_ok_def)
    then have "parameter_origin (macro_parameters r ! (first_parameter m + k)) < length (token_origins r)"
      using Cons.prems(2) by (simp add: expanded_inv_def)
    with one Some k Cons.prems(4-6) inv show ?thesis using substitute_argument_ok by auto
  qed
  then have inv1: "expanded_inv r1" using expanded_inv_more [OF Cons.prems(2)] by blast
  note f = more_origins_fields [OF conjunct1 [OF a]]
  have "more_origins r1 r' \<and> origins_ok r' \<and> tokens_ok r' ws"
    by (rule Cons.IH [OF rest inv1])
      (use Cons.prems(3-7) f a tokens_ok_more [OF conjunct1 [OF a]] in \<open>auto simp: macro_ok_def\<close>)
  with a us show ?case using more_origins_trans tokens_ok_more by auto
qed

lemma macro_argument_step:
  obtains (more) p' b' c' where
      "macro_argument_list r m invocation actual p b c current collected (t # ts) =
         macro_argument_list r m invocation actual p' b' c' (current @ [t]) collected ts"
  | (next_one) p' b' c' where
      "macro_argument_list r m invocation actual p b c current collected (t # ts) =
         macro_argument_list r m invocation (Suc actual) p' b' c' []
           (if actual < macro_parameter_count m then collected @ [current] else collected) ts"
  | (refused) sp message where
      "macro_argument_list r m invocation actual p b c current collected (t # ts) = Refused sp message"
  | (closed) arguments where
      "macro_argument_list r m invocation actual p b c current collected (t # ts) = Done (arguments, ts)"
      "arguments = (if current \<noteq> [] \<or> macro_parameter_count m \<noteq> 0
        then (if actual < macro_parameter_count m then collected @ [current] else collected) else collected)"
      "(if current \<noteq> [] \<or> macro_parameter_count m \<noteq> 0 then actual + 1 else actual) = macro_parameter_count m"
proof -
  let ?total = "if current \<noteq> [] \<or> macro_parameter_count m \<noteq> 0 then actual + 1 else actual"
  consider (parenthesis) "token_text_is r t ''(''"
    | (inner) "\<not> token_text_is r t ''(''" "token_text_is r t '')''" "p - 1 \<noteq> 0"
    | (wrong) "\<not> token_text_is r t ''(''" "token_text_is r t '')''" "\<not> p - 1 \<noteq> 0" "?total \<noteq> macro_parameter_count m"
    | (right) "\<not> token_text_is r t ''(''" "token_text_is r t '')''" "\<not> p - 1 \<noteq> 0" "?total = macro_parameter_count m"
    | (open1) "\<not> token_text_is r t ''(''" "\<not> token_text_is r t '')''" "token_text_is r t ''[''"
    | (close1) "\<not> token_text_is r t ''(''" "\<not> token_text_is r t '')''" "\<not> token_text_is r t ''[''" "token_text_is r t '']''"
    | (open2) "\<not> token_text_is r t ''(''" "\<not> token_text_is r t '')''" "\<not> token_text_is r t ''[''" "\<not> token_text_is r t '']''"
        "token_text_is r t ''{''"
    | (close2) "\<not> token_text_is r t ''(''" "\<not> token_text_is r t '')''" "\<not> token_text_is r t ''[''" "\<not> token_text_is r t '']''"
        "\<not> token_text_is r t ''{''" "token_text_is r t ''}''"
    | (comma) "\<not> token_text_is r t ''(''" "\<not> token_text_is r t '')''"
        "\<not> token_text_is r t ''[''" "\<not> token_text_is r t '']''" "\<not> token_text_is r t ''{''" "\<not> token_text_is r t ''}''"
        "p = 1 \<and> b = 0 \<and> c = 0 \<and> token_text_is r t '',''"
    | (other) "\<not> token_text_is r t ''(''" "\<not> token_text_is r t '')''"
        "\<not> token_text_is r t ''[''" "\<not> token_text_is r t '']''" "\<not> token_text_is r t ''{''" "\<not> token_text_is r t ''}''"
        "\<not> (p = 1 \<and> b = 0 \<and> c = 0 \<and> token_text_is r t '','')"
    by blast
  then show thesis
  proof cases
    case parenthesis
    then show thesis by (intro more [of "p + 1" b c]) (simp only: macro_argument_list.simps Let_def if_True)
  next
    case inner
    then show thesis by (intro more [of "p - 1" b c]) (simp only: macro_argument_list.simps Let_def if_True if_False simp_thms)
  next
    case wrong
    then show thesis by (intro refused) (simp only: macro_argument_list.simps Let_def if_True if_False simp_thms)
  next
    case right
    then show thesis by (intro closed) (simp_all only: macro_argument_list.simps Let_def if_True if_False simp_thms)
  next
    case open1
    then show thesis by (intro more [of p "b + 1" c]) (simp only: macro_argument_list.simps Let_def if_True if_False simp_thms)
  next
    case close1
    then show thesis by (intro more [of p "b - 1" c]) (simp only: macro_argument_list.simps Let_def if_True if_False simp_thms)
  next
    case open2
    then show thesis by (intro more [of p b "c + 1"]) (simp only: macro_argument_list.simps Let_def if_True if_False simp_thms)
  next
    case close2
    then show thesis by (intro more [of p b "c - 1"]) (simp only: macro_argument_list.simps Let_def if_True if_False simp_thms)
  next
    case comma
    then show thesis by (intro next_one [of p b c]) (simp only: macro_argument_list.simps Let_def if_True if_False simp_thms Suc_eq_plus1)
  next
    case other
    then show thesis by (intro more [of p b c]) (simp only: macro_argument_list.simps Let_def if_True if_False simp_thms)
  qed
qed

lemma macro_argument_list_ok:
  "macro_argument_list r m invocation actual p b c current collected ts = Done (arguments, rest) \<Longrightarrow>
    length collected = min actual (macro_parameter_count m) \<Longrightarrow>
    tokens_ok r current \<Longrightarrow> (\<forall>a \<in> set collected. tokens_ok r a) \<Longrightarrow> tokens_ok r ts \<Longrightarrow>
    length arguments = macro_parameter_count m \<and> (\<forall>a \<in> set arguments. tokens_ok r a) \<and> tokens_ok r rest"
proof (induction ts arbitrary: actual p b c current collected)
  case (Cons t ts)
  show ?case
  proof (cases rule: macro_argument_step [of r m invocation actual p b c current collected t ts])
    case more
    show ?thesis by (rule Cons.IH [OF Cons.prems(1) [unfolded more] Cons.prems(2)]) (use Cons.prems(3-5) in simp_all)
  next
    case next_one
    show ?thesis by (rule Cons.IH [OF Cons.prems(1) [unfolded next_one]]) (use Cons.prems(2-5) in \<open>simp_all split: if_splits\<close>)
  next
    case refused
    show ?thesis using Cons.prems(1) unfolding refused by simp
  next
    case (closed arguments')
    show ?thesis using Cons.prems(1) closed(2,3) Cons.prems(2-5) unfolding closed(1) by (auto split: if_splits)
  qed
qed simp

section \<open>Expansion\<close>

lemma find_macro_Some:
  assumes "find_macro r name = Some i" and "length (macro_definitions r) \<le> PIGEN_INVALID_ID"
  shows "i < length (macro_definitions r) \<and> macro_active (macro_definitions r ! i) \<and>
    span_equal_text (managed_sources r) (macro_name (macro_definitions r ! i)) name"
proof -
  obtain j where j: "i = u32 j" "find (\<lambda>i. macro_active (macro_definitions r ! i) \<and>
      span_equal_text (managed_sources r) (macro_name (macro_definitions r ! i)) name)
    (rev [0..<length (macro_definitions r)]) = Some j"
    using assms(1) unfolding find_macro_def by auto
  from j(2) have "j \<in> set (rev [0..<length (macro_definitions r)])" unfolding find_Some_iff by (metis nth_mem)
  moreover from j(2) have "macro_active (macro_definitions r ! j)"
    "span_equal_text (managed_sources r) (macro_name (macro_definitions r ! j)) name"
    unfolding find_Some_iff by blast+
  ultimately show ?thesis using j(1) assms(2) by auto
qed

lemma parse_macro_arguments_ok:
  assumes "parse_macro_arguments r m invocation ts = Done (arguments, rest)" and "tokens_ok r ts"
  shows "length arguments = macro_parameter_count m \<and> (\<forall>a \<in> set arguments. tokens_ok r a) \<and> tokens_ok r rest"
  using macro_argument_list_ok [OF assms(1) [unfolded parse_macro_arguments_def]] assms(2) by simp

lemma expanded_inv_macro: "expanded_inv r \<Longrightarrow> i < length (macro_definitions r) \<Longrightarrow> macro_ok r (macro_definitions r ! i)"
  by (simp add: expanded_inv_def)

text \<open>What every step of an expansion keeps.\<close>

definition expanded_to ::
    "pigen_expanded_source \<Rightarrow> pigen_expanded_token list \<Rightarrow> pigen_expanded_source \<Rightarrow> pigen_expanded_token list \<Rightarrow> bool" where
  "expanded_to r out r' out' \<longleftrightarrow> more_origins r r' \<and> expanded_inv r' \<and> tokens_ok r' out'"

lemma expanded_to_trans: "expanded_to r out r' out' \<Longrightarrow> expanded_to r' out' r'' out'' \<Longrightarrow> expanded_to r out r'' out''"
  by (auto simp: expanded_to_def intro: more_origins_trans)

lemma expand_ok:
  "expand_tokens depth r stack out ts = Done (out', r') \<Longrightarrow> expanded_inv r \<Longrightarrow> tokens_ok r out \<Longrightarrow> tokens_ok r ts \<Longrightarrow>
    expanded_to r out r' out'"
  "expand_macro depth r stack out i invocation arguments = Done (out', r') \<Longrightarrow> expanded_inv r \<Longrightarrow> tokens_ok r out \<Longrightarrow>
    i < length (macro_definitions r) \<Longrightarrow> invocation < length (token_origins r) \<Longrightarrow>
    length arguments = macro_parameter_count (macro_definitions r ! i) \<Longrightarrow> (\<forall>a \<in> set arguments. tokens_ok r a) \<Longrightarrow>
    expanded_to r out r' out'"
proof (induction depth r stack out ts and depth r stack out i invocation arguments
    arbitrary: out' r' and out' r' rule: expand_tokens_expand_macro.induct)
  case (3 depth r stack out tok name rest)
  let ?call = "token_text_is r tok ''`'' \<and> expanded_kind name = PIGEN_TOKEN_IDENTIFIER"
  show ?case
  proof (cases ?call)
    case False
    then show ?thesis using "3.IH"(5) [OF False] "3.prems" by (simp add: expanded_to_def del: de_Morgan_conj)
  next
    case True
    then obtain i where find: "find_macro r (pigen_origin_spelling_span r (token_origin name)) = Some i"
      using "3.prems"(1) by (auto split: option.splits)
    have i: "i < length (macro_definitions r)"
      using find_macro_Some [OF find] "3.prems"(2) by (simp add: expanded_inv_def)
    have name: "token_origin name < length (token_origins r)" using "3.prems"(4) by simp
    show ?thesis
    proof (cases "function_like (macro_definitions r ! i)")
      case is_fun: True
      then obtain arguments after out1 r1 where open1: "\<not> (rest = [] \<or> \<not> token_text_is r (hd rest) ''('')"
        and parse: "parse_macro_arguments r (macro_definitions r ! i) (token_origin name) (tl rest) = Done (arguments, after)"
        and one: "expand_macro depth r stack out i (token_origin name) arguments = Done (out1, r1)"
        and two: "expand_tokens depth r1 stack out1 after = Done (out', r')"
        using True is_fun find "3.prems"(1) by (auto split: if_splits attempt.splits)
      have "tokens_ok r (tl rest)" using "3.prems"(4) by (cases rest) simp_all
      note args = parse_macro_arguments_ok [OF parse this]
      have a: "expanded_to r out r1 out1"
        using "3.IH"(1) [OF True find is_fun open1 parse refl one "3.prems"(2,3) i name] args by blast
      have "expanded_to r1 out1 r' out'"
        using "3.IH"(2) [OF True find is_fun open1 parse refl two] a args tokens_ok_more unfolding expanded_to_def by blast
      with a show ?thesis by (rule expanded_to_trans)
    next
      case object: False
      then obtain out1 r1 where one: "expand_macro depth r stack out i (token_origin name) [] = Done (out1, r1)"
        and two: "expand_tokens depth r1 stack out1 rest = Done (out', r')"
        using True object find "3.prems"(1) by auto
      have "macro_parameter_count (macro_definitions r ! i) = 0"
        using expanded_inv_macro [OF "3.prems"(2) i] object by (simp add: macro_ok_def)
      then have a: "expanded_to r out r1 out1"
        using "3.IH"(3) [OF True find object one "3.prems"(2,3) i name] by simp
      have "expanded_to r1 out1 r' out'"
        using "3.IH"(4) [OF True find object two] a "3.prems"(4) tokens_ok_more unfolding expanded_to_def by auto
      with a show ?thesis by (rule expanded_to_trans)
    qed
  qed
next
  case (5 depth r stack out i invocation arguments)
  let ?m = "macro_definitions r ! i"
  have new: "i \<notin> set stack" using "5.prems"(1) by (auto split: if_splits)
  then obtain us r1 where sub: "substitute r ?m i invocation arguments
      (slice (first_replacement ?m) (replacement_count ?m) (replacement_tokens r)) = Done (us, r1)"
    and run: "expand_tokens depth r1 (stack @ [i]) out us = Done (out', r')"
    using "5.prems"(1) by (auto simp: Let_def)
  have "tokens_ok r (slice (first_replacement ?m) (replacement_count ?m) (replacement_tokens r))"
    using "5.prems"(2) by (auto simp: expanded_inv_def intro: tokens_ok_slice)
  from substitute_ok [OF sub "5.prems"(2) expanded_inv_macro [OF "5.prems"(2,4)] "5.prems"(5-7) this]
  have a: "more_origins r r1" "origins_ok r1" "tokens_ok r1 us" by auto
  have "expanded_to r1 out r' out'"
    using "5.IH" [OF new refl run] expanded_inv_more [OF "5.prems"(2) a(1,2)] a(3)
      tokens_ok_more [OF a(1) "5.prems"(3)] by simp
  with a show ?case by (auto simp: expanded_to_def intro: more_origins_trans)
qed (auto simp: expanded_to_def)

section \<open>Expansion ends\<close>

lemma add_origin_total [simp]: "add_origin r x \<noteq> Deeper"
  by (simp add: add_origin_def)

lemma substitute_argument_total [simp]: "substitute_argument r invocation formal macro ts \<noteq> Deeper"
  by (induction ts arbitrary: r) (auto simp: add_argument_origin_def)

lemma substitute_total [simp]: "substitute r m macro invocation arguments ts \<noteq> Deeper"
  by (induction ts arbitrary: r) (auto simp: add_replacement_origin_def split: option.splits)

lemma macro_argument_list_total: "macro_argument_list r m invocation actual p b c current collected ts \<noteq> Deeper"
proof (induction ts arbitrary: actual p b c current collected)
  case (Cons t ts)
  show ?case
    by (cases rule: macro_argument_step [of r m invocation actual p b c current collected t ts])
      (use Cons.IH in \<open>simp_all del: macro_argument_list.simps\<close>)
qed simp

lemma parse_macro_arguments_total [simp]: "parse_macro_arguments r m invocation ts \<noteq> Deeper"
  by (simp add: parse_macro_arguments_def macro_argument_list_total)

text \<open>A stack without repetition is no longer than there are macros, so the bound on the depth is not reached.\<close>

lemma stack_room:
  assumes "distinct stack" and "set stack \<subseteq> {..<n}" and "i < n" and "i \<notin> set stack"
  shows "length stack < n"
proof -
  have "card (set stack) < card {..<n}" by (rule psubset_card_mono) (use assms in auto)
  then show ?thesis using assms(1) by (simp add: distinct_card)
qed

lemma expand_ends:
  "expanded_inv r \<Longrightarrow> tokens_ok r out \<Longrightarrow> tokens_ok r ts \<Longrightarrow> distinct stack \<Longrightarrow>
    set stack \<subseteq> {..<length (macro_definitions r)} \<Longrightarrow> length (macro_definitions r) < depth + length stack \<Longrightarrow>
    expand_tokens depth r stack out ts \<noteq> Deeper"
  "expanded_inv r \<Longrightarrow> tokens_ok r out \<Longrightarrow> distinct stack \<Longrightarrow>
    set stack \<subseteq> {..<length (macro_definitions r)} \<Longrightarrow> length (macro_definitions r) < depth + length stack \<Longrightarrow>
    i < length (macro_definitions r) \<Longrightarrow> invocation < length (token_origins r) \<Longrightarrow>
    length arguments = macro_parameter_count (macro_definitions r ! i) \<Longrightarrow> (\<forall>a \<in> set arguments. tokens_ok r a) \<Longrightarrow>
    expand_macro depth r stack out i invocation arguments \<noteq> Deeper"
proof (induction depth r stack out ts and depth r stack out i invocation arguments
    rule: expand_tokens_expand_macro.induct)
  case (3 depth r stack out tok name rest)
  let ?call = "token_text_is r tok ''`'' \<and> expanded_kind name = PIGEN_TOKEN_IDENTIFIER"
  show ?case
  proof (cases ?call)
    case False
    then show ?thesis using "3.IH"(5) [OF False] "3.prems" by (simp del: de_Morgan_conj)
  next
    case call: True
    show ?thesis
    proof (cases "find_macro r (pigen_origin_spelling_span r (token_origin name))")
      case None
      with call show ?thesis by simp
    next
      case find: (Some i)
      have i: "i < length (macro_definitions r)"
        using find_macro_Some [OF find] "3.prems"(1) by (simp add: expanded_inv_def)
      have name: "token_origin name < length (token_origins r)" using "3.prems"(3) by simp
      have tl: "tokens_ok r rest" "tokens_ok r (tl rest)" using "3.prems"(3) tokens_ok_tl by auto
      show ?thesis
      proof (cases "function_like (macro_definitions r ! i)")
        case is_fun: True
        show ?thesis
        proof (cases "rest = [] \<or> \<not> token_text_is r (hd rest) ''(''")
          case True
          with call find is_fun show ?thesis by simp
        next
          case open1: False
          have after: ?thesis if parse: "parse_macro_arguments r (macro_definitions r ! i) (token_origin name) (tl rest) = Done (arguments, after)"
            for arguments after
          proof -
            note args = parse_macro_arguments_ok [OF parse tl(2)]
            have "expand_macro depth r stack out i (token_origin name) arguments \<noteq> Deeper"
              using "3.IH"(1) [OF call find is_fun open1 parse refl "3.prems"(1,2,4-6) i name] args by blast
            moreover have "expand_tokens depth r1 stack out1 after \<noteq> Deeper"
              if one: "expand_macro depth r stack out i (token_origin name) arguments = Done (out1, r1)" for out1 r1
            proof -
              have "expanded_to r out r1 out1"
                using expand_ok(2) [OF one "3.prems"(1,2) i name] args by blast
              then have a: "more_origins r r1" "expanded_inv r1" "tokens_ok r1 out1" by (simp_all add: expanded_to_def)
              show ?thesis
                using "3.IH"(2) [OF call find is_fun open1 parse refl a(2,3) _ "3.prems"(4)] args tokens_ok_more [OF a(1)]
                  more_origins_fields(2) [OF a(1)] "3.prems"(5,6) by simp
            qed
            ultimately show ?thesis using call find is_fun open1 parse by auto
          qed
          show ?thesis
          proof (cases "parse_macro_arguments r (macro_definitions r ! i) (token_origin name) (tl rest)")
            case (Done x)
            then show ?thesis using after by (cases x) simp
          qed (use call find is_fun open1 in simp_all)
        qed
      next
        case object: False
        then have none: "macro_parameter_count (macro_definitions r ! i) = 0"
          using expanded_inv_macro [OF "3.prems"(1) i] by (simp add: macro_ok_def)
        have "expand_macro depth r stack out i (token_origin name) [] \<noteq> Deeper"
          using "3.IH"(3) [OF call find object "3.prems"(1,2,4-6) i name] none by simp
        moreover have "expand_tokens depth r1 stack out1 rest \<noteq> Deeper"
          if one: "expand_macro depth r stack out i (token_origin name) [] = Done (out1, r1)" for out1 r1
        proof -
          have "expanded_to r out r1 out1"
            using expand_ok(2) [OF one "3.prems"(1,2) i name] none by simp
          then have a: "more_origins r r1" "expanded_inv r1" "tokens_ok r1 out1" by (simp_all add: expanded_to_def)
          show ?thesis
            using "3.IH"(4) [OF call find object a(2,3) _ "3.prems"(4)] tl tokens_ok_more [OF a(1)]
              more_origins_fields(2) [OF a(1)] "3.prems"(5,6) by simp
        qed
        ultimately show ?thesis using call find object by auto
      qed
    qed
  qed
next
  case (4 r stack out i invocation arguments)
  have "card (set stack) \<le> card {..<length (macro_definitions r)}" by (rule card_mono) (use "4.prems"(4) in auto)
  then show ?case using "4.prems"(3,5) by (simp add: distinct_card)
next
  case (5 depth r stack out i invocation arguments)
  let ?m = "macro_definitions r ! i"
  let ?body = "slice (first_replacement ?m) (replacement_count ?m) (replacement_tokens r)"
  have "expand_tokens depth r1 (stack @ [i]) out us \<noteq> Deeper"
    if new: "i \<notin> set stack" and sub: "substitute r ?m i invocation arguments ?body = Done (us, r1)" for us r1
  proof -
    have "tokens_ok r ?body" using "5.prems"(1) by (auto simp: expanded_inv_def intro: tokens_ok_slice)
    from substitute_ok [OF sub "5.prems"(1) expanded_inv_macro [OF "5.prems"(1,6)] "5.prems"(7-9) this]
    have a: "more_origins r r1" "origins_ok r1" "tokens_ok r1 us" by auto
    show ?thesis
      using "5.IH" [OF new refl expanded_inv_more [OF "5.prems"(1) a(1,2)] tokens_ok_more [OF a(1) "5.prems"(2)] a(3)]
        new "5.prems"(3-6) more_origins_fields(2) [OF a(1)] by simp
  qed
  then show ?case by (auto simp: Let_def)
qed simp_all

lemma expand_all_ok:
  assumes "expanded_inv r" and "tokens_ok r out" and "tokens_ok r ts"
  shows "expand_all r out ts \<noteq> Deeper"
    and "expand_all r out ts = Done (out', r') \<Longrightarrow> expanded_to r out r' out'"
  unfolding expand_all_def using expand_ends(1) [OF assms, of "[]"] expand_ok(1) assms by auto

end
