(* ===== verification/DirectivesInvariant.thy ===== *)
theory DirectivesInvariant
  imports PreprocessInvariant
begin

text \<open>
  The directives and the main loop of the preprocessor keep the invariant of the expanded source, use up
  tokens, and end: no file can be open inside itself.
\<close>

section \<open>Raw tokens\<close>

definition raw_ok :: "string \<Rightarrow> pigen_token list \<Rightarrow> bool" where
  "raw_ok bytes raw \<longleftrightarrow>
     (\<forall>t \<in> set raw. token_start t \<le> token_end t \<and> token_end t \<le> length bytes \<and>
        (token_kind t = PIGEN_TOKEN_EOF \<longrightarrow> token_start t = token_end t))"

lemma raw_ok_subset: "raw_ok bytes raw \<Longrightarrow> set ts \<subseteq> set raw \<Longrightarrow> raw_ok bytes ts"
  by (auto simp: raw_ok_def)

lemma tokenised_raw_ok: "tokenised bytes a ts \<Longrightarrow> raw_ok bytes ts"
  by (induction ts arbitrary: a) (auto simp: raw_ok_def lexeme_def split: pigen_token_kind.splits)

lemma lexed_raw_ok:
  assumes "pigen_lex_source bytes [] = Value ts"
  shows "raw_ok bytes ts"
  using lex_source [OF assms] tokenised_raw_ok by (fastforce simp: raw_ok_def)

lemma raw_span_valid:
  assumes "pigen_source_get sources source = Some file" and "raw_ok (source_text file) raw" and "t \<in> set raw"
  shows "pigen_source_span_valid sources (raw_span source t)"
  using assms by (auto simp: pigen_source_span_valid_def raw_span_def raw_ok_def)

lemma line_after_subset: "set (raw_line_after raw) \<subseteq> set raw" "set (raw_line raw) \<subseteq> set raw"
  by (auto simp: raw_line_after_def raw_line_def dest: set_dropWhileD set_takeWhileD)

lemma directive_line:
  assumes "raw_directive_is bytes raw name" and "raw_ok bytes raw"
  shows "raw \<noteq> []" "length (raw_line_after raw) < length raw"
proof -
  obtain t w ts where raw: "raw = t # w # ts" "pigen_token_is bytes t ''`''"
    using assms(1) by (auto simp: raw_directive_is_def split: list.splits)
  then have "token_kind t \<noteq> PIGEN_TOKEN_EOF"
    using assms(2) by (auto simp: raw_ok_def pigen_token_is_def)
  then have "raw_line raw \<noteq> []" by (simp add: raw raw_line_def on_line_def)
  with raw(1) show "raw \<noteq> []" "length (raw_line_after raw) < length raw"
    using raw_line_after_shorter [of raw] by auto
qed

lemma continued_directive_after_ok:
  "raw \<noteq> [] \<Longrightarrow> continued_directive_after bytes raw \<noteq> Deeper \<and>
    (continued_directive_after bytes raw = Done after \<longrightarrow>
      set after \<subseteq> set raw \<and> length after \<le> length (raw_line_after raw))"
proof (induction bytes raw rule: continued_directive_after.induct)
  case (1 bytes raw)
  let ?c = "if raw_line raw \<noteq> [] then continuation_status bytes (last (raw_line raw)) else 0"
  show ?case
  proof (cases "last_line ?c (token_line (hd raw)) (raw_line_after raw)")
    case True
    with "1.prems" show ?thesis
      using line_after_subset by (subst (1 2) continued_directive_after.simps) auto
  next
    case False
    then have ne: "raw_line_after raw \<noteq> []" by (auto simp: last_line_def)
    have "length (raw_line_after (raw_line_after raw)) \<le> length (raw_line_after raw)"
      unfolding raw_line_after_def [of "raw_line_after raw"] by (rule length_dropWhile_le)
    with "1.IH" [OF "1.prems" refl False ne] False "1.prems" show ?thesis
      using line_after_subset(1) [of raw] by (subst (1 2) continued_directive_after.simps) (auto simp: Let_def)
  qed
qed

lemma collect_logical_directive_ok:
  "raw \<noteq> [] \<Longrightarrow> set indices \<subseteq> S \<Longrightarrow> set raw \<subseteq> S \<Longrightarrow>
    collect_logical_directive source bytes raw indices e \<noteq> Deeper \<and>
    (collect_logical_directive source bytes raw indices e = Done (indices', e', after) \<longrightarrow>
      set indices' \<subseteq> S \<and> set after \<subseteq> S \<and> length after \<le> length (raw_line_after raw))"
proof (induction source bytes raw indices e rule: collect_logical_directive.induct)
  case (1 source bytes raw indices e)
  let ?c = "if raw_line raw \<noteq> [] then continuation_status bytes (last (raw_line raw)) else 0"
  have sub: "set (if ?c \<noteq> 0 then butlast (raw_line raw) else raw_line raw) \<subseteq> S"
    using "1.prems"(3) line_after_subset(2) [of raw] by (auto dest: in_set_butlastD)
  have after: "set (raw_line_after raw) \<subseteq> S" using "1.prems"(3) line_after_subset(1) [of raw] by blast
  show ?case
  proof (cases "?c < 0")
    case True
    with "1.prems" show ?thesis by (subst (1 2) collect_logical_directive.simps) (simp add: Let_def)
  next
    case pos: False
    show ?thesis
    proof (cases "last_line ?c (token_line (hd raw)) (raw_line_after raw)")
      case True
      with pos "1.prems" sub after show ?thesis
        by (subst (1 2) collect_logical_directive.simps) (auto simp: Let_def)
    next
      case False
      then have ne: "raw_line_after raw \<noteq> []" by (auto simp: last_line_def)
      have le: "length (raw_line_after (raw_line_after raw)) \<le> length (raw_line_after raw)"
        unfolding raw_line_after_def [of "raw_line_after raw"] by (rule length_dropWhile_le)
      have "set (indices @ (if ?c \<noteq> 0 then butlast (raw_line raw) else raw_line raw)) \<subseteq> S"
        using sub "1.prems"(2) by simp
      note ih = "1.IH" [OF "1.prems"(1) refl refl refl refl pos False ne this after]
      have eq: "collect_logical_directive source bytes raw indices e = collect_logical_directive source bytes (raw_line_after raw)
          (indices @ (if ?c \<noteq> 0 then butlast (raw_line raw) else raw_line raw))
          (if raw_line raw \<noteq> [] then token_end (last (raw_line raw)) else e)"
        using pos False "1.prems"(1) by (subst collect_logical_directive.simps) (simp only: Let_def if_False)
      show ?thesis using ih le unfolding eq by (meson order_trans)
    qed
  qed
qed

section \<open>The state\<close>

definition preprocessor_inv :: "pigen_source_manager \<Rightarrow> preprocessor \<Rightarrow> bool" where
  "preprocessor_inv sources pp \<longleftrightarrow>
     expanded_inv (preprocessor_result pp) \<and> managed_sources (preprocessor_result pp) = sources \<and>
     (\<forall>view \<in> set (written_files (preprocessor_written pp)).
        \<exists>file. pigen_source_get sources (viewed_source view) = Some file \<and>
          pigen_lex_source (source_text file) [] = Value (viewed_tokens view)) \<and>
     (\<forall>include \<in> set (written_includes (preprocessor_written pp)). pigen_source_get sources (included_source include) \<noteq> None)"

text \<open>A step over a part of the tokens of a file.\<close>

definition consumes ::
    "pigen_source_manager \<Rightarrow> pigen_token list \<Rightarrow> preprocessor \<Rightarrow> pigen_token list \<Rightarrow> bool" where
  "consumes sources raw pp after \<longleftrightarrow> preprocessor_inv sources pp \<and> set after \<subseteq> set raw \<and> length after < length raw"

lemma preprocessor_inv_frames [simp]: "preprocessor_inv sources (pp\<lparr>conditionals := f\<rparr>) \<longleftrightarrow> preprocessor_inv sources pp"
  by (simp add: preprocessor_inv_def)

lemma preprocessor_inv_result:
  "preprocessor_inv sources pp \<Longrightarrow> expanded_inv r \<Longrightarrow> managed_sources r = sources \<Longrightarrow>
    preprocessor_inv sources (pp\<lparr>preprocessor_result := r\<rparr>)"
  by (simp add: preprocessor_inv_def)

lemma expanded_inv_tokens: "expanded_inv r \<Longrightarrow> tokens_ok r ts \<Longrightarrow> expanded_inv (r\<lparr>expanded_tokens := ts\<rparr>)"
  by (auto simp: expanded_inv_def origins_ok_def tokens_ok_def macro_ok_def)

lemma conditional_directive:
  assumes "raw_conditional_kind bytes raw \<noteq> CONDITIONAL_NONE"
  shows "2 \<le> length raw"
  using assms by (auto simp: raw_conditional_kind_def raw_directive_is_def split: list.splits if_splits)

lemma set_drop2: "set (drop n raw) \<subseteq> set raw" "set (tl (drop n raw)) \<subseteq> set raw"
  by (auto dest: in_set_dropD list.set_sel(2) simp: drop_Suc [symmetric] tl_drop)

lemma handle_conditional_ok:
  assumes "preprocessor_inv sources pp" and "2 \<le> length raw"
  shows "handle_conditional pp source raw kind \<noteq> Deeper"
    and "handle_conditional pp source raw kind = Done (pp', after) \<Longrightarrow> consumes sources raw pp' after"
  using assms set_drop2 [of 2 raw]
  by (auto simp: handle_conditional_def Let_def consumes_def split: if_splits)

lemma deactivate_ok:
  assumes "expanded_inv r" and "\<forall>i. known = Some i \<longrightarrow> i < length (macro_definitions r)"
  shows "expanded_inv (deactivate r known) \<and> managed_sources (deactivate r known) = managed_sources r \<and>
    length (macro_definitions (deactivate r known)) = length (macro_definitions r) \<and>
    token_origins (deactivate r known) = token_origins r \<and> macro_parameters (deactivate r known) = macro_parameters r \<and>
    replacement_tokens (deactivate r known) = replacement_tokens r"
proof (cases known)
  case (Some i)
  then have "macro_ok r (macro_definitions r ! i)" using assms by (auto simp: expanded_inv_def)
  then show ?thesis
    using assms Some set_update_subset_insert [of "macro_definitions r" i]
    by (fastforce simp: deactivate_def expanded_inv_def origins_ok_def tokens_ok_def macro_ok_def)
qed (use assms in \<open>simp add: deactivate_def\<close>)

lemma deactivate_found:
  assumes "expanded_inv r"
  shows "\<forall>i. find_macro r name = Some i \<longrightarrow> i < length (macro_definitions r)"
  using assms find_macro_Some by (auto simp: expanded_inv_def)

lemma undefine_macro_ok:
  assumes "preprocessor_inv sources pp" and "raw_directive_is bytes raw ''undef''"
  shows "undefine_macro pp source raw \<noteq> Deeper"
    and "undefine_macro pp source raw = Done (pp', after) \<Longrightarrow> consumes sources raw pp' after"
proof -
  have len: "2 \<le> length raw" using assms(2) by (auto simp: raw_directive_is_def split: list.splits)
  show "undefine_macro pp source raw \<noteq> Deeper" by (simp add: undefine_macro_def Let_def)
  assume "undefine_macro pp source raw = Done (pp', after)"
  then obtain P name where "pp' = pp\<lparr>preprocessor_result := deactivate (preprocessor_result pp)
      (find_macro (preprocessor_result pp) name)\<rparr>"
    and after: "after = dropWhile P (tl (drop 2 raw))" and ne: "drop 2 raw \<noteq> []"
    by (auto simp: undefine_macro_def Let_def split: if_splits)
  then have "preprocessor_inv sources pp'"
    using assms(1) deactivate_ok deactivate_found by (auto simp: preprocessor_inv_def)
  moreover have "set after \<subseteq> set raw" using after set_drop2(2) [of 2 raw] by (auto dest: set_dropWhileD)
  moreover have "length after < length raw"
    using after ne length_dropWhile_le [of P "tl (drop 2 raw)"] by simp
  ultimately show "consumes sources raw pp' after" by (simp add: consumes_def)
qed

section \<open>Definitions\<close>

lemma add_source_origin_inv:
  assumes "add_source_origin r sp = Done (i, r')" and "expanded_inv r" and "pigen_source_span_valid (managed_sources r) sp"
  shows "more_origins r r' \<and> expanded_inv r' \<and> i < length (token_origins r')"
proof -
  have "origins_ok r" using assms(2) by (simp add: expanded_inv_def)
  from add_origin_ok [OF assms(1) [unfolded add_source_origin_def] this] assms(2,3) expanded_inv_more
  show ?thesis by auto
qed

lemma append_parameter_inv:
  "expanded_inv r \<Longrightarrow> parameter_origin p < length (token_origins r) \<Longrightarrow>
    pigen_source_span_valid (managed_sources r) (parameter_name p) \<Longrightarrow> expanded_inv (append_macro_parameter r p)"
  by (auto simp: expanded_inv_def append_macro_parameter_def origins_ok_def tokens_ok_def macro_ok_def)

lemma append_replacement_inv:
  "expanded_inv r \<Longrightarrow> token_origin t < length (token_origins r) \<Longrightarrow> expanded_inv (append_replacement_token r t)"
  by (auto simp: expanded_inv_def append_replacement_token_def origins_ok_def tokens_ok_def macro_ok_def)

lemma macro_parameter_list_ok:
  "macro_parameter_list r source bytes name first ts \<noteq> Deeper \<and>
   (macro_parameter_list r source bytes name first ts = Done (r', rest) \<longrightarrow> expanded_inv r \<longrightarrow>
      (\<forall>t \<in> set ts. pigen_source_span_valid (managed_sources r) (raw_span source t)) \<longrightarrow>
      expanded_inv r' \<and> managed_sources r' = managed_sources r \<and> set rest \<subseteq> set ts \<and>
      length (macro_parameters r) \<le> length (macro_parameters r'))"
proof (induction r source bytes name first ts rule: macro_parameter_list.induct)
  case (1 r source bytes name first)
  then show ?case by simp
next
  case (2 r source bytes name first t ts)
  let ?p = "raw_span source t"
  show ?case
  proof (cases "token_kind t \<noteq> PIGEN_TOKEN_IDENTIFIER \<or>
      list_ex (\<lambda>p. span_equal_text (managed_sources r) (parameter_name p) ?p) (drop first (macro_parameters r))")
    case True
    then show ?thesis by (auto simp: Let_def)
  next
    case ok: False
    show ?thesis
    proof (cases "add_source_origin r ?p")
      case (Done x)
      obtain i r1 where x: "x = (i, r1)" by (cases x)
      let ?r2 = "append_macro_parameter r1 \<lparr>parameter_name = ?p, parameter_origin = i\<rparr>"
      have inv2: "expanded_inv ?r2 \<and> managed_sources ?r2 = managed_sources r \<and>
          length (macro_parameters r) < length (macro_parameters ?r2)"
        if "expanded_inv r" "\<forall>t \<in> set (t # ts). pigen_source_span_valid (managed_sources r) (raw_span source t)"
      proof -
        have m: "more_origins r r1 \<and> expanded_inv r1 \<and> i < length (token_origins r1)"
          using add_source_origin_inv [OF Done [unfolded x]] that by simp
        then have "expanded_inv ?r2"
          using append_parameter_inv that(2) more_origins_fields(1) [of r r1] by simp
        moreover have "managed_sources ?r2 = managed_sources r" "length (macro_parameters r) < length (macro_parameters ?r2)"
          using m more_origins_fields(1,3) [of r r1] by (simp_all add: append_macro_parameter_def)
        ultimately show ?thesis by simp
      qed
      show ?thesis
      proof (cases ts)
        case Nil
        then show ?thesis using ok Done x by (auto simp: Let_def)
      next
        case ts: (Cons mark others)
        show ?thesis
        proof (cases "\<not> pigen_token_is bytes mark '')'' \<and> pigen_token_is bytes mark '',''")
          case True
          then have eq: "macro_parameter_list r source bytes name first (t # ts) =
              macro_parameter_list ?r2 source bytes name first others"
            using ok Done x ts by (auto simp: Let_def)
          have ih: "macro_parameter_list ?r2 source bytes name first others \<noteq> Deeper \<and>
             (macro_parameter_list ?r2 source bytes name first others = Done (r', rest) \<longrightarrow> expanded_inv ?r2 \<longrightarrow>
               (\<forall>t \<in> set others. pigen_source_span_valid (managed_sources ?r2) (raw_span source t)) \<longrightarrow>
               expanded_inv r' \<and> managed_sources r' = managed_sources ?r2 \<and> set rest \<subseteq> set others \<and>
               length (macro_parameters ?r2) \<le> length (macro_parameters r'))"
            by (rule "2.IH" [OF refl _ _ refl ts]) (use ok True in auto)
          show ?thesis unfolding eq using ih inv2 ts by fastforce
        next
          case False
          then show ?thesis using ok Done x ts inv2 by (auto simp: Let_def)
        qed
      qed
    qed (use ok in \<open>auto simp: Let_def add_source_origin_def\<close>)
  qed
qed

lemma add_replacements_ok:
  "add_replacements r source ts \<noteq> Deeper \<and>
   (add_replacements r source ts = Done r' \<longrightarrow> expanded_inv r \<longrightarrow>
      (\<forall>t \<in> set ts. pigen_source_span_valid (managed_sources r) (raw_span source t)) \<longrightarrow>
      expanded_inv r' \<and> managed_sources r' = managed_sources r \<and> macro_parameters r' = macro_parameters r \<and>
      length (replacement_tokens r') = length (replacement_tokens r) + length ts)"
proof (induction ts arbitrary: r)
  case (Cons t ts)
  show ?case
  proof (cases "add_source_origin r (raw_span source t)")
    case (Done x)
    obtain i r1 where x: "x = (i, r1)" by (cases x)
    let ?r2 = "append_replacement_token r1 \<lparr>expanded_kind = token_kind t, token_origin = i\<rparr>"
    have "expanded_inv ?r2 \<and> managed_sources ?r2 = managed_sources r \<and> macro_parameters ?r2 = macro_parameters r \<and>
        length (replacement_tokens ?r2) = Suc (length (replacement_tokens r))"
      if "expanded_inv r" "\<forall>t \<in> set (t # ts). pigen_source_span_valid (managed_sources r) (raw_span source t)"
    proof -
      have m: "more_origins r r1 \<and> expanded_inv r1 \<and> i < length (token_origins r1)"
        using add_source_origin_inv [OF Done [unfolded x]] that by simp
      then have "expanded_inv ?r2" using append_replacement_inv by simp
      moreover have "managed_sources ?r2 = managed_sources r" "macro_parameters ?r2 = macro_parameters r"
        "length (replacement_tokens ?r2) = Suc (length (replacement_tokens r))"
        using m more_origins_fields(1,3,4) [of r r1] by (simp_all add: append_replacement_token_def)
      ultimately show ?thesis by simp
    qed
    then show ?thesis using Cons.IH [of ?r2] Done x by fastforce
  qed (auto simp: add_source_origin_def)
qed simp

lemma add_definition_inv:
  assumes "expanded_inv r" and "macro_ok r m" and "length (macro_definitions r) \<noteq> PIGEN_INVALID_ID"
  shows "expanded_inv (r\<lparr>macro_definitions := macro_definitions r @ [m]\<rparr>) \<and>
    managed_sources (r\<lparr>macro_definitions := macro_definitions r @ [m]\<rparr>) = managed_sources r"
  using assms by (auto simp: expanded_inv_def origins_ok_def tokens_ok_def macro_ok_def)

lemma add_macro_ok:
  assumes "expanded_inv r" and "macro_ok r m"
  shows "add_macro r m \<noteq> Deeper"
    and "add_macro r m = Done (i, r') \<Longrightarrow> expanded_inv r' \<and> managed_sources r' = managed_sources r"
proof -
  let ?d = "deactivate r (find_macro r (macro_name m))"
  note d = deactivate_ok [OF assms(1) deactivate_found [OF assms(1)], of "macro_name m"]
  show "add_macro r m \<noteq> Deeper" by (simp add: add_macro_def Let_def)
  assume "add_macro r m = Done (i, r')"
  then have r': "r' = ?d\<lparr>macro_definitions := macro_definitions ?d @ [m]\<rparr>"
    and lt: "length (macro_definitions ?d) \<noteq> PIGEN_INVALID_ID"
    by (auto simp: add_macro_def Let_def split: if_splits)
  have m: "macro_ok ?d m" using d assms(2) by (simp add: macro_ok_def)
  show "expanded_inv r' \<and> managed_sources r' = managed_sources r"
    unfolding r' using add_definition_inv [OF conjunct1 [OF d] m lt] conjunct1 [OF conjunct2 [OF d]] by metis
qed

lemma publish_macro_ok:
  assumes "expanded_inv r" and "first \<le> length (macro_parameters r)"
    and "\<not> is_function \<longrightarrow> first = length (macro_parameters r)"
    and "\<forall>t \<in> set ts. pigen_source_span_valid (managed_sources r) (raw_span source t)"
  shows "publish_macro r source name sp first is_function ts \<noteq> Deeper"
    and "publish_macro r source name sp first is_function ts = Done r' \<Longrightarrow>
      expanded_inv r' \<and> managed_sources r' = managed_sources r"
proof -
  let ?m = "\<lparr>macro_name = raw_span source name, macro_span = sp, first_parameter = first,
           macro_parameter_count = length (macro_parameters r) - first,
           first_replacement = length (replacement_tokens r), replacement_count = length ts,
           function_like = is_function, macro_active = True\<rparr>"
  have one: "expanded_inv r1 \<and> managed_sources r1 = managed_sources r \<and> macro_ok r1 ?m"
    if "add_replacements r source ts = Done r1" for r1
    using that add_replacements_ok [of r source ts r1] assms by (auto simp: macro_ok_def)
  have "add_macro r1 ?m \<noteq> Deeper" if "add_replacements r source ts = Done r1" for r1
    using one [OF that] add_macro_ok(1) by blast
  moreover have "add_replacements r source ts \<noteq> Deeper" using add_replacements_ok by blast
  ultimately show "publish_macro r source name sp first is_function ts \<noteq> Deeper"
    unfolding publish_macro_def attempt_then_Deeper by (auto split: prod.splits)
  assume "publish_macro r source name sp first is_function ts = Done r'"
  then obtain r1 i where "add_replacements r source ts = Done r1" "add_macro r1 ?m = Done (i, r')"
    by (auto simp: publish_macro_def)
  then show "expanded_inv r' \<and> managed_sources r' = managed_sources r"
    using one [of r1] add_macro_ok(2) [of r1 ?m i r'] by metis
qed

lemma set_tl: "set (tl xs) \<subseteq> set xs"
  by (cases xs) auto

lemma read_macro_ok:
  assumes "expanded_inv r" and "first = length (macro_parameters r)"
    and "\<forall>t \<in> set rest. pigen_source_span_valid (managed_sources r) (raw_span source t)"
  shows "read_macro r source bytes name sp first rest \<noteq> Deeper \<and>
    (read_macro r source bytes name sp first rest = Done r' \<longrightarrow>
      expanded_inv r' \<and> managed_sources r' = managed_sources r)"
proof -
  have t1: "\<forall>t \<in> set (tl rest). pigen_source_span_valid (managed_sources r) (raw_span source t)"
    "\<forall>t \<in> set (tl (tl rest)). pigen_source_span_valid (managed_sources r) (raw_span source t)"
    using assms(3) set_tl [of rest] set_tl [of "tl rest"] by blast+
  have list: "publish_macro r1 source name sp first True replacement \<noteq> Deeper \<and>
      (publish_macro r1 source name sp first True replacement = Done r' \<longrightarrow>
        expanded_inv r' \<and> managed_sources r' = managed_sources r)"
    if "macro_parameter_list r source bytes name first (tl rest) = Done (r1, replacement)" for r1 replacement
  proof -
    have "expanded_inv r1 \<and> managed_sources r1 = managed_sources r \<and> set replacement \<subseteq> set (tl rest) \<and>
        length (macro_parameters r) \<le> length (macro_parameters r1)"
      using conjunct2 [OF macro_parameter_list_ok, rule_format, OF that assms(1)] t1(1) by blast
    then have a: "expanded_inv r1" "managed_sources r1 = managed_sources r" "first \<le> length (macro_parameters r1)"
      "set replacement \<subseteq> set (tl rest)" using assms(2) by simp_all
    have "\<forall>t \<in> set replacement. pigen_source_span_valid (managed_sources r1) (raw_span source t)"
      unfolding a(2) using t1(1) a(4) by blast
    note published = publish_macro_ok [OF a(1,3) _ this, of True name sp, simplified, unfolded a(2)]
    show ?thesis using published by blast
  qed
  have le: "first \<le> length (macro_parameters r)" and nt: "\<not> True \<longrightarrow> first = length (macro_parameters r)"
    and nf: "\<not> False \<longrightarrow> first = length (macro_parameters r)" using assms(2) by simp_all
  let ?open = "rest \<noteq> [] \<and> pigen_token_is bytes (hd rest) ''('' \<and> token_end name = token_start (hd rest)"
  let ?closed = "tl rest \<noteq> [] \<and> pigen_token_is bytes (hd (tl rest)) '')''"
  show ?thesis
  proof (cases "?open \<and> \<not> ?closed")
    case True
    then have eq: "read_macro r source bytes name sp first rest =
        attempt_then (macro_parameter_list r source bytes name first (tl rest))
          (\<lambda>(result1, replacement). publish_macro result1 source name sp first True replacement)"
      unfolding read_macro_def by presburger
    show ?thesis
    proof (cases "macro_parameter_list r source bytes name first (tl rest)")
      case (Done x)
      then show ?thesis using list unfolding eq by (cases x) auto
    qed (use macro_parameter_list_ok [of r source bytes name first "tl rest"] in \<open>simp_all add: eq\<close>)
  next
    case False
    then consider "read_macro r source bytes name sp first rest = publish_macro r source name sp first True (tl (tl rest))"
      | "read_macro r source bytes name sp first rest = publish_macro r source name sp first False rest"
      unfolding read_macro_def by presburger
    then show ?thesis
    proof cases
      case 1
      show ?thesis unfolding 1 using publish_macro_ok [OF assms(1) le nt t1(2)] by blast
    next
      case 2
      show ?thesis unfolding 2 using publish_macro_ok [OF assms(1) le nf assms(3)] by blast
    qed
  qed
qed

lemma define_macro_ok:
  assumes "preprocessor_inv sources pp" and "raw_directive_is bytes raw ''define''"
    and "pigen_source_get sources source = Some file" and "raw_ok (source_text file) raw" and "bytes = source_text file"
  shows "define_macro pp source bytes raw \<noteq> Deeper"
    and "define_macro pp source bytes raw = Done (pp', after) \<Longrightarrow> consumes sources raw pp' after"
proof -
  let ?r = "preprocessor_result pp"
  have inv: "expanded_inv ?r" and man: "managed_sources ?r = sources" using assms(1) by (simp_all add: preprocessor_inv_def)
  have line: "raw \<noteq> []" "length (raw_line_after raw) < length raw"
    using directive_line [OF assms(2)] assms(4,5) by auto
  note logical = collect_logical_directive_ok [OF line(1), of "[]" "set raw" source bytes 0]
  have body: "read_macro ?r source bytes name sp (length (macro_parameters ?r)) (drop 3 indices) \<noteq> Deeper \<and>
      (read_macro ?r source bytes name sp (length (macro_parameters ?r)) (drop 3 indices) = Done r' \<longrightarrow>
        expanded_inv r' \<and> managed_sources r' = sources)"
    if "collect_logical_directive source bytes raw [] 0 = Done (indices, e, after)" for indices e after name sp r'
  proof -
    have "set (drop 3 indices) \<subseteq> set raw" using logical [of indices e after] that by (auto dest: in_set_dropD)
    then have "\<forall>t \<in> set (drop 3 indices). pigen_source_span_valid (managed_sources ?r) (raw_span source t)"
      using raw_span_valid [OF assms(3,4)] man by blast
    from read_macro_ok [OF inv refl this] show ?thesis using man by simp
  qed
  show "define_macro pp source bytes raw \<noteq> Deeper"
    using logical body by (auto simp: define_macro_def Let_def split: if_splits)
  assume "define_macro pp source bytes raw = Done (pp', after)"
  then obtain indices e name sp r' where i: "collect_logical_directive source bytes raw [] 0 = Done (indices, e, after)"
    and b: "read_macro ?r source bytes name sp (length (macro_parameters ?r)) (drop 3 indices) = Done r'"
    and pp': "pp' = pp\<lparr>preprocessor_result := r'\<rparr>"
    unfolding define_macro_def Let_def by (auto split: if_splits)
  have "preprocessor_inv sources pp'"
    using body [OF i] b preprocessor_inv_result [OF assms(1)] unfolding pp' by blast
  moreover have "set after \<subseteq> set raw" "length after < length raw"
    using logical [of indices e after] i line(2) by auto
  ultimately show "consumes sources raw pp' after" by (simp add: consumes_def)
qed

section \<open>Inclusion\<close>

lemma source_segment_total: "source_segment r source ts \<noteq> Deeper"
  by (induction ts arbitrary: r) (auto simp: add_source_origin_def)

lemma source_segment_inv:
  assumes "source_segment r source ts = Done (us, r')" and "expanded_inv r"
    and "\<forall>t \<in> set ts. pigen_source_span_valid (managed_sources r) (raw_span source t)"
  shows "expanded_inv r' \<and> more_origins r r' \<and> tokens_ok r' us"
proof -
  have "origins_ok r" using assms(2) by (simp add: expanded_inv_def)
  from source_segment_ok [OF assms(1) this assms(3)] expanded_inv_more [OF assms(2)] show ?thesis by blast
qed

lemma source_tokens_ok:
  assumes "preprocessor_inv sources pp" and "pigen_source_get sources source = Some file"
  shows "source_tokens pp source file \<noteq> Deeper"
    and "source_tokens pp source file = Done (raw, pp') \<Longrightarrow>
      preprocessor_inv sources pp' \<and> pigen_lex_source (source_text file) [] = Value raw \<and> raw_ok (source_text file) raw"
proof -
  show "source_tokens pp source file \<noteq> Deeper"
    by (auto simp: source_tokens_def Let_def split: option.split outcome.split)
  assume run: "source_tokens pp source file = Done (raw, pp')"
  have "preprocessor_inv sources pp' \<and> pigen_lex_source (source_text file) [] = Value raw"
  proof (cases "pigen_source_view_file (preprocessor_written pp) source")
    case None
    with run assms show ?thesis
      by (auto simp: source_tokens_def Let_def preprocessor_inv_def split: outcome.splits)
  next
    case (Some view)
    then have "view \<in> set (written_files (preprocessor_written pp))" "viewed_source view = source"
      unfolding pigen_source_view_file_def find_Some_iff by auto
    with Some run assms show ?thesis
      by (auto simp: source_tokens_def Let_def preprocessor_inv_def)
  qed
  then show "preprocessor_inv sources pp' \<and> pigen_lex_source (source_text file) [] = Value raw \<and> raw_ok (source_text file) raw"
    using lexed_raw_ok by blast
qed

lemma record_include_total: "record_include pp include \<noteq> Deeper"
  by (auto simp: record_include_def Let_def split: option.split)

lemma record_include_ok:
  assumes "preprocessor_inv sources pp" and "pigen_source_get sources (included_source include) \<noteq> None"
    and "record_include pp include = Done pp'"
  shows "preprocessor_inv sources pp'"
  using assms by (auto simp: record_include_def Let_def preprocessor_inv_def split: option.splits if_splits)

lemma decode_include_path_total: "decode_include_path r ts sp \<noteq> Deeper"
  by (auto simp: decode_include_path_def split: option.split)

lemma select_source_total: "select_source provider sources source path sp \<noteq> Deeper"
  by (auto simp: select_source_def split: option.split sum.split)

lemma select_source_found:
  "select_source provider sources source path sp = Done included \<Longrightarrow> pigen_source_get sources included \<noteq> None"
  by (auto simp: select_source_def split: option.splits sum.splits if_splits)

lemma include_source_ok:
  assumes "preprocessor_inv sources pp"
    and "pigen_source_get sources source = Some file" and "raw_ok (source_text file) raw"
  shows "include_source provider pp stack source raw \<noteq> Deeper"
    and "include_source provider pp stack source raw = Done (included, pp') \<Longrightarrow>
      preprocessor_inv sources pp' \<and> included \<notin> set stack \<and> pigen_source_get sources included \<noteq> None"
proof -
  let ?operand = "drop 2 (raw_line raw)"
  have "set ?operand \<subseteq> set raw" using set_drop2(1) [of 2 "raw_line raw"] line_after_subset(2) [of raw] by blast
  then have ok: "\<forall>t \<in> set ?operand. pigen_source_span_valid (managed_sources (preprocessor_result pp)) (raw_span source t)"
    using raw_span_valid [OF assms(2,3)] assms(1) by (auto simp: preprocessor_inv_def)
  have steps: "expand_all r1 [] input \<noteq> Deeper"
      "expand_all r1 [] input = Done (expanded, r2) \<Longrightarrow> preprocessor_inv sources (pp\<lparr>preprocessor_result := r2\<rparr>)"
    if "source_segment (preprocessor_result pp) source ?operand = Done (input, r1)" for input r1 expanded r2
  proof -
    have a: "expanded_inv r1 \<and> more_origins (preprocessor_result pp) r1 \<and> tokens_ok r1 input"
      using source_segment_inv [OF that _ ok] assms(1) by (simp add: preprocessor_inv_def)
    show "expand_all r1 [] input \<noteq> Deeper" using expand_all_ok(1) a by simp
    assume "expand_all r1 [] input = Done (expanded, r2)"
    then have "expanded_to r1 [] r2 expanded" using expand_all_ok(2) [of r1 "[]" input expanded r2] a by simp
    then show "preprocessor_inv sources (pp\<lparr>preprocessor_result := r2\<rparr>)"
      using a assms(1) more_origins_fields(1) by (auto simp: expanded_to_def preprocessor_inv_def)
  qed
  show "include_source provider pp stack source raw \<noteq> Deeper"
    using steps(1)
    by (auto simp: include_source_def Let_def source_segment_total decode_include_path_total record_include_total
        select_source_total)
  assume "include_source provider pp stack source raw = Done (included, pp')"
  then obtain input r1 expanded r2 path sp site where
      seg: "source_segment (preprocessor_result pp) source ?operand = Done (input, r1)" and
      run: "expand_all r1 [] input = Done (expanded, r2)" and
      select: "select_source provider (managed_sources r2) source path sp = Done included" and
      rec: "record_include (pp\<lparr>preprocessor_result := r2\<rparr>) site = Done pp'" "included_source site = included"
      "included \<notin> set stack"
    by (auto simp: include_source_def Let_def split: if_splits)
  note inv = steps(2) [OF seg run]
  have "pigen_source_get sources included \<noteq> None"
    using select_source_found [OF select] inv by (simp add: preprocessor_inv_def)
  with record_include_ok [OF inv _ rec(1)] rec(2,3)
  show "preprocessor_inv sources pp' \<and> included \<notin> set stack \<and> pigen_source_get sources included \<noteq> None" by simp
qed

section \<open>The main loop\<close>

text \<open>A run that keeps the invariant and does not exhaust a bound.\<close>

definition sound_run :: "pigen_source_manager \<Rightarrow> preprocessor attempt \<Rightarrow> bool" where
  "sound_run sources r \<longleftrightarrow> r \<noteq> Deeper \<and> (\<forall>pp. r = Done pp \<longrightarrow> preprocessor_inv sources pp)"

lemma sound_run_then:
  "r \<noteq> Deeper \<Longrightarrow> (\<And>x. r = Done x \<Longrightarrow> sound_run sources (f x)) \<Longrightarrow> sound_run sources (attempt_then r f)"
  by (auto simp: sound_run_def)

lemma segment_length_le: "segment_length bytes emit_eof raw \<le> length raw"
  by (induction raw) auto

lemma sound_segment:
  assumes "preprocessor_inv sources pp" and "pigen_source_get sources source = Some file"
    and "raw_ok (source_text file) raw"
    and "\<And>pp'. preprocessor_inv sources pp' \<Longrightarrow> sound_run sources (f pp')"
  shows "sound_run sources
    (attempt_then (source_segment (preprocessor_result pp) source raw) (\<lambda>(segment, result1).
      attempt_then (expand_all result1 (expanded_tokens result1) segment) (\<lambda>(out, result2).
        f (pp\<lparr>preprocessor_result := result2\<lparr>expanded_tokens := out\<rparr>\<rparr>))))"
proof (rule sound_run_then [OF source_segment_total])
  fix x
  assume "source_segment (preprocessor_result pp) source raw = Done x"
  moreover obtain segment r1 where x: "x = (segment, r1)" by (cases x)
  ultimately have "expanded_inv r1 \<and> more_origins (preprocessor_result pp) r1 \<and> tokens_ok r1 segment"
    using source_segment_inv raw_span_valid [OF assms(2,3)] assms(1) by (auto simp: preprocessor_inv_def)
  then have a: "expanded_inv r1" "tokens_ok r1 (expanded_tokens r1)" "tokens_ok r1 segment" "managed_sources r1 = sources"
    using assms(1) more_origins_fields(1) [of "preprocessor_result pp" r1] by (auto simp: expanded_inv_def preprocessor_inv_def)
  have "sound_run sources (attempt_then (expand_all r1 (expanded_tokens r1) segment) (\<lambda>(out, r2).
      f (pp\<lparr>preprocessor_result := r2\<lparr>expanded_tokens := out\<rparr>\<rparr>)))"
  proof (rule sound_run_then [OF expand_all_ok(1) [OF a(1-3)]])
    fix y
    assume "expand_all r1 (expanded_tokens r1) segment = Done y"
    moreover obtain out r2 where y: "y = (out, r2)" by (cases y)
    ultimately have "expanded_to r1 (expanded_tokens r1) r2 out" using expand_all_ok(2) [OF a(1-3)] by simp
    then have "expanded_inv (r2\<lparr>expanded_tokens := out\<rparr>)" "managed_sources r2 = sources"
      using expanded_inv_tokens more_origins_fields(1) a(4) by (auto simp: expanded_to_def)
    then show "sound_run sources (case y of (out, r2) \<Rightarrow> f (pp\<lparr>preprocessor_result := r2\<lparr>expanded_tokens := out\<rparr>\<rparr>))"
      unfolding y by (simp only: prod.case) (intro assms(4) preprocessor_inv_result [OF assms(1)], simp_all)
  qed
  then show "sound_run sources (case x of (segment, r1) \<Rightarrow>
      attempt_then (expand_all r1 (expanded_tokens r1) segment) (\<lambda>(out, r2).
        f (pp\<lparr>preprocessor_result := r2\<lparr>expanded_tokens := out\<rparr>\<rparr>)))" by (simp add: x)
qed

lemma sound_loop:
  assumes nested: "\<And>pp included. preprocessor_inv sources pp \<Longrightarrow> included \<notin> set stack \<Longrightarrow>
      sound_run sources (preprocess_source depth provider stack included False pp)"
    and known: "pigen_source_get sources source = Some file"
  shows "preprocessor_inv sources pp \<Longrightarrow> raw_ok (source_text file) raw \<Longrightarrow> length raw < n \<Longrightarrow>
    sound_run sources (preprocess_loop depth n provider stack source (source_text file) emit_eof pp raw)"
proof (induction n arbitrary: pp raw)
  case (Suc n)
  let ?bytes = "source_text file"
  let ?continue = "preprocess_loop depth n provider stack source ?bytes emit_eof"
  have go: "sound_run sources (?continue pp' after)"
    if "preprocessor_inv sources pp'" "set after \<subseteq> set raw" "length after < length raw" for pp' after
    using Suc.IH [OF that(1) raw_ok_subset [OF Suc.prems(2) that(2)]] that(3) Suc.prems(3) by simp
  have step: "sound_run sources (attempt_then r (\<lambda>(pp', after). ?continue pp' after))"
    if "r \<noteq> Deeper" "\<And>pp' after. r = Done (pp', after) \<Longrightarrow> consumes sources raw pp' after" for r
    by (rule sound_run_then [OF that(1)]) (use that(2) go in \<open>auto simp: consumes_def\<close>)
  note directive = directive_line [OF _ Suc.prems(2)]
  have line: "sound_run sources (?continue pp' (raw_line_after raw))"
    if "raw_directive_is ?bytes raw name" "preprocessor_inv sources pp'" for name pp'
    using go [OF that(2) line_after_subset(1)] directive(2) [OF that(1)] .
  have continued: "sound_run sources (attempt_then (continued_directive_after ?bytes raw) (?continue pp))"
    if "raw_directive_is ?bytes raw name" for name
  proof (rule sound_run_then)
    show "continued_directive_after ?bytes raw \<noteq> Deeper"
      using continued_directive_after_ok [OF directive(1) [OF that]] by blast
    fix after
    assume "continued_directive_after ?bytes raw = Done after"
    then show "sound_run sources (?continue pp after)"
      using continued_directive_after_ok [OF directive(1) [OF that], of ?bytes after] directive(2) [OF that]
      by (intro go Suc.prems(1)) simp_all
  qed
  have inclusion: "sound_run sources (attempt_then (include_source provider pp stack source raw) (\<lambda>(included, pp1).
      attempt_then (preprocess_source depth provider stack included False pp1) (\<lambda>pp2. ?continue pp2 (raw_line_after raw))))"
    if "raw_directive_is ?bytes raw name" for name
  proof (rule sound_run_then [OF include_source_ok(1) [OF Suc.prems(1) known Suc.prems(2)]])
    fix x
    assume "include_source provider pp stack source raw = Done x"
    moreover obtain included pp1 where x: "x = (included, pp1)" by (cases x)
    ultimately have "preprocessor_inv sources pp1 \<and> included \<notin> set stack"
      using include_source_ok(2) [OF Suc.prems(1) known Suc.prems(2)] by simp
    then have "sound_run sources (preprocess_source depth provider stack included False pp1)" using nested by blast
    then show "sound_run sources (case x of (included, pp1) \<Rightarrow>
        attempt_then (preprocess_source depth provider stack included False pp1) (\<lambda>pp2. ?continue pp2 (raw_line_after raw)))"
      using line [OF that] by (auto simp: x sound_run_def)
  qed
  have tail: "sound_run sources (?continue pp (tl raw))" if "raw \<noteq> []"
    by (rule go [OF Suc.prems(1) set_tl]) (use that in simp)
  have segment: "sound_run sources
    (attempt_then (source_segment (preprocessor_result pp) source (take k raw)) (\<lambda>(segment, result1).
      attempt_then (expand_all result1 (expanded_tokens result1) segment) (\<lambda>(out, result2).
        ?continue (pp\<lparr>preprocessor_result := result2\<lparr>expanded_tokens := out\<rparr>\<rparr>) (drop k raw))))"
    if "raw \<noteq> []" "k \<noteq> 0" for k
    by (rule sound_segment [OF Suc.prems(1) known, of "take k raw" "\<lambda>pp. ?continue pp (drop k raw)"])
      (use that Suc.prems(2) in \<open>auto intro!: go intro: raw_ok_subset dest: in_set_takeD in_set_dropD\<close>)
  show ?case
  proof (cases "raw = []")
    case True
    then show ?thesis using Suc.prems(1) by (simp add: sound_run_def)
  next
    case False
    note conditional = step [OF handle_conditional_ok [OF Suc.prems(1) conditional_directive]]
    note defining = step [OF define_macro_ok [OF Suc.prems(1) _ known Suc.prems(2) refl]]
    note undefining = step [OF undefine_macro_ok [OF Suc.prems(1)]]
    show ?thesis
      unfolding preprocess_loop.simps Let_def
      by (simp only: False if_False split: if_split)
        (intro conjI impI conditional defining undefining inclusion continued line tail segment Suc.prems(1) False; (assumption | simp)?)
  qed
qed simp

lemma sound_source:
  "preprocessor_inv sources pp \<Longrightarrow> distinct stack \<Longrightarrow> set stack \<subseteq> {..<length sources} \<Longrightarrow>
    length sources < depth + length stack \<Longrightarrow> source \<notin> set stack \<Longrightarrow>
    sound_run sources (preprocess_source depth provider stack source emit_eof pp)"
proof (induction depth arbitrary: pp stack source emit_eof)
  case 0
  have "card (set stack) \<le> card {..<length sources}" by (rule card_mono) (use "0.prems"(3) in auto)
  then show ?case using "0.prems"(2,4) by (simp add: distinct_card)
next
  case (Suc depth)
  show ?case
  proof (cases "pigen_source_get sources source")
    case None
    then show ?thesis using Suc.prems(1) by (simp add: preprocessor_inv_def sound_run_def)
  next
    case (Some selected)
    then have "source < length sources" by (auto simp: pigen_source_get_def split: if_splits)
    then have nested: "sound_run sources (preprocess_source depth provider (stack @ [source]) included False pp1)"
      if "preprocessor_inv sources pp1" "included \<notin> set (stack @ [source])" for included pp1
      using Suc.prems(2-5) that by (intro Suc.IH) auto
    have "sound_run sources (attempt_then (source_tokens pp source selected) (\<lambda>(raw, pp1).
        preprocess_loop depth (Suc (length raw)) provider (stack @ [source]) source (source_text selected) emit_eof pp1 raw))"
    proof (rule sound_run_then [OF source_tokens_ok(1) [OF Suc.prems(1) Some]])
      fix x
      assume "source_tokens pp source selected = Done x"
      moreover obtain raw pp1 where x: "x = (raw, pp1)" by (cases x)
      ultimately have "preprocessor_inv sources pp1" "raw_ok (source_text selected) raw"
        using source_tokens_ok(2) [OF Suc.prems(1) Some] by simp_all
      then show "sound_run sources (case x of (raw, pp1) \<Rightarrow>
          preprocess_loop depth (Suc (length raw)) provider (stack @ [source]) source (source_text selected) emit_eof pp1 raw)"
        unfolding x by (simp only: prod.case) (intro sound_loop [OF nested Some], simp_all)
    qed
    then show ?thesis using Suc.prems(1) Some by (simp add: preprocessor_inv_def)
  qed
qed

lemma preprocess_sound:
  "pigen_preprocess sources source provider \<noteq> Deeper"
  "pigen_preprocess sources source provider = Done result \<Longrightarrow>
    \<exists>pp. preprocessor_inv sources pp \<and> conditionals pp = [] \<and>
      result = \<lparr>written_view = preprocessor_written pp, expanded_source = preprocessor_result pp\<rparr>"
proof -
  let ?pp = "\<lparr>preprocessor_result = \<lparr>managed_sources = sources, expanded_root = source, expanded_tokens = [],
      token_origins = [], macro_definitions = [], macro_parameters = [], replacement_tokens = []\<rparr>,
    preprocessor_written = \<lparr>written_root = source, written_files = [], written_includes = []\<rparr>, conditionals = []\<rparr>"
  have "preprocessor_inv sources ?pp"
    by (simp add: preprocessor_inv_def expanded_inv_def origins_ok_def)
  then have run: "sound_run sources (preprocess_source (Suc (length sources)) provider [] source True ?pp)"
    by (rule sound_source) simp_all
  then show "pigen_preprocess sources source provider \<noteq> Deeper"
    by (auto simp: pigen_preprocess_def sound_run_def)
  assume "pigen_preprocess sources source provider = Done result"
  then show "\<exists>pp. preprocessor_inv sources pp \<and> conditionals pp = [] \<and>
      result = \<lparr>written_view = preprocessor_written pp, expanded_source = preprocessor_result pp\<rparr>"
    using run by (auto simp: pigen_preprocess_def sound_run_def split: if_splits simp del: preprocess_source.simps)
qed

end
