(* ===== verification/TextExpansion.thy ===== *)
theory TextExpansion
  imports PreprocessInvariant
begin

text \<open>
  Macro expansion on texts, the specification of the expansion with provenance: a token is its kind and its
  text, macros are found by name, and the running expansions are a list of names. The expansion of
  src/src/preprocess.c computes it, whatever origins it records.
\<close>

section \<open>The specification\<close>

type_synonym atom = "pigen_token_kind \<times> string"

record text_macro =
  macro_formals :: "string list"
  macro_body :: "atom list"
  with_arguments :: bool

text \<open>The arguments of an invocation and the tokens after it; None if the list does not end or does not fit.\<close>

fun text_arguments ::
    "nat \<Rightarrow> nat \<Rightarrow> nat \<Rightarrow> nat \<Rightarrow> nat \<Rightarrow> atom list \<Rightarrow> atom list list \<Rightarrow> atom list \<Rightarrow> (atom list list \<times> atom list) option" where
  "text_arguments n actual parentheses brackets braces current collected [] = None"
| "text_arguments n actual parentheses brackets braces current collected (a # rest) =
     (let continue = (\<lambda>p b c. text_arguments n actual p b c (current @ [a]) collected rest);
          keep = (if actual < n then collected @ [current] else collected);
          given = current \<noteq> [] \<or> n \<noteq> 0
      in if snd a = ''('' then continue (parentheses + 1) brackets braces
         else if snd a = '')'' then
           if parentheses - 1 \<noteq> 0 then continue (parentheses - 1) brackets braces
           else if (if given then actual + 1 else actual) \<noteq> n then None
           else Some (if given then keep else collected, rest)
         else if snd a = ''['' then continue parentheses (brackets + 1) braces
         else if snd a = '']'' then continue parentheses (brackets - 1) braces
         else if snd a = ''{'' then continue parentheses brackets (braces + 1)
         else if snd a = ''}'' then continue parentheses brackets (braces - 1)
         else if parentheses = 1 \<and> brackets = 0 \<and> braces = 0 \<and> snd a = '','' then
           text_arguments n (actual + 1) parentheses brackets braces [] keep rest
         else continue parentheses brackets braces)"

definition text_atom :: "text_macro \<Rightarrow> atom list list \<Rightarrow> atom \<Rightarrow> atom list" where
  "text_atom m arguments a =
     (case (if fst a = PIGEN_TOKEN_IDENTIFIER then first_index ((=) (snd a)) (macro_formals m) else None) of
        Some i \<Rightarrow> arguments ! i
      | None \<Rightarrow> [a])"

definition text_substitute :: "text_macro \<Rightarrow> atom list list \<Rightarrow> atom list" where
  "text_substitute m arguments = concat (map (text_atom m arguments) (macro_body m))"

lemma text_atom_cong: "macro_formals m = macro_formals m' \<Longrightarrow> text_atom m = text_atom m'"
  by (simp add: text_atom_def fun_eq_iff)

lemma text_arguments_shorter:
  "text_arguments n actual p b c current collected ts = Some (arguments, rest) \<Longrightarrow> length rest < length ts"
proof (induction ts arbitrary: actual p b c current collected)
  case (Cons a ts)
  from Cons.prems show ?case by (auto simp: Let_def less_Suc_eq split: if_splits dest!: Cons.IH)
qed simp

function (sequential) text_expand ::
    "nat \<Rightarrow> (string \<Rightarrow> text_macro option) \<Rightarrow> string list \<Rightarrow> atom list \<Rightarrow> atom list option"
  and text_run ::
    "nat \<Rightarrow> (string \<Rightarrow> text_macro option) \<Rightarrow> string list \<Rightarrow> string \<Rightarrow> text_macro \<Rightarrow> atom list list \<Rightarrow> atom list option" where
  "text_expand depth env running [] = Some []"
| "text_expand depth env running [a] = Some [a]"
| "text_expand depth env running (a # name # rest) =
     (if snd a = ''`'' \<and> fst name = PIGEN_TOKEN_IDENTIFIER then
        (case env (snd name) of
           None \<Rightarrow> None
         | Some m \<Rightarrow>
             if with_arguments m then
               (if rest = [] \<or> snd (hd rest) \<noteq> ''('' then None
                else case text_arguments (length (macro_formals m)) 0 1 0 0 [] [] (tl rest) of
                  None \<Rightarrow> None
                | Some (arguments, after) \<Rightarrow>
                    Option.bind (text_run depth env running (snd name) m arguments) (\<lambda>xs.
                      map_option ((@) xs) (text_expand depth env running after)))
             else Option.bind (text_run depth env running (snd name) m []) (\<lambda>xs.
               map_option ((@) xs) (text_expand depth env running rest)))
      else map_option ((#) a) (text_expand depth env running (name # rest)))"
| "text_run 0 env running name m arguments = None"
| "text_run (Suc depth) env running name m arguments =
     (if name \<in> set running then None
      else text_expand depth env (running @ [name]) (text_substitute m arguments))"
  by pat_completeness auto
termination
  by (relation "inv_image (less_than <*lex*> less_than)
    (\<lambda>x. case x of Inl (depth, _, _, ts) \<Rightarrow> (depth, Suc (length ts)) | Inr (depth, _) \<Rightarrow> (depth, 0))")
    (auto dest!: text_arguments_shorter)

section \<open>Abstraction\<close>

definition span_string :: "pigen_expanded_source \<Rightarrow> pigen_source_span \<Rightarrow> string" where
  "span_string r sp = (case pigen_source_span_text (managed_sources r) sp of None \<Rightarrow> [] | Some s \<Rightarrow> s)"

definition atom_of :: "pigen_expanded_source \<Rightarrow> pigen_expanded_token \<Rightarrow> atom" where
  "atom_of r t = (expanded_kind t, span_string r (pigen_origin_spelling_span r (token_origin t)))"

abbreviation atoms :: "pigen_expanded_source \<Rightarrow> pigen_expanded_token list \<Rightarrow> atom list" where
  "atoms r \<equiv> map (atom_of r)"

definition text_macro_of :: "pigen_expanded_source \<Rightarrow> pigen_macro_definition \<Rightarrow> text_macro" where
  "text_macro_of r m =
     \<lparr>macro_formals = map (\<lambda>p. span_string r (parameter_name p))
        (slice (first_parameter m) (macro_parameter_count m) (macro_parameters r)),
      macro_body = atoms r (slice (first_replacement m) (replacement_count m) (replacement_tokens r)),
      with_arguments = function_like m\<rparr>"

text \<open>The definition that a name refers to.\<close>

definition named_macro :: "pigen_expanded_source \<Rightarrow> string \<Rightarrow> id option" where
  "named_macro r s =
     find (\<lambda>i. macro_active (macro_definitions r ! i) \<and>
         pigen_source_span_text (managed_sources r) (macro_name (macro_definitions r ! i)) = Some s)
       (rev [0..<length (macro_definitions r)])"

definition text_env :: "pigen_expanded_source \<Rightarrow> string \<Rightarrow> text_macro option" where
  "text_env r s = map_option (\<lambda>i. text_macro_of r (macro_definitions r ! i)) (named_macro r s)"

definition macro_text :: "pigen_expanded_source \<Rightarrow> id \<Rightarrow> string" where
  "macro_text r i = span_string r (macro_name (macro_definitions r ! i))"

lemma spelled:
  assumes "origins_ok r" and "o' < length (token_origins r)"
  shows "pigen_source_span_text (managed_sources r) (pigen_origin_spelling_span r o') =
    Some (span_string r (pigen_origin_spelling_span r o'))"
  using token_text_ok [OF assms(1), of "\<lparr>expanded_kind = PIGEN_TOKEN_EOF, token_origin = o'\<rparr>"] assms(2)
  by (auto simp: pigen_expanded_token_text_def span_string_def)

lemma token_text_atom:
  assumes "origins_ok r" and "token_origin t < length (token_origins r)"
  shows "token_text_is r t s \<longleftrightarrow> snd (atom_of r t) = s"
  using spelled [OF assms] by (simp add: token_text_is_def pigen_expanded_token_text_def atom_of_def)

lemma fst_atom [simp]: "fst (atom_of r t) = expanded_kind t"
  by (simp add: atom_of_def)

lemma atom_kind_origin: "atom_of r (t\<lparr>token_origin := i\<rparr>) = (expanded_kind t, span_string r (pigen_origin_spelling_span r i))"
  by (simp add: atom_of_def)

lemma span_equal_string:
  assumes "pigen_source_span_text sources b = Some s"
  shows "span_equal_text sources a b \<longleftrightarrow> pigen_source_span_text sources a = Some s"
  using assms by (auto simp: span_equal_text_def split: option.splits)

lemma find_macro_named:
  assumes "pigen_source_span_text (managed_sources r) sp = Some s" and "length (macro_definitions r) \<le> PIGEN_INVALID_ID"
  shows "find_macro r sp = named_macro r s"
proof -
  have "find_macro r sp = map_option u32 (named_macro r s)"
    unfolding find_macro_def named_macro_def span_equal_string [OF assms(1)] ..
  moreover have "u32 i = i" if "named_macro r s = Some i" for i
  proof -
    have "i \<in> set (rev [0..<length (macro_definitions r)])"
      using that unfolding named_macro_def find_Some_iff by (metis nth_mem)
    then show ?thesis using assms(2) by simp
  qed
  ultimately show ?thesis by (cases "named_macro r s") simp_all
qed

lemma named_macro_text:
  assumes "named_macro r s = Some i"
  shows "macro_text r i = s"
  using assms unfolding named_macro_def find_Some_iff by (auto simp: macro_text_def span_string_def)

lemma atom_more:
  assumes "origins_ok r" and "origins_ok r'" and "more_origins r r'" and "token_origin t < length (token_origins r)"
  shows "atom_of r' t = atom_of r t"
  using spelling_same [OF assms] more_origins_fields(1) [OF assms(3)] by (simp add: atom_of_def span_string_def)

lemma atoms_more:
  assumes "origins_ok r" and "origins_ok r'" and "more_origins r r'" and "tokens_ok r ts"
  shows "atoms r' ts = atoms r ts"
  using atom_more [OF assms(1-3)] assms(4) by (auto simp: tokens_ok_def)

lemma env_more:
  assumes "expanded_inv r" and "expanded_inv r'" and "more_origins r r'"
  shows "text_env r' = text_env r" and "macro_text r' = macro_text r" and "named_macro r' = named_macro r"
proof -
  note f = more_origins_fields [OF assms(3)]
  have ok: "origins_ok r" "origins_ok r'" using assms(1,2) by (simp_all add: expanded_inv_def)
  have "tokens_ok r (slice a b (replacement_tokens r))" for a b
    using assms(1) by (auto simp: expanded_inv_def intro: tokens_ok_slice)
  then have body: "atoms r' (slice a b (replacement_tokens r)) = atoms r (slice a b (replacement_tokens r))" for a b
    using atoms_more [OF ok assms(3)] by blast
  have "text_macro_of r' m = text_macro_of r m" for m
    unfolding text_macro_of_def f body span_string_def by simp
  moreover show "named_macro r' = named_macro r" by (rule ext) (simp add: named_macro_def f)
  ultimately show "text_env r' = text_env r" by (intro ext) (simp add: text_env_def f)
  show "macro_text r' = macro_text r" by (rule ext) (simp add: macro_text_def f span_string_def)
qed

section \<open>Arguments\<close>

definition abstract_arguments ::
    "pigen_expanded_source \<Rightarrow> (pigen_expanded_token list list \<times> pigen_expanded_token list) attempt \<Rightarrow>
     (atom list list \<times> atom list) option" where
  "abstract_arguments r x = (case x of Done (arguments, rest) \<Rightarrow> Some (map (atoms r) arguments, atoms r rest) | _ \<Rightarrow> None)"

lemma abstract_arguments_simps [simp]:
  "abstract_arguments r (Done (arguments, rest)) = Some (map (atoms r) arguments, atoms r rest)"
  "abstract_arguments r (Refused sp message) = None"
  by (simp_all add: abstract_arguments_def)

lemma macro_argument_list_text:
  "origins_ok r \<Longrightarrow> tokens_ok r ts \<Longrightarrow>
    abstract_arguments r (macro_argument_list r m invocation actual p b c current collected ts) =
      text_arguments (macro_parameter_count m) actual p b c (atoms r current) (map (atoms r) collected) (atoms r ts)"
proof (induction ts arbitrary: actual p b c current collected)
  case (Cons t ts)
  then have ih: "abstract_arguments r (macro_argument_list r m invocation actual p b c current collected ts) =
      text_arguments (macro_parameter_count m) actual p b c (atoms r current) (map (atoms r) collected) (atoms r ts)"
    for actual p b c current collected by simp
  have known: "token_text_is r t s \<longleftrightarrow> snd (atom_of r t) = s" for s
    using token_text_atom Cons.prems by simp
  show ?case
    by (simp add: known ih Let_def if_distrib [of "abstract_arguments r"] del: fst_atom)
qed simp

lemma macro_argument_list_result:
  "\<exists>x. macro_argument_list r m invocation actual p b c current collected ts = Done x \<or>
    (\<exists>sp message. macro_argument_list r m invocation actual p b c current collected ts = Refused sp message)"
proof (induction ts arbitrary: actual p b c current collected)
  case (Cons t ts)
  show ?case
    by (cases rule: macro_argument_step [of r m invocation actual p b c current collected t ts])
      (use Cons.IH in \<open>simp_all del: macro_argument_list.simps\<close>)
qed simp

lemma first_index_map: "first_index P (map f xs) = first_index (\<lambda>x. P (f x)) xs"
  by (induction xs) simp_all

lemma parameter_index_text:
  assumes "expanded_inv r" and "token_origin t < length (token_origins r)" and "macro_ok r m"
  shows "parameter_index r m t =
    (if expanded_kind t = PIGEN_TOKEN_IDENTIFIER then first_index ((=) (snd (atom_of r t))) (macro_formals (text_macro_of r m))
     else None)"
proof -
  let ?ps = "slice (first_parameter m) (macro_parameter_count m) (macro_parameters r)"
  have ok: "origins_ok r" using assms(1) by (simp add: expanded_inv_def)
  have "span_equal_text (managed_sources r) (parameter_name p) (pigen_origin_spelling_span r (token_origin t)) \<longleftrightarrow>
      snd (atom_of r t) = span_string r (parameter_name p)" if "p \<in> set ?ps" for p
  proof -
    have "p \<in> set (macro_parameters r)" using that by (auto simp: slice_def dest: in_set_takeD in_set_dropD)
    then have "pigen_source_span_valid (managed_sources r) (parameter_name p)" using assms(1) by (simp add: expanded_inv_def)
    then have "pigen_source_span_text (managed_sources r) (parameter_name p) = Some (span_string r (parameter_name p))"
      by (auto simp: span_string_def pigen_source_span_text_def pigen_source_span_valid_def split: option.splits)
    then show ?thesis using span_equal_string [OF spelled [OF ok assms(2)]] by (auto simp: atom_of_def)
  qed
  then have "first_index (\<lambda>p. span_equal_text (managed_sources r) (parameter_name p)
        (pigen_origin_spelling_span r (token_origin t))) ?ps =
      first_index ((=) (snd (atom_of r t))) (map (\<lambda>p. span_string r (parameter_name p)) ?ps)"
    unfolding first_index_map by (intro first_index_cong) simp
  then show ?thesis by (simp add: parameter_index_def text_macro_of_def)
qed

section \<open>Substitution\<close>

text \<open>A token of an expansion is spelled like the token it comes from.\<close>

lemma spelling_new:
  assumes "add_origin r x = Done (i, r1)" and "origins_ok r" and "origin_ok (managed_sources r) (length (token_origins r)) x"
    and "x = PIGEN_ORIGIN_MACRO_REPLACEMENT invocation o' macro \<or> x = PIGEN_ORIGIN_MACRO_ARGUMENT invocation formal o' macro"
  shows "pigen_origin_spelling_span r1 i = pigen_origin_spelling_span r o'"
proof -
  note a = add_origin_ok [OF assms(1-3)]
  have o': "o' < length (token_origins r)" using assms(3,4) by auto
  have "length (token_origins r) < PIGEN_INVALID_ID"
    using a by (auto simp: origins_ok_def)
  then have "pigen_origin_get r1 i = Some x" using a by (simp add: pigen_origin_get_def)
  then have "pigen_origin_spelling_span r1 i = spelling_walk r1 (length (token_origins r)) o'"
    using a assms(4) by (auto simp: pigen_origin_spelling_span_def)
  also have "\<dots> = pigen_origin_spelling_span r o'"
    unfolding pigen_origin_spelling_span_def using a o' assms(2) by (intro spelling_walk_same) auto
  finally show ?thesis .
qed

lemma substitute_argument_text:
  "substitute_argument r invocation formal macro ts = Done (us, r') \<Longrightarrow> origins_ok r \<Longrightarrow>
    invocation < length (token_origins r) \<Longrightarrow> formal < length (token_origins r) \<Longrightarrow> tokens_ok r ts \<Longrightarrow>
    atoms r' us = atoms r ts"
proof (induction ts arbitrary: r us)
  case (Cons t ts)
  let ?x = "PIGEN_ORIGIN_MACRO_ARGUMENT invocation formal (token_origin t) macro"
  from Cons.prems(1) obtain i r1 vs where add: "add_origin r ?x = Done (i, r1)"
    and rest: "substitute_argument r1 invocation formal macro ts = Done (vs, r')"
    and us: "us = t\<lparr>token_origin := i\<rparr> # vs"
    by (auto simp: add_argument_origin_def)
  have x: "origin_ok (managed_sources r) (length (token_origins r)) ?x" using Cons.prems(3-5) by simp
  have a: "more_origins r r1" "origins_ok r1" "i < length (token_origins r1)"
    using add_origin_ok [OF add Cons.prems(2) x] by auto
  note f = more_origins_fields [OF a(1)]
  have ts: "tokens_ok r1 ts" "tokens_ok r ts" using Cons.prems(5) tokens_ok_more [OF a(1)] by simp_all
  have b: "more_origins r1 r' \<and> origins_ok r' \<and> tokens_ok r' vs"
    by (rule substitute_argument_ok [OF rest a(2)]) (use Cons.prems(3,4) f ts in simp_all)
  have "atoms r' vs = atoms r1 ts"
    by (rule Cons.IH [OF rest a(2)]) (use Cons.prems(3,4) f ts in simp_all)
  also have "\<dots> = atoms r ts" by (rule atoms_more [OF Cons.prems(2) a(2,1) ts(2)])
  finally have "atoms r' vs = atoms r ts" .
  moreover have "atom_of r' (t\<lparr>token_origin := i\<rparr>) = atom_of r t"
    using atom_more [OF a(2) _ _, of r' "t\<lparr>token_origin := i\<rparr>"] b a(3) spelling_new [OF add Cons.prems(2) x] f(1)
    by (simp add: atom_of_def span_string_def)
  ultimately show ?case by (simp add: us)
qed simp

lemma substitute_text:
  "substitute r m macro invocation arguments ts = Done (us, r') \<Longrightarrow> expanded_inv r \<Longrightarrow> macro_ok r m \<Longrightarrow>
    invocation < length (token_origins r) \<Longrightarrow> length arguments = macro_parameter_count m \<Longrightarrow>
    (\<forall>a \<in> set arguments. tokens_ok r a) \<Longrightarrow> tokens_ok r ts \<Longrightarrow>
    atoms r' us = text_substitute (text_macro_of r m\<lparr>macro_body := atoms r ts\<rparr>) (map (atoms r) arguments)"
proof (induction ts arbitrary: r us)
  case Nil
  then show ?case by (simp add: text_substitute_def)
next
  case (Cons t ts)
  have inv: "origins_ok r" using Cons.prems(2) by (simp add: expanded_inv_def)
  have t: "token_origin t < length (token_origins r)" "tokens_ok r ts" using Cons.prems(7) by simp_all
  obtain vs r1 ws where one: "(case parameter_index r m t of
          Some parameter \<Rightarrow> substitute_argument r invocation
              (parameter_origin (macro_parameters r ! (first_parameter m + parameter))) macro (arguments ! parameter)
        | None \<Rightarrow> attempt_then (add_replacement_origin r invocation (token_origin t) macro)
              (\<lambda>(origin, result1). Done ([t\<lparr>token_origin := origin\<rparr>], result1))) = Done (vs, r1)"
    and rest: "substitute r1 m macro invocation arguments ts = Done (ws, r')" and us: "us = vs @ ws"
    using Cons.prems(1) by auto
  note index = parameter_index_text [OF Cons.prems(2) t(1) Cons.prems(3)]
  let ?subst = "text_atom (text_macro_of r m) (map (atoms r) arguments)"
  have a: "more_origins r r1 \<and> origins_ok r1 \<and> tokens_ok r1 vs \<and> atoms r1 vs = ?subst (atom_of r t)"
  proof (cases "parameter_index r m t")
    case None
    let ?x = "PIGEN_ORIGIN_MACRO_REPLACEMENT invocation (token_origin t) macro"
    from one None obtain i where add: "add_origin r ?x = Done (i, r1)" and vs: "vs = [t\<lparr>token_origin := i\<rparr>]"
      by (auto simp: add_replacement_origin_def)
    have x: "origin_ok (managed_sources r) (length (token_origins r)) ?x" using Cons.prems(4) t by simp
    have b: "more_origins r r1" "origins_ok r1" "i < length (token_origins r1)" using add_origin_ok [OF add inv x] by auto
    have "atom_of r1 (t\<lparr>token_origin := i\<rparr>) = atom_of r t"
      using spelling_new [OF add inv x] more_origins_fields(1) [OF b(1)] by (simp add: atom_of_def span_string_def)
    then show ?thesis using b None index by (simp add: vs text_atom_def split: option.split)
  next
    case (Some k)
    have k: "k < macro_parameter_count m" using parameter_index_lt [OF Some Cons.prems(3)] .
    then have "first_parameter m + k < length (macro_parameters r)" using Cons.prems(3) by (simp add: macro_ok_def)
    then have formal: "parameter_origin (macro_parameters r ! (first_parameter m + k)) < length (token_origins r)"
      using Cons.prems(2) by (simp add: expanded_inv_def)
    have arg: "tokens_ok r (arguments ! k)" using Cons.prems(5,6) k by simp
    from one Some have one': "substitute_argument r invocation
        (parameter_origin (macro_parameters r ! (first_parameter m + k))) macro (arguments ! k) = Done (vs, r1)" by simp
    show ?thesis
      using substitute_argument_ok [OF one' inv Cons.prems(4) formal arg]
        substitute_argument_text [OF one' inv Cons.prems(4) formal arg] Some index k Cons.prems(5)
      by (simp add: text_atom_def split: if_splits)
  qed
  then have m: "more_origins r r1" "origins_ok r1" and inv1: "expanded_inv r1"
    using expanded_inv_more [OF Cons.prems(2)] by blast+
  note f = more_origins_fields [OF m(1)] and more = tokens_ok_more [OF m(1)] and same = atoms_more [OF inv m(2,1)]
  have args: "map (atoms r1) arguments = map (atoms r) arguments"
  proof (rule map_cong [OF refl])
    fix a
    assume "a \<in> set arguments"
    then have "tokens_ok r a" using Cons.prems(6) by simp
    then show "atoms r1 a = atoms r a" by (rule same)
  qed
  have formals: "macro_formals (text_macro_of r1 m) = macro_formals (text_macro_of r m)"
    using f by (simp add: text_macro_of_def span_string_def)
  have ok: "macro_ok r1 m" "invocation < length (token_origins r1)" "\<forall>a \<in> set arguments. tokens_ok r1 a" "tokens_ok r1 ts"
    using Cons.prems(3,4,6) f t more by (auto simp: macro_ok_def)
  have b: "more_origins r1 r' \<and> origins_ok r' \<and> tokens_ok r' ws"
    by (rule substitute_ok [OF rest inv1 ok(1,2) Cons.prems(5) ok(3,4)])
  have subst: "text_atom (text_macro_of r1 m\<lparr>macro_body := b\<rparr>) = text_atom (text_macro_of r m)" for b
    by (rule text_atom_cong) (simp add: formals)
  have subst': "text_atom (text_macro_of r m\<lparr>macro_body := b\<rparr>) = text_atom (text_macro_of r m)" for b
    by (rule text_atom_cong) simp
  have "atoms r' ws = concat (map ?subst (atoms r ts))"
    using Cons.IH [OF rest inv1 ok(1,2) Cons.prems(5) ok(3,4)] same [OF t(2)]
    by (simp add: text_substitute_def subst args)
  moreover have "atoms r' vs = ?subst (atom_of r t)"
    using atoms_more [OF m(2) _ _, of r' vs] a b by simp
  ultimately show ?case by (simp add: us text_substitute_def subst')
qed

section \<open>Expansion\<close>

definition agrees ::
    "pigen_expanded_source \<Rightarrow> pigen_expanded_token list \<Rightarrow> atom list option \<Rightarrow>
     (pigen_expanded_token list \<times> pigen_expanded_source) attempt \<Rightarrow> bool" where
  "agrees r out spec x \<longleftrightarrow>
     (case x of
        Done (out', r') \<Rightarrow> \<exists>xs. spec = Some xs \<and> atoms r' out' = atoms r out @ xs
      | Refused sp message \<Rightarrow> spec = None
      | Fatal message \<Rightarrow> True
      | Unread \<Rightarrow> False
      | Deeper \<Rightarrow> spec = None)"

lemma agrees_same: "atoms r1 out1 = atoms r out \<Longrightarrow> agrees r1 out1 spec x \<Longrightarrow> agrees r out spec x"
  by (cases x) (auto simp: agrees_def)

lemma agrees_then:
  assumes "agrees r out one x"
    and "\<And>out1 r1 xs. x = Done (out1, r1) \<Longrightarrow> one = Some xs \<Longrightarrow> atoms r1 out1 = atoms r out @ xs \<Longrightarrow>
      agrees r1 out1 two (f (out1, r1))"
  shows "agrees r out (Option.bind one (\<lambda>xs. map_option ((@) xs) two)) (attempt_then x f)"
proof (cases x)
  case (Done y)
  obtain out1 r1 where y: "y = (out1, r1)" by (cases y)
  with assms(1) Done obtain xs where xs: "one = Some xs" "atoms r1 out1 = atoms r out @ xs" by (auto simp: agrees_def)
  from assms(2) [OF Done [unfolded y] xs] show ?thesis
    using xs by (auto simp: Done y agrees_def split: attempt.splits prod.splits)
qed (use assms(1) in \<open>auto simp: agrees_def\<close>)

lemma substitute_argument_result:
  "\<exists>x. substitute_argument r invocation formal macro ts = Done x \<or>
    (\<exists>message. substitute_argument r invocation formal macro ts = Fatal message)"
proof (induction ts arbitrary: r)
  case (Cons t ts)
  show ?case
  proof (cases "length (token_origins r) = PIGEN_INVALID_ID")
    case False
    then obtain i r1 where "add_argument_origin r invocation formal (token_origin t) macro = Done (i, r1)"
      by (auto simp: add_argument_origin_def add_origin_def)
    then show ?thesis using Cons.IH [of r1] by (auto split: prod.splits)
  qed (simp add: add_argument_origin_def add_origin_def)
qed simp

lemma substitute_result:
  "\<exists>x. substitute r m macro invocation arguments ts = Done x \<or>
    (\<exists>message. substitute r m macro invocation arguments ts = Fatal message)"
proof (induction ts arbitrary: r)
  case (Cons t ts)
  let ?one = "case parameter_index r m t of
          Some parameter \<Rightarrow> substitute_argument r invocation
              (parameter_origin (macro_parameters r ! (first_parameter m + parameter))) macro (arguments ! parameter)
        | None \<Rightarrow> attempt_then (add_replacement_origin r invocation (token_origin t) macro)
              (\<lambda>(origin, result1). Done ([t\<lparr>token_origin := origin\<rparr>], result1))"
  have "(\<exists>x. ?one = Done x) \<or> (\<exists>message. ?one = Fatal message)"
    using substitute_argument_result by (auto simp: add_replacement_origin_def add_origin_def split: option.split)
  then show ?case
  proof (elim disjE exE)
    fix x
    assume one: "?one = Done x"
    obtain us r1 where x: "x = (us, r1)" by (cases x)
    from one x show ?thesis using Cons.IH [of r1] by (auto split: prod.splits)
  qed auto
qed simp

text \<open>The running expansions are those that their names refer to.\<close>

definition stack_named :: "pigen_expanded_source \<Rightarrow> id list \<Rightarrow> bool" where
  "stack_named r stack \<longleftrightarrow> (\<forall>j \<in> set stack. named_macro r (macro_text r j) = Some j)"

lemma on_stack:
  assumes "stack_named r stack" and "named_macro r (macro_text r i) = Some i"
  shows "i \<in> set stack \<longleftrightarrow> macro_text r i \<in> macro_text r ` set stack"
  using assms unfolding stack_named_def by (metis (no_types, lifting) image_iff option.inject)

lemma text_macro_body [simp]:
  "text_macro_of r m\<lparr>macro_body := atoms r (slice (first_replacement m) (replacement_count m) (replacement_tokens r))\<rparr> =
     text_macro_of r m"
  by (simp add: text_macro_of_def)

lemma formals_count: "macro_ok r m \<Longrightarrow> length (macro_formals (text_macro_of r m)) = macro_parameter_count m"
  by (simp add: text_macro_of_def macro_ok_def)

lemma parse_macro_arguments_text:
  assumes "origins_ok r" and "tokens_ok r ts" and "macro_ok r m"
  shows "(\<exists>arguments after. parse_macro_arguments r m invocation ts = Done (arguments, after) \<and>
      text_arguments (length (macro_formals (text_macro_of r m))) 0 1 0 0 [] [] (atoms r ts) =
        Some (map (atoms r) arguments, atoms r after)) \<or>
    (\<exists>sp message. parse_macro_arguments r m invocation ts = Refused sp message \<and>
      text_arguments (length (macro_formals (text_macro_of r m))) 0 1 0 0 [] [] (atoms r ts) = None)"
proof -
  have "abstract_arguments r (parse_macro_arguments r m invocation ts) =
      text_arguments (length (macro_formals (text_macro_of r m))) 0 1 0 0 [] [] (atoms r ts)"
    using macro_argument_list_text [OF assms(1,2), of m invocation 0 1 0 0 "[]" "[]"]
    by (simp add: parse_macro_arguments_def formals_count [OF assms(3)])
  moreover obtain x where "parse_macro_arguments r m invocation ts = Done x \<or>
      (\<exists>sp message. parse_macro_arguments r m invocation ts = Refused sp message)"
    using macro_argument_list_result unfolding parse_macro_arguments_def by blast
  ultimately show ?thesis by (cases x) (metis abstract_arguments_simps)
qed

lemma expand_text:
  "expanded_inv r \<Longrightarrow> tokens_ok r out \<Longrightarrow> tokens_ok r ts \<Longrightarrow> stack_named r stack \<Longrightarrow>
    agrees r out (text_expand depth (text_env r) (map (macro_text r) stack) (atoms r ts)) (expand_tokens depth r stack out ts)"
  "expanded_inv r \<Longrightarrow> tokens_ok r out \<Longrightarrow> stack_named r stack \<Longrightarrow> i < length (macro_definitions r) \<Longrightarrow>
    invocation < length (token_origins r) \<Longrightarrow> length arguments = macro_parameter_count (macro_definitions r ! i) \<Longrightarrow>
    (\<forall>a \<in> set arguments. tokens_ok r a) \<Longrightarrow> named_macro r (macro_text r i) = Some i \<Longrightarrow>
    agrees r out (text_run depth (text_env r) (map (macro_text r) stack) (macro_text r i)
      (text_macro_of r (macro_definitions r ! i)) (map (atoms r) arguments))
      (expand_macro depth r stack out i invocation arguments)"
proof (induction depth r stack out ts and depth r stack out i invocation arguments
    rule: expand_tokens_expand_macro.induct)
  case (3 depth r stack out tok name rest)
  let ?call = "token_text_is r tok ''`'' \<and> expanded_kind name = PIGEN_TOKEN_IDENTIFIER"
  let ?m = "\<lambda>i. macro_definitions r ! i"
  have ok: "origins_ok r" "length (macro_definitions r) \<le> PIGEN_INVALID_ID"
    using "3.prems"(1) by (simp_all add: expanded_inv_def)
  have t: "token_origin tok < length (token_origins r)" "token_origin name < length (token_origins r)" "tokens_ok r rest"
    "tokens_ok r (tl rest)"
    using "3.prems"(3) tokens_ok_tl by auto
  have call: "?call \<longleftrightarrow> snd (atom_of r tok) = ''`'' \<and> fst (atom_of r name) = PIGEN_TOKEN_IDENTIFIER"
    using token_text_atom [OF ok(1) t(1)] by simp
  have find: "find_macro r (pigen_origin_spelling_span r (token_origin name)) = named_macro r (snd (atom_of r name))"
    using find_macro_named [OF spelled [OF ok(1) t(2)] ok(2)] by (simp add: atom_of_def)
  have rest_same: "agrees r1 out1 (text_expand depth (text_env r) (map (macro_text r) stack) (atoms r us)) (expand_tokens depth r1 stack out1 us)"
    if "expanded_to r out r1 out1" "tokens_ok r us"
      "expanded_inv r1 \<Longrightarrow> tokens_ok r1 out1 \<Longrightarrow> tokens_ok r1 us \<Longrightarrow> stack_named r1 stack \<Longrightarrow>
        agrees r1 out1 (text_expand depth (text_env r1) (map (macro_text r1) stack) (atoms r1 us)) (expand_tokens depth r1 stack out1 us)"
    for out1 r1 us
  proof -
    have a: "more_origins r r1" "expanded_inv r1" "tokens_ok r1 out1" "origins_ok r1"
      using that(1) by (simp_all add: expanded_to_def expanded_inv_def)
    note e = env_more [OF "3.prems"(1) a(2,1)]
    show ?thesis
      using that(3) [OF a(2,3) tokens_ok_more [OF a(1) that(2)]] "3.prems"(4) atoms_more [OF ok(1) a(4,1) that(2)] e
      by (simp add: stack_named_def)
  qed
  show ?case
  proof (cases ?call)
    case False
    have "agrees r (out @ [tok]) (text_expand depth (text_env r) (map (macro_text r) stack) (atoms r (name # rest)))
        (expand_tokens depth r stack (out @ [tok]) (name # rest))"
      using "3.IH"(5) [OF False] "3.prems" by simp
    then show ?thesis
      using False call by (auto simp: agrees_def split: attempt.splits simp del: de_Morgan_conj)
  next
    case is_call: True
    show ?thesis
    proof (cases "named_macro r (snd (atom_of r name))")
      case None
      then show ?thesis using is_call call find by (simp add: text_env_def agrees_def)
    next
      case (Some i)
      then have found: "find_macro r (pigen_origin_spelling_span r (token_origin name)) = Some i" using find by simp
      have i: "i < length (macro_definitions r)" using find_macro_Some [OF found ok(2)] by simp
      have named: "macro_text r i = snd (atom_of r name)" using named_macro_text [OF Some] .
      then have self: "named_macro r (macro_text r i) = Some i" using Some by simp
      have env: "text_env r (snd (atom_of r name)) = Some (text_macro_of r (?m i))" by (simp add: text_env_def Some)
      note mok = expanded_inv_macro [OF "3.prems"(1) i]
      have wa: "with_arguments (text_macro_of r (?m i)) = function_like (?m i)" by (simp add: text_macro_of_def)
      show ?thesis
      proof (cases "function_like (?m i)")
        case object: False
        then have none: "macro_parameter_count (?m i) = 0" using mok by (simp add: macro_ok_def)
        have one: "agrees r out (text_run depth (text_env r) (map (macro_text r) stack) (macro_text r i)
            (text_macro_of r (?m i)) []) (expand_macro depth r stack out i (token_origin name) [])"
          using "3.IH"(3) [OF is_call found object "3.prems"(1,2,4) i t(2)] none self by simp
        have "agrees r out (Option.bind (text_run depth (text_env r) (map (macro_text r) stack) (macro_text r i)
              (text_macro_of r (?m i)) []) (\<lambda>xs. map_option ((@) xs)
                (text_expand depth (text_env r) (map (macro_text r) stack) (atoms r rest))))
            (attempt_then (expand_macro depth r stack out i (token_origin name) [])
              (\<lambda>(out1, r1). expand_tokens depth r1 stack out1 rest))"
        proof (rule agrees_then [OF one])
          fix out1 r1 xs
          assume run: "expand_macro depth r stack out i (token_origin name) [] = Done (out1, r1)"
          then have "expanded_to r out r1 out1" using expand_ok(2) [OF run "3.prems"(1,2) i t(2)] none by simp
          from rest_same [OF this t(3) "3.IH"(4) [OF is_call found object]]
          show "agrees r1 out1 (text_expand depth (text_env r) (map (macro_text r) stack) (atoms r rest))
              (case (out1, r1) of (out1, r1) \<Rightarrow> expand_tokens depth r1 stack out1 rest)" by simp
        qed
        then show ?thesis using is_call call found object env wa named by simp
      next
        case is_fun: True
        show ?thesis
        proof (cases "rest = [] \<or> \<not> token_text_is r (hd rest) ''(''")
          case True
          then show ?thesis
            using is_call call found is_fun env wa t(3) token_text_atom [OF ok(1), of "hd rest"]
            by (cases rest) (auto simp: agrees_def)
        next
          case open1: False
          then have open2: "rest \<noteq> []" "snd (atom_of r (hd rest)) = ''(''" "atoms r (tl rest) = tl (atoms r rest)"
            "hd (atoms r rest) = atom_of r (hd rest)"
            using t(3) token_text_atom [OF ok(1), of "hd rest"] by (cases rest; simp)+
          show ?thesis
            using parse_macro_arguments_text [OF ok(1) t(4) mok, of "token_origin name"]
          proof (elim disjE exE conjE)
            fix sp message
            assume "parse_macro_arguments r (?m i) (token_origin name) (tl rest) = Refused sp message"
              "text_arguments (length (macro_formals (text_macro_of r (?m i)))) 0 1 0 0 [] [] (atoms r (tl rest)) = None"
            then show ?thesis
              using is_call call found is_fun env wa open1 open2 by (simp add: agrees_def)
          next
            fix arguments after
            assume parse: "parse_macro_arguments r (?m i) (token_origin name) (tl rest) = Done (arguments, after)"
              and texts: "text_arguments (length (macro_formals (text_macro_of r (?m i)))) 0 1 0 0 [] [] (atoms r (tl rest)) =
                Some (map (atoms r) arguments, atoms r after)"
            note args = parse_macro_arguments_ok [OF parse t(4)]
            have one: "agrees r out (text_run depth (text_env r) (map (macro_text r) stack) (macro_text r i)
                (text_macro_of r (?m i)) (map (atoms r) arguments)) (expand_macro depth r stack out i (token_origin name) arguments)"
              using "3.IH"(1) [OF is_call found is_fun open1 parse refl "3.prems"(1,2,4) i t(2)] args self by simp
            have "agrees r out (Option.bind (text_run depth (text_env r) (map (macro_text r) stack) (macro_text r i)
                  (text_macro_of r (?m i)) (map (atoms r) arguments)) (\<lambda>xs. map_option ((@) xs)
                    (text_expand depth (text_env r) (map (macro_text r) stack) (atoms r after))))
                (attempt_then (expand_macro depth r stack out i (token_origin name) arguments)
                  (\<lambda>(out1, r1). expand_tokens depth r1 stack out1 after))"
            proof (rule agrees_then [OF one])
              fix out1 r1 xs
              assume run: "expand_macro depth r stack out i (token_origin name) arguments = Done (out1, r1)"
              then have "expanded_to r out r1 out1" using expand_ok(2) [OF run "3.prems"(1,2) i t(2)] args by simp
              from rest_same [OF this _ "3.IH"(2) [OF is_call found is_fun open1 parse refl]] args
              show "agrees r1 out1 (text_expand depth (text_env r) (map (macro_text r) stack) (atoms r after))
                  (case (out1, r1) of (out1, r1) \<Rightarrow> expand_tokens depth r1 stack out1 after)" by simp
            qed
            then show ?thesis using is_call call found is_fun env wa named open1 open2 parse texts by simp
          qed
        qed
      qed
    qed
  qed
next
  case (5 depth r stack out i invocation arguments)
  let ?m = "macro_definitions r ! i"
  let ?body = "slice (first_replacement ?m) (replacement_count ?m) (replacement_tokens r)"
  have mem: "macro_text r i \<in> set (map (macro_text r) stack) \<longleftrightarrow> i \<in> set stack" using on_stack [OF "5.prems"(3,8)] by simp
  have run: "agrees r out (text_expand depth (text_env r) (map (macro_text r) (stack @ [i]))
        (text_substitute (text_macro_of r ?m) (map (atoms r) arguments)))
      (expand_tokens depth r1 (stack @ [i]) out us)"
    if new: "i \<notin> set stack" and sub: "substitute r ?m i invocation arguments ?body = Done (us, r1)" for us r1
  proof -
    have body: "tokens_ok r ?body" using "5.prems"(1) by (auto simp: expanded_inv_def intro: tokens_ok_slice)
    have ok: "origins_ok r" using "5.prems"(1) by (simp add: expanded_inv_def)
    note mok = expanded_inv_macro [OF "5.prems"(1,4)]
    from substitute_ok [OF sub "5.prems"(1) mok "5.prems"(5-7) body]
    have a: "more_origins r r1" "origins_ok r1" "tokens_ok r1 us" by auto
    have inv1: "expanded_inv r1" using expanded_inv_more [OF "5.prems"(1) a(1,2)] .
    note e = env_more [OF "5.prems"(1) inv1 a(1)]
    have "atoms r1 us = text_substitute (text_macro_of r ?m) (map (atoms r) arguments)"
      using substitute_text [OF sub "5.prems"(1) mok "5.prems"(5-7) body] by simp
    moreover have "stack_named r1 (stack @ [i])" using "5.prems"(3,8) e by (auto simp: stack_named_def)
    ultimately have "agrees r1 out (text_expand depth (text_env r) (map (macro_text r) (stack @ [i]))
          (text_substitute (text_macro_of r ?m) (map (atoms r) arguments)))
        (expand_tokens depth r1 (stack @ [i]) out us)"
      using "5.IH" [OF new refl inv1 tokens_ok_more [OF a(1) "5.prems"(2)] a(3)] e by simp
    then show ?thesis by (rule agrees_same [OF atoms_more [OF ok a(2,1) "5.prems"(2)]])
  qed
  show ?case
  proof (cases "i \<in> set stack")
    case True
    then show ?thesis using mem by (simp add: agrees_def)
  next
    case False
    show ?thesis
    proof (cases "substitute r ?m i invocation arguments ?body")
      case (Done x)
      then show ?thesis using run [OF False] False mem by (cases x) simp
    qed (use False mem substitute_result [of r ?m i invocation arguments ?body] in \<open>auto simp: agrees_def\<close>)
  qed
qed (auto simp: agrees_def)

end
