(* ===== verification/PreprocessSample.thy ===== *)
theory PreprocessSample
  imports Directives
begin

text \<open>
  A run of the preprocessor on a file that defines a macro and invokes it, for the examples of the properties.
\<close>

section \<open>A sample\<close>

definition sample_macro_text :: string where
  "sample_macro_text = ''`define A 1'' @ [newline] @ ''`A''"

definition sample_macro_sources :: pigen_source_manager where
  "sample_macro_sources = [\<lparr>source_path = ''a'', source_text = sample_macro_text, line_starts = [0, 12]\<rparr>]"

definition sample_macro_tokens :: "pigen_token list" where
  "sample_macro_tokens = map (\<lambda>(k, s, e, l, c). \<lparr>token_kind = k, token_start = s, token_end = e, token_line = l, token_column = c\<rparr>)
    [(PIGEN_TOKEN_SYMBOL, 0, 1, 1, 1), (PIGEN_TOKEN_IDENTIFIER, 1, 7, 1, 2), (PIGEN_TOKEN_IDENTIFIER, 8, 9, 1, 9),
     (PIGEN_TOKEN_NUMBER, 10, 11, 1, 11), (PIGEN_TOKEN_SYMBOL, 12, 13, 2, 1), (PIGEN_TOKEN_IDENTIFIER, 13, 14, 2, 2),
     (PIGEN_TOKEN_EOF, 14, 14, 2, 3)]"

lemma sample_macro_lexed: "pigen_lex_source sample_macro_text [] = Value sample_macro_tokens"
  by code_simp

lemmas sample_run_defs = pigen_preprocess_def sample_macro_sources_def pigen_source_get_def source_tokens_def
  pigen_source_view_file_def Let_def raw_conditional_kind_def raw_directive_is_def pigen_token_is_def slice_def
  conditional_active_def define_macro_def collect_logical_directive.simps raw_line_def raw_line_after_def on_line_def
  continuation_status_def last_line_def read_macro_def publish_macro_def add_source_origin_def add_origin_def
  append_replacement_token_def add_macro_def find_macro_def deactivate_def raw_span_def sample_macro_tokens_def u32_def
  PIGEN_INVALID_ID_def expand_all_def token_text_is_def pigen_expanded_token_text_def pigen_source_span_text_def
  pigen_source_span_valid_def pigen_origin_spelling_span_def pigen_origin_get_def span_equal_text_def
  add_replacement_origin_def parameter_index_def upt_rec

lemma sample_run:
  "\<exists>x. pigen_preprocess sample_macro_sources 0 None = Done x \<and> length (expanded_tokens (expanded_source x)) = 2 \<and>
     pigen_expanded_token_text (expanded_source x) (expanded_tokens (expanded_source x) ! 0) = Some ''1''"
  by (simp add: sample_run_defs sample_macro_lexed [unfolded sample_macro_text_def, simplified] sample_macro_text_def)

text \<open>A definition that stands for the token that spells it, as the expansion meets it.\<close>

definition sample_expanded :: pigen_expanded_source where
  "sample_expanded = \<lparr>managed_sources = sample_macro_sources, expanded_root = 0, expanded_tokens = [],
     token_origins = map (\<lambda>(s, e). PIGEN_ORIGIN_SOURCE \<lparr>span_source = 0, span_start = s, span_end = e\<rparr>)
       [(10, 11), (12, 13), (13, 14)],
     macro_definitions = [\<lparr>macro_name = \<lparr>span_source = 0, span_start = 8, span_end = 9\<rparr>,
       macro_span = \<lparr>span_source = 0, span_start = 0, span_end = 11\<rparr>, first_parameter = 0, macro_parameter_count = 0,
       first_replacement = 0, replacement_count = 1, function_like = False, macro_active = True\<rparr>],
     macro_parameters = [], replacement_tokens = [\<lparr>expanded_kind = PIGEN_TOKEN_NUMBER, token_origin = 0\<rparr>]\<rparr>"

definition sample_invocation :: "pigen_expanded_token list" where
  "sample_invocation = [\<lparr>expanded_kind = PIGEN_TOKEN_SYMBOL, token_origin = 1\<rparr>,
     \<lparr>expanded_kind = PIGEN_TOKEN_IDENTIFIER, token_origin = 2\<rparr>]"

lemma sample_expansion: "\<exists>out r'. expand_all sample_expanded [] sample_invocation = Done (out, r')"
  by (simp add: sample_run_defs sample_expanded_def sample_invocation_def sample_macro_text_def)

end
