(* ===== verification/PreprocessProperties.thy ===== *)
theory PreprocessProperties
  imports DirectivesInvariant TextExpansion PreprocessSample
begin

text \<open>
  Properties of the preprocessor: it ends, every token it emits has its text and its place in a file, the
  stack of conditional frames implements the nesting of blocks, and macro expansion on tokens with provenance
  implements expansion on texts.
\<close>

section \<open>Blocks\<close>

text \<open>
  An open block as the text reads: the conditions of its branches so far, \<open>else\<close> being true, and whether the
  last branch is an \<open>else\<close>. The current branch is selected when its condition is the first that holds.
\<close>

type_synonym block = "bool list \<times> bool"

definition selected :: "block \<Rightarrow> bool" where
  "selected b \<longleftrightarrow> last (fst b) \<and> True \<notin> set (butlast (fst b))"

definition open_block :: "block \<Rightarrow> bool" where
  "open_block b \<longleftrightarrow> fst b \<noteq> []"

fun block_step :: "conditional_kind \<Rightarrow> bool \<Rightarrow> block list \<Rightarrow> block list option" where
  "block_step CONDITIONAL_IFDEF defined bs = Some (bs @ [([defined], False)])"
| "block_step CONDITIONAL_IFNDEF defined bs = Some (bs @ [([\<not> defined], False)])"
| "block_step CONDITIONAL_ELSIF defined bs =
     (if bs = [] \<or> snd (last bs) then None else Some (butlast bs @ [(fst (last bs) @ [defined], False)]))"
| "block_step CONDITIONAL_ELSE defined bs =
     (if bs = [] \<or> snd (last bs) then None else Some (butlast bs @ [(fst (last bs) @ [True], True)]))"
| "block_step CONDITIONAL_ENDIF defined bs = (if bs = [] then None else Some (butlast bs))"
| "block_step CONDITIONAL_NONE defined bs = Some bs"

text \<open>The frames that the code keeps for the blocks.\<close>

fun frames_of :: "bool \<Rightarrow> block list \<Rightarrow> (bool \<times> bool \<times> bool \<times> bool) list" where
  "frames_of parent [] = []"
| "frames_of parent (b # bs) =
     (parent, True \<in> set (fst b), parent \<and> selected b, snd b) # frames_of (parent \<and> selected b) bs"

definition frame_view :: "conditional_frame \<Rightarrow> bool \<times> bool \<times> bool \<times> bool" where
  "frame_view f = (parent_active f, branch_taken f, branch_active f, saw_else f)"

definition represents :: "conditional_frame list \<Rightarrow> block list \<Rightarrow> bool" where
  "represents frames bs \<longleftrightarrow> map frame_view frames = frames_of True bs \<and> (\<forall>b \<in> set bs. open_block b)"

lemma frames_of_append:
  "frames_of p (bs @ [b]) = frames_of p bs @
     [(p \<and> (\<forall>x \<in> set bs. selected x), True \<in> set (fst b), (p \<and> (\<forall>x \<in> set bs. selected x)) \<and> selected b, snd b)]"
  by (induction p bs rule: frames_of.induct) auto

lemma represents_append:
  "represents frames (bs @ [b]) \<longleftrightarrow>
     frames \<noteq> [] \<and> represents (butlast frames) bs \<and> open_block b \<and>
     frame_view (last frames) = ((\<forall>x \<in> set bs. selected x), True \<in> set (fst b),
       (\<forall>x \<in> set bs. selected x) \<and> selected b, snd b)"
  by (cases frames rule: rev_cases) (auto simp: represents_def frames_of_append)

lemma represents_Nil [simp]: "represents frames [] \<longleftrightarrow> frames = []"
  by (simp add: represents_def)

lemma represents_empty: "represents [] bs \<longleftrightarrow> bs = []"
  by (cases bs) (simp_all add: represents_def)

lemma represents_active:
  assumes "represents frames bs"
  shows "conditional_active frames \<longleftrightarrow> (\<forall>b \<in> set bs. selected b)"
  using assms
  by (cases bs rule: rev_cases) (auto simp: represents_append conditional_active_def frame_view_def)

lemma selected_snoc [simp]: "selected (cs @ [c], e) \<longleftrightarrow> c \<and> True \<notin> set cs" "selected ([c], e) \<longleftrightarrow> c"
  by (simp_all add: selected_def)

text \<open>The outcome of a directive, where a macro name is present if the directive needs one.\<close>

lemma conditional_step:
  assumes rep: "represents (conditionals pp) bs"
    and name: "kind \<in> {CONDITIONAL_IFDEF, CONDITIONAL_IFNDEF, CONDITIONAL_ELSIF} \<Longrightarrow>
      3 \<le> length raw \<and> token_kind (raw ! 2) = PIGEN_TOKEN_IDENTIFIER"
    and kind: "kind \<noteq> CONDITIONAL_NONE"
  shows "case block_step kind (find_macro (preprocessor_result pp) (raw_span source (raw ! 2)) \<noteq> None) bs of
      None \<Rightarrow> \<exists>sp message. handle_conditional pp source raw kind = Refused sp (Some message)
    | Some bs' \<Rightarrow> \<exists>pp' after. handle_conditional pp source raw kind = Done (pp', after) \<and>
        represents (conditionals pp') bs' \<and> preprocessor_result pp' = preprocessor_result pp"
proof -
  let ?defined = "find_macro (preprocessor_result pp) (raw_span source (raw ! 2)) \<noteq> None"
  have two: "drop 2 raw \<noteq> []" "hd (drop 2 raw) = raw ! 2" if "3 \<le> length raw"
    using that by (auto simp: hd_drop_conv_nth)
  show ?thesis
  proof (cases "kind \<in> {CONDITIONAL_IFDEF, CONDITIONAL_IFNDEF}")
    case True
    then show ?thesis
      using name two represents_active [OF rep] rep
      by (auto simp: handle_conditional_def Let_def represents_append frame_view_def open_block_def)
  next
    case False
    show ?thesis
    proof (cases bs rule: rev_cases)
      case Nil
      then show ?thesis
        using False rep name two kind by (cases kind) (auto simp: handle_conditional_def Let_def)
    next
      case (snoc cs b)
      then have b: "open_block b" "conditionals pp \<noteq> []" "represents (butlast (conditionals pp)) cs"
        "frame_view (last (conditionals pp)) = ((\<forall>x \<in> set cs. selected x), True \<in> set (fst b),
          (\<forall>x \<in> set cs. selected x) \<and> selected b, snd b)"
        using rep by (auto simp: represents_append)
      show ?thesis
        using False snoc b name two kind
        by (cases kind) (auto simp: handle_conditional_def Let_def represents_append frame_view_def open_block_def)
    qed
  qed
qed

text \<open>
  C5: The stack of conditional frames implements the nesting of blocks: where the frames represent the open
  blocks, the current branch is active exactly when each enclosing block selects it, that is, its condition is
  the first of the block that holds; each conditional directive takes the frames of the blocks before it to
  those of the blocks after it and leaves macros and tokens alone; and a directive that no open block allows, an
  elsif, else or endif outside a block and an elsif or else after the else, is refused.
\<close>

theorem conditional_blocks:
  assumes "represents (conditionals pp) bs"
    and "kind \<in> {CONDITIONAL_IFDEF, CONDITIONAL_IFNDEF, CONDITIONAL_ELSIF} \<Longrightarrow>
      3 \<le> length raw \<and> token_kind (raw ! 2) = PIGEN_TOKEN_IDENTIFIER"
    and "kind \<noteq> CONDITIONAL_NONE"
  shows "(conditional_active (conditionals pp) \<longleftrightarrow> (\<forall>b \<in> set bs. selected b)) \<and>
    (case block_step kind (find_macro (preprocessor_result pp) (raw_span source (raw ! 2)) \<noteq> None) bs of
       None \<Rightarrow> \<exists>sp message. handle_conditional pp source raw kind = Refused sp (Some message)
     | Some bs' \<Rightarrow> \<exists>pp' after. handle_conditional pp source raw kind = Done (pp', after) \<and>
         represents (conditionals pp') bs' \<and> preprocessor_result pp' = preprocessor_result pp)"
  using represents_active [OF assms(1)] conditional_step [OF assms] by blast

section \<open>The sample satisfies the invariant\<close>

lemma sample_expanded_inv: "expanded_inv sample_expanded" "tokens_ok sample_expanded sample_invocation"
proof -
  have three: "i = 0 \<or> i = 1 \<or> i = 2" if "i < 3" for i :: nat
    using that by linarith
  have "origin_ok sample_macro_sources i (token_origins sample_expanded ! i)" if "i < 3" for i
    using three [OF that]
    by (auto simp: sample_expanded_def sample_macro_sources_def pigen_source_span_valid_def pigen_source_get_def PIGEN_INVALID_ID_def sample_macro_text_def)
  moreover have "length (token_origins sample_expanded) = 3" "managed_sources sample_expanded = sample_macro_sources"
    by (simp_all add: sample_expanded_def)
  ultimately have "origins_ok sample_expanded" by (simp add: origins_ok_def PIGEN_INVALID_ID_def)
  then show "expanded_inv sample_expanded"
    by (simp add: expanded_inv_def tokens_ok_def macro_ok_def sample_expanded_def PIGEN_INVALID_ID_def)
  show "tokens_ok sample_expanded sample_invocation"
    by (simp add: tokens_ok_def sample_expanded_def sample_invocation_def)
qed

lemma conditional_blocks_witness:
  "\<exists>pp' after. handle_conditional
       \<lparr>preprocessor_result = sample_expanded,
        preprocessor_written = \<lparr>written_root = 0, written_files = [], written_includes = []\<rparr>,
        conditionals = [\<lparr>conditional_opening = invalid_span, parent_active = True, branch_taken = True,
          branch_active = True, saw_else = False\<rparr>]\<rparr> 0 (take 2 sample_macro_tokens) CONDITIONAL_ELSE = Done (pp', after) \<and>
     represents (conditionals pp') [([True, True], True)]"
proof -
  let ?pp = "\<lparr>preprocessor_result = sample_expanded,
        preprocessor_written = \<lparr>written_root = 0, written_files = [], written_includes = []\<rparr>,
        conditionals = [\<lparr>conditional_opening = invalid_span, parent_active = True, branch_taken = True,
          branch_active = True, saw_else = False\<rparr>]\<rparr>"
  have "represents (conditionals ?pp) [([True], False)]"
    by (simp add: represents_def frame_view_def selected_def open_block_def)
  from conditional_blocks [OF this, of CONDITIONAL_ELSE "take 2 sample_macro_tokens" 0]
  show ?thesis by auto
qed

section \<open>The run\<close>

text \<open>
  C36: Preprocessing ends, whatever the text of the files, the includes and the macros: a file that is being
  included and a macro that is being expanded are refused, so both nest no deeper than there are files and
  definitions, and each step of the main loop takes a token of the file.
\<close>

theorem preprocess_ends: "pigen_preprocess sources source provider \<noteq> Deeper"
  by (rule preprocess_sound)

text \<open>
  C37: Every token of the expanded source has a text and two places in files: where it is spelled and where
  the outermost invocation it comes from stands; origins refer to earlier origins only, so the walk to
  either place ends; the files that were read are lexed as they are, and each include refers to a file.
\<close>

theorem preprocess_provenance:
  assumes "pigen_preprocess sources source provider = Done x"
  shows "managed_sources (expanded_source x) = sources \<and>
    (\<forall>t \<in> set (expanded_tokens (expanded_source x)).
       pigen_expanded_token_text (expanded_source x) t \<noteq> None \<and>
       pigen_source_span_valid sources (pigen_origin_spelling_span (expanded_source x) (token_origin t)) \<and>
       pigen_source_span_valid sources (pigen_origin_expansion_span (expanded_source x) (token_origin t))) \<and>
    (\<forall>i < length (token_origins (expanded_source x)). origin_ok sources i (token_origins (expanded_source x) ! i)) \<and>
    (\<forall>view \<in> set (written_files (written_view x)). \<exists>file. pigen_source_get sources (viewed_source view) = Some file \<and>
       pigen_lex_source (source_text file) [] = Value (viewed_tokens view)) \<and>
    (\<forall>include \<in> set (written_includes (written_view x)). pigen_source_get sources (included_source include) \<noteq> None)"
proof -
  obtain pp where inv: "preprocessor_inv sources pp" and x: "expanded_source x = preprocessor_result pp"
    "written_view x = preprocessor_written pp"
    using preprocess_sound(2) [OF assms] by auto
  let ?r = "preprocessor_result pp"
  have ok: "origins_ok ?r" "managed_sources ?r = sources" "tokens_ok ?r (expanded_tokens ?r)"
    using inv by (simp_all add: preprocessor_inv_def expanded_inv_def)
  have "pigen_expanded_token_text ?r t \<noteq> None \<and> pigen_source_span_valid sources (pigen_origin_spelling_span ?r (token_origin t)) \<and>
      pigen_source_span_valid sources (pigen_origin_expansion_span ?r (token_origin t))"
    if "t \<in> set (expanded_tokens ?r)" for t
  proof -
    have t: "token_origin t < length (token_origins ?r)" using ok(3) that by (simp add: tokens_ok_def)
    show ?thesis
      using token_text_ok [OF ok(1) t] spelling_walk_ok [OF ok(1) t t] expansion_walk_ok [OF ok(1) t t] ok(2)
      by (simp add: pigen_origin_spelling_span_def pigen_origin_expansion_span_def)
  qed
  then show ?thesis using inv ok unfolding x preprocessor_inv_def origins_ok_def by blast
qed

lemma preprocess_provenance_witness:
  "\<exists>x t. pigen_preprocess sample_macro_sources 0 None = Done x \<and> t \<in> set (expanded_tokens (expanded_source x)) \<and>
     pigen_source_span_valid sample_macro_sources (pigen_origin_expansion_span (expanded_source x) (token_origin t))"
proof -
  obtain x where x: "pigen_preprocess sample_macro_sources 0 None = Done x" "length (expanded_tokens (expanded_source x)) = 2"
    using sample_run by blast
  then have "expanded_tokens (expanded_source x) ! 0 \<in> set (expanded_tokens (expanded_source x))" by simp
  with preprocess_provenance [OF x(1)] x(1) show ?thesis by blast
qed

section \<open>Expansion\<close>

text \<open>
  C1: Macro expansion on tokens with provenance implements expansion on texts: where it succeeds, the kinds
  and texts of the tokens it adds are the expansion of those of its input under the definitions that names
  refer to; where it refuses, the input has no expansion: an unknown macro, a list of arguments that
  does not fit, or a macro invoked while it is being expanded.
\<close>

theorem expansion_refines:
  assumes "expanded_inv r" and "tokens_ok r out" and "tokens_ok r ts"
  shows "case expand_all r out ts of
      Done (out', r') \<Rightarrow> \<exists>xs. text_expand (Suc (length (macro_definitions r))) (text_env r) [] (atoms r ts) = Some xs \<and>
        atoms r' out' = atoms r out @ xs
    | Refused sp message \<Rightarrow> text_expand (Suc (length (macro_definitions r))) (text_env r) [] (atoms r ts) = None
    | Fatal message \<Rightarrow> True
    | _ \<Rightarrow> False"
proof -
  have "agrees r out (text_expand (Suc (length (macro_definitions r))) (text_env r) [] (atoms r ts)) (expand_all r out ts)"
    using expand_text(1) [OF assms, of "[]" "Suc (length (macro_definitions r))"] by (simp add: expand_all_def stack_named_def)
  then show ?thesis using expand_all_ok(1) [OF assms] by (auto simp: agrees_def split: attempt.splits)
qed

lemma expansion_refines_witness:
  "\<exists>out r'. expand_all sample_expanded [] sample_invocation = Done (out, r') \<and>
     text_expand 2 (text_env sample_expanded) [] (atoms sample_expanded sample_invocation) = Some (atoms r' out)"
proof -
  obtain out r' where "expand_all sample_expanded [] sample_invocation = Done (out, r')"
    using sample_expansion by blast
  then show ?thesis
    using expansion_refines [OF sample_expanded_inv(1) _ sample_expanded_inv(2), of "[]"]
    by (auto simp: tokens_ok_def sample_expanded_def numeral_2_eq_2)
qed

end
