(* ===== verification/PackedTypes.thy ===== *)
theory PackedTypes
  imports ConstEval
begin

text \<open>
  Packed widths and the types of projections and concatenations in src/src/data_type.c. The width of a type
  is a constant expression, which these functions build in the model; so each returns the model with its
  answer, and the invalid identity for a failure.
\<close>

section \<open>Constants of the unsized integer type\<close>

definition width_constant :: "pigen_semantic_model \<Rightarrow> nat \<Rightarrow> id \<times> pigen_semantic_model" where
  "width_constant model v =
     (let (unsized, model1) = pigen_data_type_unsized_integer model
      in pigen_const_expr_intern_integer model1 (of_nat v) unsized)"

definition width_sum :: "pigen_semantic_model \<Rightarrow> id \<Rightarrow> id \<Rightarrow> id \<times> pigen_semantic_model" where
  "width_sum model left right = pigen_const_expr_intern_width_sum model [left, right]"

definition width_plus_one :: "pigen_semantic_model \<Rightarrow> id \<Rightarrow> id \<times> pigen_semantic_model" where
  "width_plus_one model width =
     (let (one, model1) = width_constant model 1 in width_sum model1 width one)"

section \<open>Packed width\<close>

text \<open>The number of bits of each dimension, up to the first that has no width.\<close>

fun dimension_factors ::
    "pigen_semantic_model \<Rightarrow> pigen_packed_dimension list \<Rightarrow> id list option \<times> pigen_semantic_model" where
  "dimension_factors model [] = (Some [], model)"
| "dimension_factors model (d # ds) =
     (case pigen_const_expr_intern_select_width model (dimension_left d) (dimension_right d)
         PIGEN_SEMANTIC_SELECT_RANGE of
        (factor, model1) \<Rightarrow>
          if factor = PIGEN_INVALID_ID then (None, model1)
          else case dimension_factors model1 ds of
            (factors, model2) \<Rightarrow> (map_option ((#) factor) factors, model2))"

primrec packed_width :: "nat \<Rightarrow> pigen_semantic_model \<Rightarrow> id \<Rightarrow> id \<times> pigen_semantic_model" where
  "packed_width 0 = (\<lambda>model type. (PIGEN_INVALID_ID, model))"
| "packed_width (Suc remaining) = (\<lambda>model type.
     case data_type_get model type of
       None \<Rightarrow> (PIGEN_INVALID_ID, model)
     | Some known \<Rightarrow>
         if data_constructor known = PIGEN_DATA_TYPE_EXACT_INTEGER then (PIGEN_INVALID_ID, model)
         else case dimension_factors model
             (case pigen_data_type_dimensions model type of None \<Rightarrow> [] | Some ds \<Rightarrow> ds) of
           (None, model1) \<Rightarrow> (PIGEN_INVALID_ID, model1)
         | (Some factors, model1) \<Rightarrow>
             (case
               (if data_constructor known = PIGEN_DATA_TYPE_ALIAS then
                  packed_width remaining model1 (alias_target known)
                else if intrinsic_width known \<noteq> PIGEN_INVALID_ID then (intrinsic_width known, model1)
                else case primitive_descriptor (data_constructor known) of
                  None \<Rightarrow> (PIGEN_INVALID_ID, model1)
                | Some descriptor \<Rightarrow> width_constant model1 (base_width descriptor)) of
                (base, model2) \<Rightarrow>
                  if base = PIGEN_INVALID_ID then (PIGEN_INVALID_ID, model2)
                  else pigen_const_expr_intern_width_product model2 (factors @ [base])))"

definition pigen_data_type_packed_width :: "pigen_semantic_model \<Rightarrow> id \<Rightarrow> id \<times> pigen_semantic_model" where
  "pigen_data_type_packed_width model type = packed_width (length (data_types model) + 1) model type"

section \<open>Sized logic\<close>

definition pigen_data_type_sized_logic ::
    "pigen_semantic_model \<Rightarrow> nat \<Rightarrow> pigen_signedness \<Rightarrow> id \<times> pigen_semantic_model" where
  "pigen_data_type_sized_logic model width signedness =
     (if width = 0 \<or> (signedness \<noteq> PIGEN_SIGN_SIGNED \<and> signedness \<noteq> PIGEN_SIGN_UNSIGNED)
      then (PIGEN_INVALID_ID, model)
      else if width = 1 then data_type_intern model (plain_type PIGEN_DATA_TYPE_LOGIC signedness [])
      else
        let (unsized, model1) = pigen_data_type_unsized_integer model;
            (left, model2) = pigen_const_expr_intern_integer model1 (of_nat (width - 1)) unsized;
            (right, model3) = pigen_const_expr_intern_integer model2 0 unsized
        in if left = PIGEN_INVALID_ID \<or> right = PIGEN_INVALID_ID then (PIGEN_INVALID_ID, model3)
           else data_type_intern model3
             (plain_type PIGEN_DATA_TYPE_LOGIC signedness [\<lparr>dimension_left = left, dimension_right = right\<rparr>]))"

section \<open>Validity of a conversion\<close>

text \<open>
  Whether a width is known to be at least another: both have values, or one of the operands of a maximum
  is known to be.
\<close>

primrec width_proves_at_least ::
    "nat \<Rightarrow> pigen_semantic_model \<Rightarrow> id \<Rightarrow> id \<Rightarrow> bool \<times> pigen_semantic_model" where
  "width_proves_at_least 0 = (\<lambda>model candidate required. (False, model))"
| "width_proves_at_least (Suc remaining) = (\<lambda>model candidate required.
     if candidate = required then (True, model)
     else case pigen_const_expr_evaluate_u64 model candidate of
       (candidate_value, model1) \<Rightarrow>
         (case (if candidate_value = None then (None, model1) else pigen_const_expr_evaluate_u64 model1 required) of
            (required_value, model2) \<Rightarrow>
              if candidate_value \<noteq> None \<and> required_value \<noteq> None then
                (the candidate_value \<ge> the required_value, model2)
              else case map_option const_as (pigen_const_expr_get model2 candidate) of
                Some (PIGEN_CONST_EXPR_SEQUENCE kind first count) \<Rightarrow>
                  if kind \<noteq> PIGEN_CONST_EXPR_WIDTH_MAXIMUM then (False, model2)
                  else (case pigen_const_expr_children model2 first count of
                      None \<Rightarrow> (False, model2)
                    | Some children \<Rightarrow>
                        fold (\<lambda>c (proved, m). if proved then (True, m) else width_proves_at_least remaining m c required)
                          children (False, model2))
              | _ \<Rightarrow> (False, model2)))"

definition promotion_is_valid :: "pigen_semantic_model \<Rightarrow> pigen_conversion \<Rightarrow> bool \<times> pigen_semantic_model" where
  "promotion_is_valid model conversion =
     (case (underlying model (source_data_type conversion), underlying model (target_data_type conversion)) of
        (Some source_type, Some target_type) \<Rightarrow>
          let (one, model1) = width_constant model 1;
              (required, model2) = pigen_const_expr_intern_width_sum model1 [intrinsic_width source_type, one]
          in if required = PIGEN_INVALID_ID then (False, model2)
             else width_proves_at_least (length (constant_expressions model2) + 1) model2
               (intrinsic_width target_type) required
      | _ \<Rightarrow> (False, model))"

definition pigen_data_type_conversion_is_valid ::
    "pigen_semantic_model \<Rightarrow> pigen_conversion \<Rightarrow> bool \<times> pigen_semantic_model" where
  "pigen_data_type_conversion_is_valid model conversion =
     (let from_type = source_data_type conversion;
          to_type = target_data_type conversion;
          source = pigen_data_type_numerical_interpretation model from_type;
          target = pigen_data_type_numerical_interpretation model to_type
      in if data_type_get model from_type = None \<or> data_type_get model to_type = None then (False, model)
         else if conversion_kind conversion = PIGEN_CONVERSION_IDENTITY then (from_type = to_type, model)
         else if from_type = to_type then (False, model)
         else case conversion_kind conversion of
           PIGEN_CONVERSION_INTEGER_RESIZE \<Rightarrow> (numerical_is_concrete source \<and> source = target, model)
         | PIGEN_CONVERSION_EXACT_INTEGER \<Rightarrow>
             (source = PIGEN_NUMERICAL_EXACT_INTEGER \<and>
               (numerical_is_concrete target \<or> pigen_data_type_is_integral model to_type), model)
         | PIGEN_CONVERSION_INTEGER_PROMOTION \<Rightarrow>
             if source \<noteq> PIGEN_NUMERICAL_UNSIGNED_INTEGER \<or> target \<noteq> PIGEN_NUMERICAL_SIGNED_INTEGER
             then (False, model) else promotion_is_valid model conversion
         | PIGEN_CONVERSION_INTEGER_REINTERPRET \<Rightarrow>
             (numerical_is_concrete source \<and> numerical_is_concrete target \<and> source \<noteq> target, model)
         | PIGEN_CONVERSION_VECTOR_TO_INTEGER \<Rightarrow>
             (data_type_is_raw_vector model from_type \<and> numerical_is_concrete target, model)
         | PIGEN_CONVERSION_INTEGER_TO_VECTOR \<Rightarrow>
             (numerical_is_concrete source \<and> data_type_is_raw_vector model to_type, model)
         | _ \<Rightarrow> (False, model))"

end
