(* ===== verification/OperatorTypes.thy ===== *)
theory OperatorTypes
  imports PackedTypes
begin

text \<open>
  The typing of operators in src/src/data_type.c: for the types of the operands, the conversions of the
  operands and the type of the result. Arithmetic on integers with widths grows the width so that the result
  always fits; exact integers are computed.
\<close>

section \<open>Classes of operators\<close>

definition unary_boolean_result :: "pigen_unary_operator \<Rightarrow> bool" where
  "unary_boolean_result operator \<longleftrightarrow>
     operator \<in> {PIGEN_UNARY_LOGICAL_NOT, PIGEN_UNARY_REDUCTION_AND, PIGEN_UNARY_REDUCTION_NAND,
       PIGEN_UNARY_REDUCTION_OR, PIGEN_UNARY_REDUCTION_NOR, PIGEN_UNARY_REDUCTION_XOR, PIGEN_UNARY_REDUCTION_XNOR}"

definition unary_arithmetic_operator :: "pigen_unary_operator \<Rightarrow> bool" where
  "unary_arithmetic_operator operator \<longleftrightarrow> operator \<in> {PIGEN_UNARY_POSITIVE, PIGEN_UNARY_NEGATE}"

definition binary_arithmetic_operator :: "pigen_binary_operator \<Rightarrow> bool" where
  "binary_arithmetic_operator operator \<longleftrightarrow>
     operator \<in> {PIGEN_BINARY_ADD, PIGEN_BINARY_SUBTRACT, PIGEN_BINARY_MULTIPLY, PIGEN_BINARY_DIVIDE,
       PIGEN_BINARY_MODULO, PIGEN_BINARY_POWER}"

definition binary_shift_operator :: "pigen_binary_operator \<Rightarrow> bool" where
  "binary_shift_operator operator \<longleftrightarrow>
     operator \<in> {PIGEN_BINARY_SHIFT_LEFT, PIGEN_BINARY_SHIFT_RIGHT, PIGEN_BINARY_ARITH_SHIFT_LEFT,
       PIGEN_BINARY_ARITH_SHIFT_RIGHT}"

definition binary_ordered_operator :: "pigen_binary_operator \<Rightarrow> bool" where
  "binary_ordered_operator operator \<longleftrightarrow>
     operator \<in> {PIGEN_BINARY_LESS, PIGEN_BINARY_LESS_EQUAL, PIGEN_BINARY_GREATER, PIGEN_BINARY_GREATER_EQUAL}"

definition binary_equality_operator :: "pigen_binary_operator \<Rightarrow> bool" where
  "binary_equality_operator operator \<longleftrightarrow>
     operator \<in> {PIGEN_BINARY_EQUAL, PIGEN_BINARY_NOT_EQUAL, PIGEN_BINARY_CASE_EQUAL,
       PIGEN_BINARY_CASE_NOT_EQUAL, PIGEN_BINARY_WILDCARD_EQUAL, PIGEN_BINARY_WILDCARD_NOT_EQUAL}"

definition binary_bitwise_operator :: "pigen_binary_operator \<Rightarrow> bool" where
  "binary_bitwise_operator operator \<longleftrightarrow>
     operator \<in> {PIGEN_BINARY_BITWISE_AND, PIGEN_BINARY_BITWISE_XOR, PIGEN_BINARY_BITWISE_XNOR, PIGEN_BINARY_BITWISE_OR}"

definition binary_logical_operator :: "pigen_binary_operator \<Rightarrow> bool" where
  "binary_logical_operator operator \<longleftrightarrow> operator \<in> {PIGEN_BINARY_LOGICAL_AND, PIGEN_BINARY_LOGICAL_OR}"

definition binary_boolean_result :: "pigen_binary_operator \<Rightarrow> bool" where
  "binary_boolean_result operator \<longleftrightarrow>
     binary_ordered_operator operator \<or> binary_equality_operator operator \<or> binary_logical_operator operator"

section \<open>Exact operands\<close>

definition exact_is_negative :: "pigen_semantic_model \<Rightarrow> id \<Rightarrow> bool" where
  "exact_is_negative model type \<longleftrightarrow>
     (let v = pigen_data_type_exact_value model type
      in v \<noteq> PIGEN_INVALID_ID \<and> negative (integers model ! v))"

definition exact_to_size :: "pigen_semantic_model \<Rightarrow> id \<Rightarrow> u64 option" where
  "exact_to_size model type =
     (let v = pigen_data_type_exact_value model type
      in if v = PIGEN_INVALID_ID then None else pigen_integer_to_size model v)"

definition exact_is_zero :: "pigen_semantic_model \<Rightarrow> id \<Rightarrow> bool" where
  "exact_is_zero model type \<longleftrightarrow>
     (let v = pigen_data_type_exact_value model type
      in v \<noteq> PIGEN_INVALID_ID \<and> pigen_integer_is_zero model v)"

definition exact_is_one :: "pigen_semantic_model \<Rightarrow> id \<Rightarrow> bool" where
  "exact_is_one model type \<longleftrightarrow>
     (let v = pigen_data_type_exact_value model type;
          known = integers model ! v
      in v \<noteq> PIGEN_INVALID_ID \<and> \<not> negative known \<and> limb_count known = 1 \<and>
         integer_limbs model ! first_limb known = 1)"

definition exact_width :: "pigen_semantic_model \<Rightarrow> id \<Rightarrow> bool \<Rightarrow> id \<times> pigen_semantic_model" where
  "exact_width model type is_signed =
     (let v = pigen_data_type_exact_value model type;
          width = (if is_signed then pigen_integer_signed_width model v else pigen_integer_unsigned_width model v)
      in if width \<noteq> 0 then width_constant model width else (PIGEN_INVALID_ID, model))"

definition integer_with_width :: "pigen_semantic_model \<Rightarrow> bool \<Rightarrow> id \<Rightarrow> id \<times> pigen_semantic_model" where
  "integer_with_width model is_signed width =
     (if is_signed then pigen_data_type_signed_integer model width
      else pigen_data_type_unsigned_integer model width)"

definition exact_representation :: "pigen_semantic_model \<Rightarrow> id \<Rightarrow> id \<times> pigen_semantic_model" where
  "exact_representation model type =
     (let is_signed = exact_is_negative model type;
          (width, model1) = exact_width model type is_signed
      in integer_with_width model1 is_signed width)"

section \<open>Conversions of operands\<close>

definition resolve_operand_conversion :: "pigen_semantic_model \<Rightarrow> id \<Rightarrow> id \<Rightarrow> pigen_conversion option" where
  "resolve_operand_conversion model source target =
     (let source_interpretation = pigen_data_type_numerical_interpretation model source;
          target_interpretation = pigen_data_type_numerical_interpretation model target
      in if source = target then conversion_resolve model source target PIGEN_CONVERSION_IDENTITY
         else if source_interpretation = PIGEN_NUMERICAL_EXACT_INTEGER \<and> numerical_is_concrete target_interpretation
         then conversion_resolve model source target PIGEN_CONVERSION_EXACT_INTEGER
         else if numerical_is_concrete source_interpretation \<and> numerical_is_concrete target_interpretation
         then conversion_resolve model source target
           (if source_interpretation = target_interpretation then PIGEN_CONVERSION_INTEGER_RESIZE
            else PIGEN_CONVERSION_INTEGER_PROMOTION)
         else pigen_data_type_resolve_assignment_conversion model source target)"

text \<open>The width that an operand needs in the common type.\<close>

definition operand_width ::
    "pigen_semantic_model \<Rightarrow> bool \<Rightarrow> pigen_numerical_interpretation \<Rightarrow> id \<Rightarrow> id \<times> pigen_semantic_model" where
  "operand_width model is_signed interpretation1 operand =
     (if interpretation1 = PIGEN_NUMERICAL_EXACT_INTEGER then exact_width model operand is_signed
      else
        let (width, model1) = pigen_data_type_packed_width model operand
        in if is_signed \<and> interpretation1 = PIGEN_NUMERICAL_UNSIGNED_INTEGER then width_plus_one model1 width
           else (width, model1))"

definition common_numerical_type :: "pigen_semantic_model \<Rightarrow> id \<Rightarrow> id \<Rightarrow> id option \<times> pigen_semantic_model" where
  "common_numerical_type model left right =
     (let left_interpretation = pigen_data_type_numerical_interpretation model left;
          right_interpretation = pigen_data_type_numerical_interpretation model right;
          is_signed = (left_interpretation = PIGEN_NUMERICAL_SIGNED_INTEGER \<or>
            right_interpretation = PIGEN_NUMERICAL_SIGNED_INTEGER \<or> exact_is_negative model left \<or>
            exact_is_negative model right)
      in if \<not> data_type_is_pigen_integer model left \<or> \<not> data_type_is_pigen_integer model right then (None, model)
         else if left_interpretation = PIGEN_NUMERICAL_EXACT_INTEGER \<and>
             right_interpretation = PIGEN_NUMERICAL_EXACT_INTEGER then (None, model)
         else case operand_width model is_signed left_interpretation left of
           (left_width, model1) \<Rightarrow>
             if left_width = PIGEN_INVALID_ID then (None, model1)
             else case operand_width model1 is_signed right_interpretation right of
               (right_width, model2) \<Rightarrow>
                 if right_width = PIGEN_INVALID_ID then (None, model2)
                 else
                   let (width, model3) = pigen_const_expr_intern_width_maximum model2 [left_width, right_width];
                       (common, model4) = integer_with_width model3 is_signed width
                   in (if common = PIGEN_INVALID_ID then None else Some common, model4))"

section \<open>One exact operand\<close>

definition type_containing_integer_range ::
    "pigen_semantic_model \<Rightarrow> id \<Rightarrow> id \<Rightarrow> id \<times> pigen_semantic_model" where
  "type_containing_integer_range model minimum maximum =
     (if minimum = PIGEN_INVALID_ID \<or> maximum = PIGEN_INVALID_ID \<or> pigen_integer_compare model minimum maximum > 0
      then (PIGEN_INVALID_ID, model)
      else
        let is_signed = pigen_integer_is_negative model minimum;
            minimum_width = (if is_signed then pigen_integer_signed_width model minimum else 1);
            maximum_width = (if is_signed then pigen_integer_signed_width model maximum
              else pigen_integer_unsigned_width model maximum)
        in if minimum_width = 0 \<or> maximum_width = 0 then (PIGEN_INVALID_ID, model)
           else
             let (width, model1) = width_constant model (if minimum_width > maximum_width then minimum_width else maximum_width)
             in integer_with_width model1 is_signed width)"

text \<open>The type of an integer of the given width.\<close>

definition integer_of_width :: "pigen_semantic_model \<Rightarrow> bool \<Rightarrow> nat \<Rightarrow> id \<times> pigen_semantic_model" where
  "integer_of_width model is_signed w =
     (let (width, model1) = width_constant model w in integer_with_width model1 is_signed width)"

definition symbolic_range_type ::
    "pigen_semantic_model \<Rightarrow> pigen_numerical_range_width \<Rightarrow> id \<times> pigen_semantic_model" where
  "symbolic_range_type model rng =
     (let (width, model1) = pigen_const_expr_intern_numerical_range_width model rng
      in integer_with_width model1 (result_is_signed rng) width)"

definition concrete_exact_range_type ::
    "pigen_semantic_model \<Rightarrow> pigen_binary_operator \<Rightarrow> id \<Rightarrow> id \<Rightarrow> bool \<Rightarrow> id \<times> pigen_semantic_model" where
  "concrete_exact_range_type model0 operator concrete exact left_exact =
     (let (width, model) = pigen_data_type_packed_width model0 concrete;
          interpretation1 = pigen_data_type_numerical_interpretation model concrete;
          val = pigen_data_type_exact_value model exact
      in if val = PIGEN_INVALID_ID then (PIGEN_INVALID_ID, model)
         else if operator = PIGEN_BINARY_MULTIPLY \<and> exact_is_zero model exact then
           integer_of_width model False 1
         else if (operator = PIGEN_BINARY_MULTIPLY \<and> exact_is_one model exact) \<or>
             (operator = PIGEN_BINARY_ADD \<and> exact_is_zero model exact) \<or>
             (operator = PIGEN_BINARY_SUBTRACT \<and> \<not> left_exact \<and> exact_is_zero model exact)
         then (concrete, model)
         else
           case pigen_const_expr_evaluate_u64 model width of
             (first, model1) \<Rightarrow>
               (case (case first of
                     None \<Rightarrow> (Undecided, model1)
                   | Some w \<Rightarrow> dominant_arithmetic_range_width model1 operator interpretation1 (unat w) val left_exact) of
                  (Decided (is_signed, w), model2) \<Rightarrow> integer_of_width model2 is_signed w
                | (Impossible, model2) \<Rightarrow> (PIGEN_INVALID_ID, model2)
                | (Undecided, model2) \<Rightarrow>
                    (case pigen_const_expr_evaluate_u64 model2 width of
                       (Some w, model3) \<Rightarrow>
                         (case arithmetic_range_endpoints model3 operator interpretation1 (unat w) val left_exact of
                            (None, model4) \<Rightarrow> (PIGEN_INVALID_ID, model4)
                          | (Some (minimum, maximum), model4) \<Rightarrow> type_containing_integer_range model4 minimum maximum)
                     | (None, model3) \<Rightarrow>
                         symbolic_range_type model3
                           \<lparr>range_operator = operator, concrete_interpretation = interpretation1,
                            concrete_width = width, exact_value = val, exact_is_left = left_exact,
                            result_is_signed = symbolic_arithmetic_result_is_signed model3 operator interpretation1
                              val left_exact\<rparr>)))"

definition concrete_exact_power_type ::
    "pigen_semantic_model \<Rightarrow> id \<Rightarrow> id \<Rightarrow> id \<times> pigen_semantic_model" where
  "concrete_exact_power_type model0 base exact_exponent =
     (let (base_width, model) = pigen_data_type_packed_width model0 base;
          interpretation1 = pigen_data_type_numerical_interpretation model base;
          exponent_value = pigen_data_type_exact_value model exact_exponent
      in if exponent_value = PIGEN_INVALID_ID \<or> pigen_integer_is_negative model exponent_value
         then (PIGEN_INVALID_ID, model)
         else
           let is_signed = (interpretation1 = PIGEN_NUMERICAL_SIGNED_INTEGER \<and>
                 pigen_integer_is_odd model exponent_value);
               rng = \<lparr>range_operator = PIGEN_BINARY_POWER, concrete_interpretation = interpretation1,
                 concrete_width = base_width, exact_value = exponent_value, exact_is_left = False,
                 result_is_signed = is_signed\<rparr>;
               (width, model1) = pigen_const_expr_evaluate_u64 model base_width
           in if width = Some 1 then integer_of_width model1 is_signed 1
              else if width \<noteq> None then
                (case pigen_const_expr_evaluate_u64 model1 base_width of
                   (w, model2) \<Rightarrow>
                     (case pigen_data_type_evaluate_numerical_range_width model2 rng (map_option unat w) of
                        (None, model3) \<Rightarrow> (PIGEN_INVALID_ID, model3)
                      | (Some result_width, model3) \<Rightarrow> integer_of_width model3 is_signed result_width))
              else symbolic_range_type model1 rng)"

section \<open>Unary operators\<close>

definition data_type_admits_logical_use :: "pigen_semantic_model \<Rightarrow> id \<Rightarrow> bool" where
  "data_type_admits_logical_use model data_type \<longleftrightarrow>
     pigen_data_type_is_integral model data_type \<or>
     pigen_data_type_numerical_interpretation model data_type = PIGEN_NUMERICAL_EXACT_INTEGER"

text \<open>The type of the result; None if the operator does not apply.\<close>

definition unary_result ::
    "pigen_semantic_model \<Rightarrow> pigen_unary_operator \<Rightarrow> id \<Rightarrow> id option \<times> pigen_semantic_model" where
  "unary_result model operator operand =
     (let interpretation1 = pigen_data_type_numerical_interpretation model operand;
          found = (\<lambda>(result, m). (Some result, m))
      in if interpretation1 = PIGEN_NUMERICAL_EXACT_INTEGER then
           if operator = PIGEN_UNARY_POSITIVE then (Some operand, model)
           else if operator = PIGEN_UNARY_NEGATE then
             let (val, model1) = pigen_integer_negate model (pigen_data_type_exact_value model operand)
             in found (pigen_data_type_exact_integer model1 val)
           else if operator = PIGEN_UNARY_LOGICAL_NOT then found (pigen_data_type_boolean model)
           else (None, model)
         else if numerical_is_concrete interpretation1 then
           if operator = PIGEN_UNARY_NEGATE then
             let (width, model1) = pigen_data_type_packed_width model operand;
                 (wider, model2) = width_plus_one model1 width
             in found (pigen_data_type_signed_integer model2 wider)
           else if unary_arithmetic_operator operator \<or> operator = PIGEN_UNARY_BITWISE_NOT then (Some operand, model)
           else if unary_boolean_result operator then found (pigen_data_type_boolean model)
           else (None, model)
         else if \<not> pigen_data_type_is_integral model operand then (None, model)
         else if unary_boolean_result operator then found (pigen_data_type_boolean model)
         else (Some operand, model))"

definition pigen_data_type_resolve_unary_operation ::
    "pigen_semantic_model \<Rightarrow> pigen_unary_operator \<Rightarrow> id \<Rightarrow> pigen_unary_resolution option \<times> pigen_semantic_model" where
  "pigen_data_type_resolve_unary_operation model operator operand =
     (if data_type_get model operand = None then (None, model)
      else case unary_result model operator operand of
        (None, model1) \<Rightarrow> (None, model1)
      | (Some result, model1) \<Rightarrow>
          (case conversion_resolve model1 operand operand PIGEN_CONVERSION_IDENTITY of
             None \<Rightarrow> (None, model1)
           | Some conversion \<Rightarrow>
               if result = PIGEN_INVALID_ID then (None, model1)
               else (Some \<lparr>operand_conversion = conversion,
                   unary_operation = \<lparr>unary_operator = operator, operand_data_type = operand,
                     unary_result_data_type = result\<rparr>\<rparr>, model1)))"

section \<open>Binary operators\<close>

text \<open>
  Arithmetic on widths is itself typed by the rules below, for operands of the unsized integer type. The
  argument \<open>resolve\<close> is the typing of such an inner operation.
\<close>

type_synonym binary_resolver =
  "pigen_semantic_model \<Rightarrow> pigen_binary_operator \<Rightarrow> id \<Rightarrow> id \<Rightarrow> pigen_binary_resolution option \<times> pigen_semantic_model"

definition intern_unsized_integer_binary ::
    "binary_resolver \<Rightarrow> pigen_semantic_model \<Rightarrow> pigen_binary_operator \<Rightarrow> id \<Rightarrow> id \<Rightarrow> id \<times> pigen_semantic_model" where
  "intern_unsized_integer_binary resolve model operator left right =
     (let (data_type, model1) = pigen_data_type_unsized_integer model
      in case resolve model1 operator data_type data_type of
           (None, model2) \<Rightarrow> (PIGEN_INVALID_ID, model2)
         | (Some resolution, model2) \<Rightarrow>
             if conversion_kind (left_conversion resolution) \<noteq> PIGEN_CONVERSION_IDENTITY \<or>
                conversion_kind (right_conversion resolution) \<noteq> PIGEN_CONVERSION_IDENTITY
             then (PIGEN_INVALID_ID, model2)
             else pigen_const_expr_intern_binary model2 (binary_operation resolution) left right)"

definition maximum_unsigned_value_expression ::
    "binary_resolver \<Rightarrow> pigen_semantic_model \<Rightarrow> id \<Rightarrow> id \<times> pigen_semantic_model" where
  "maximum_unsigned_value_expression resolve model width =
     (let (one, model1) = width_constant model 1;
          (two, model2) = width_constant model1 2;
          (power, model3) = intern_unsized_integer_binary resolve model2 PIGEN_BINARY_POWER two width
      in if one = PIGEN_INVALID_ID \<or> two = PIGEN_INVALID_ID \<or> power = PIGEN_INVALID_ID then (PIGEN_INVALID_ID, model3)
         else intern_unsized_integer_binary resolve model3 PIGEN_BINARY_SUBTRACT power one)"

text \<open>The answer of a case: the types that the operands are converted to, and the type of the result.\<close>

type_synonym binary_types = "(id \<times> id \<times> id) option \<times> pigen_semantic_model"

definition exact_binary_types ::
    "pigen_semantic_model \<Rightarrow> pigen_binary_operator \<Rightarrow> id \<Rightarrow> id \<Rightarrow> binary_types" where
  "exact_binary_types model operator left right =
     (let left_value = pigen_data_type_exact_value model left;
          right_value = pigen_data_type_exact_value model right;
          computed = (\<lambda>(val, m). case pigen_data_type_exact_integer m val of
            (result, m1) \<Rightarrow> (Some (left, right, result), m1))
      in if operator = PIGEN_BINARY_ADD then computed (pigen_integer_add model left_value right_value)
         else if operator = PIGEN_BINARY_SUBTRACT then computed (pigen_integer_subtract model left_value right_value)
         else if operator = PIGEN_BINARY_MULTIPLY then computed (pigen_integer_multiply model left_value right_value)
         else if binary_ordered_operator operator \<or> binary_equality_operator operator \<or> binary_logical_operator operator
         then (case pigen_data_type_boolean model of (result, m1) \<Rightarrow> (Some (left, right, result), m1))
         else (None, model))"

definition shift_binary_types ::
    "binary_resolver \<Rightarrow> pigen_semantic_model \<Rightarrow> pigen_binary_operator \<Rightarrow> id \<Rightarrow> id \<Rightarrow> binary_types" where
  "shift_binary_types resolve model operator left right =
     (let left_interpretation = pigen_data_type_numerical_interpretation model left;
          right_interpretation = pigen_data_type_numerical_interpretation model right;
          amount = exact_to_size model right
      in if \<not> numerical_is_concrete left_interpretation \<or>
            (right_interpretation \<noteq> PIGEN_NUMERICAL_UNSIGNED_INTEGER \<and>
             right_interpretation \<noteq> PIGEN_NUMERICAL_EXACT_INTEGER) \<or>
            (right_interpretation = PIGEN_NUMERICAL_EXACT_INTEGER \<and> amount = None)
         then (None, model)
         else if operator = PIGEN_BINARY_SHIFT_LEFT \<or> operator = PIGEN_BINARY_ARITH_SHIFT_LEFT then
           let (maximum_amount, model1) =
                 (if right_interpretation = PIGEN_NUMERICAL_EXACT_INTEGER then width_constant model (unat (the amount))
                  else let (right_width, m) = pigen_data_type_packed_width model right
                       in maximum_unsigned_value_expression resolve m right_width);
               (left_width, model2) = pigen_data_type_packed_width model1 left;
               (result_width, model3) = width_sum model2 left_width maximum_amount;
               (result, model4) = integer_with_width model3
                 (left_interpretation = PIGEN_NUMERICAL_SIGNED_INTEGER) result_width
           in (Some (left, right, result), model4)
         else (Some (left, right, left), model))"

definition power_binary_types ::
    "binary_resolver \<Rightarrow> pigen_semantic_model \<Rightarrow> id \<Rightarrow> id \<Rightarrow> binary_types" where
  "power_binary_types resolve model left right =
     (let left_interpretation = pigen_data_type_numerical_interpretation model left;
          right_interpretation = pigen_data_type_numerical_interpretation model right
      in if \<not> numerical_is_concrete left_interpretation \<or>
            (right_interpretation \<noteq> PIGEN_NUMERICAL_EXACT_INTEGER \<and>
             right_interpretation \<noteq> PIGEN_NUMERICAL_UNSIGNED_INTEGER)
         then (None, model)
         else if right_interpretation = PIGEN_NUMERICAL_EXACT_INTEGER then
           let (result, model1) = concrete_exact_power_type model left right
           in (if result = PIGEN_INVALID_ID then None else Some (left, right, result), model1)
         else
           let (left_width, model1) = pigen_data_type_packed_width model left;
               (right_width, model2) = pigen_data_type_packed_width model1 right;
               (maximum, model3) = maximum_unsigned_value_expression resolve model2 right_width;
               (width, model4) = pigen_const_expr_intern_width_product model3 [left_width, maximum];
               (result, model5) = integer_with_width model4
                 (left_interpretation = PIGEN_NUMERICAL_SIGNED_INTEGER) width
           in (Some (left, right, result), model5))"

text \<open>\<open>range_result\<close> is the type found from the range of the result, or the invalid identity.\<close>

definition multiply_binary_types ::
    "pigen_semantic_model \<Rightarrow> id \<Rightarrow> id \<Rightarrow> id \<Rightarrow> binary_types" where
  "multiply_binary_types model left right range_result =
     (let left_interpretation = pigen_data_type_numerical_interpretation model left;
          right_interpretation = pigen_data_type_numerical_interpretation model right;
          result_signed = (left_interpretation = PIGEN_NUMERICAL_SIGNED_INTEGER \<or>
            right_interpretation = PIGEN_NUMERICAL_SIGNED_INTEGER \<or> exact_is_negative model left \<or>
            exact_is_negative model right);
          (effective_left, model1) = (if left_interpretation = PIGEN_NUMERICAL_EXACT_INTEGER
            then exact_representation model left else (left, model));
          (effective_right, model2) = (if right_interpretation = PIGEN_NUMERICAL_EXACT_INTEGER
            then exact_representation model1 right else (right, model1));
          (left_width, model3) = pigen_data_type_packed_width model2 effective_left;
          (right_width, model4) = pigen_data_type_packed_width model3 effective_right
      in if range_result \<noteq> PIGEN_INVALID_ID then (Some (effective_left, effective_right, range_result), model4)
         else
           let (width, model5) = pigen_const_expr_intern_width_sum model4 [left_width, right_width];
               (result, model6) = integer_with_width model5 result_signed width
           in (Some (effective_left, effective_right, result), model6))"

definition common_binary_types ::
    "pigen_semantic_model \<Rightarrow> pigen_binary_operator \<Rightarrow> id \<Rightarrow> id \<Rightarrow> id \<Rightarrow> binary_types" where
  "common_binary_types model operator left right range_result =
     (case common_numerical_type model left right of
        (None, model1) \<Rightarrow> (None, model1)
      | (Some common, model1) \<Rightarrow>
          if range_result \<noteq> PIGEN_INVALID_ID \<and> (operator = PIGEN_BINARY_ADD \<or> operator = PIGEN_BINARY_SUBTRACT)
          then (Some (common, common, range_result), model1)
          else if operator = PIGEN_BINARY_ADD \<and> (exact_is_zero model1 left \<or> exact_is_zero model1 right)
          then (Some (common, common, if exact_is_zero model1 left then right else left), model1)
          else if operator = PIGEN_BINARY_SUBTRACT \<and> exact_is_zero model1 right
          then (Some (common, common, left), model1)
          else if operator = PIGEN_BINARY_ADD \<or> operator = PIGEN_BINARY_SUBTRACT then
            let (width, model2) = pigen_data_type_packed_width model1 common;
                (wider, model3) = width_plus_one model2 width;
                (result, model4) = integer_with_width model3
                  (operator = PIGEN_BINARY_SUBTRACT \<or>
                   pigen_data_type_numerical_interpretation model3 common = PIGEN_NUMERICAL_SIGNED_INTEGER) wider
            in (Some (common, common, result), model4)
          else if binary_boolean_result operator then
            let (result, model2) = pigen_data_type_boolean model1 in (Some (common, common, result), model2)
          else (Some (common, common, common), model1))"

definition integer_binary_types ::
    "binary_resolver \<Rightarrow> pigen_semantic_model \<Rightarrow> pigen_binary_operator \<Rightarrow> id \<Rightarrow> id \<Rightarrow> binary_types" where
  "integer_binary_types resolve model operator left right =
     (let left_is_exact = (pigen_data_type_numerical_interpretation model left = PIGEN_NUMERICAL_EXACT_INTEGER);
          right_is_exact = (pigen_data_type_numerical_interpretation model right = PIGEN_NUMERICAL_EXACT_INTEGER);
          ranged = (left_is_exact \<noteq> right_is_exact \<and>
            operator \<in> {PIGEN_BINARY_ADD, PIGEN_BINARY_SUBTRACT, PIGEN_BINARY_MULTIPLY})
      in if \<not> data_type_is_pigen_integer model left \<or> \<not> data_type_is_pigen_integer model right \<or>
            (\<not> binary_arithmetic_operator operator \<and> \<not> binary_ordered_operator operator \<and>
             \<not> binary_equality_operator operator \<and> \<not> binary_bitwise_operator operator \<and>
             \<not> binary_logical_operator operator \<and> \<not> binary_shift_operator operator) \<or>
            operator = PIGEN_BINARY_DIVIDE \<or> operator = PIGEN_BINARY_MODULO
         then (None, model)
         else
           let (range_result, model1) = (if ranged then concrete_exact_range_type model operator
                 (if left_is_exact then right else left) (if left_is_exact then left else right) left_is_exact
               else (PIGEN_INVALID_ID, model))
           in if ranged \<and> range_result = PIGEN_INVALID_ID then (None, model1)
              else if binary_shift_operator operator then shift_binary_types resolve model1 operator left right
              else if operator = PIGEN_BINARY_POWER then power_binary_types resolve model1 left right
              else if operator = PIGEN_BINARY_MULTIPLY then multiply_binary_types model1 left right range_result
              else common_binary_types model1 operator left right range_result)"

definition binary_types ::
    "binary_resolver \<Rightarrow> pigen_semantic_model \<Rightarrow> pigen_binary_operator \<Rightarrow> id \<Rightarrow> id \<Rightarrow> binary_types" where
  "binary_types resolve model operator left right =
     (if pigen_data_type_numerical_interpretation model left = PIGEN_NUMERICAL_EXACT_INTEGER \<and>
         pigen_data_type_numerical_interpretation model right = PIGEN_NUMERICAL_EXACT_INTEGER
      then exact_binary_types model operator left right
      else if data_type_is_pigen_integer model left \<or> data_type_is_pigen_integer model right
      then integer_binary_types resolve model operator left right
      else if \<not> pigen_data_type_is_integral model left \<or> \<not> pigen_data_type_is_integral model right
      then (None, model)
      else if binary_boolean_result operator then
        (case pigen_data_type_boolean model of (result, model1) \<Rightarrow> (Some (left, right, result), model1))
      else (Some (left, right, if left = right then left else PIGEN_INVALID_ID), model))"

text \<open>The conversions to the types found.\<close>

definition resolve_binary_types ::
    "binary_resolver \<Rightarrow> pigen_semantic_model \<Rightarrow> pigen_binary_operator \<Rightarrow> id \<Rightarrow> id \<Rightarrow>
     pigen_binary_resolution option \<times> pigen_semantic_model" where
  "resolve_binary_types resolve model operator left right =
     (if data_type_get model left = None \<or> data_type_get model right = None then (None, model)
      else case binary_types resolve model operator left right of
        (None, model1) \<Rightarrow> (None, model1)
      | (Some (effective_left, effective_right, result), model1) \<Rightarrow>
          if result = PIGEN_INVALID_ID then (None, model1)
          else (case (resolve_operand_conversion model1 left effective_left,
                     resolve_operand_conversion model1 right effective_right) of
              (Some converted_left, Some converted_right) \<Rightarrow>
                (Some \<lparr>left_conversion = converted_left, right_conversion = converted_right,
                  binary_operation = \<lparr>binary_operator = operator, left_data_type = target_data_type converted_left,
                    right_data_type = target_data_type converted_right, binary_result_data_type = result\<rparr>\<rparr>, model1)
            | _ \<Rightarrow> (None, model1)))"

text \<open>
  The bound is on the nesting of typings of width arithmetic, which is of unsized integers and so
  nests no further.
\<close>

primrec resolve_binary :: "nat \<Rightarrow> binary_resolver" where
  "resolve_binary 0 = (\<lambda>model operator left right. (None, model))"
| "resolve_binary (Suc depth) =
     (\<lambda>model operator left right. resolve_binary_types (resolve_binary depth) model operator left right)"

definition pigen_data_type_resolve_binary_operation :: binary_resolver where
  "pigen_data_type_resolve_binary_operation = resolve_binary 2"

section \<open>The conditional operator\<close>

definition conditional_types :: "pigen_semantic_model \<Rightarrow> id \<Rightarrow> id \<Rightarrow> binary_types" where
  "conditional_types model when_true when_false =
     (if data_type_is_pigen_integer model when_true \<or> data_type_is_pigen_integer model when_false then
        if pigen_data_type_numerical_interpretation model when_true = PIGEN_NUMERICAL_EXACT_INTEGER \<and>
           pigen_data_type_numerical_interpretation model when_false = PIGEN_NUMERICAL_EXACT_INTEGER
        then
          if when_true = when_false then (Some (when_true, when_false, when_true), model)
          else
            let is_signed = (exact_is_negative model when_true \<or> exact_is_negative model when_false);
                (true_width, model1) = exact_width model when_true is_signed;
                (false_width, model2) = exact_width model1 when_false is_signed;
                (width, model3) = pigen_const_expr_intern_width_maximum model2 [true_width, false_width];
                (result, model4) = integer_with_width model3 is_signed width
            in (Some (result, result, result), model4)
        else (case common_numerical_type model when_true when_false of
            (None, model1) \<Rightarrow> (None, model1)
          | (Some common, model1) \<Rightarrow> (Some (common, common, common), model1))
      else if when_true \<noteq> when_false then (None, model)
      else (Some (when_true, when_false, when_true), model))"

definition pigen_data_type_resolve_conditional_operation ::
    "pigen_semantic_model \<Rightarrow> id \<Rightarrow> id \<Rightarrow> id \<Rightarrow> pigen_conditional_resolution option \<times> pigen_semantic_model" where
  "pigen_data_type_resolve_conditional_operation model condition when_true when_false =
     (if data_type_get model condition = None \<or> data_type_get model when_true = None \<or>
         data_type_get model when_false = None \<or> \<not> data_type_admits_logical_use model condition
      then (None, model)
      else case conditional_types model when_true when_false of
        (None, model1) \<Rightarrow> (None, model1)
      | (Some (effective_true, effective_false, result), model1) \<Rightarrow>
          (case (pigen_data_type_resolve_assignment_conversion model1 condition condition,
                 resolve_operand_conversion model1 when_true effective_true,
                 resolve_operand_conversion model1 when_false effective_false) of
             (Some c, Some t, Some f) \<Rightarrow>
               (Some \<lparr>condition_conversion = c, when_true_conversion = t, when_false_conversion = f,
                 conditional_operation = \<lparr>condition_data_type = target_data_type c,
                   when_true_data_type = target_data_type t, when_false_data_type = target_data_type f,
                   conditional_result_data_type = result\<rparr>\<rparr>, model1)
           | _ \<Rightarrow> (None, model1)))"

end
