(* ===== verification/Spec2Isabelle.thy ===== *)
theory Spec2Isabelle
  imports IntegerProperties RangeWidthProperties SourceProperties TransferTypes DesignProperties PredicateProperties
    DataTypeInvariant ConstEval RtlProperties RtlNameProperties PreprocessProperties
    OperatorTypes
begin

text \<open>
  Pigen is a compiler from a hardware language with ready/valid transfers to SystemVerilog. This
  development models the semantic core of its structured front end (src/src, src/include/pigen):
  the arenas in which every entity has a stable 32-bit identity, the operations that fill them,
  and the decisions on widths and types the later passes rely on.

  How the parts interact. The source manager owns the files; the lexer cuts them into tokens with
  positions; spans of the sources are the names of the semantic model. The model is one record of
  arenas: integers, data types, constant expressions, shapes, expressions, scopes, symbols, modules,
  parameters, signals, clock domains, processes and transfers. Interning operations return the
  identity of an equal entry or append one, so identities decide equality.

  Theories, in the order of the dependencies.
    \<^item> \<open>Prelude\<close>: identities, 32-bit and 64-bit bounds, first matching index, slices, bit lengths.
    \<^item> \<open>Magnitudes\<close>, \<open>Integers\<close>, \<open>IntegerOps\<close>, \<open>Powers\<close>: integer.c. Limb lists with explicit carries, the
      canonical arena, the arithmetic and the interval method for the width of huge powers;
      \<open>IntegerProperties\<close> states what they compute.
    \<^item> \<open>Interning\<close>: the contract of an interning arena as a locale, interpreted by the integers, the
      clock domains and the data types.
    \<^item> \<open>Operations\<close>, \<open>RangeWidths\<close>, \<open>RangeWidthProperties\<close>: operation.h and the part of data_type.c that
      finds the width of arithmetic with one exact operand; the widths are proved least.
    \<^item> \<open>SourceText\<close>, \<open>Sources\<close>, \<open>Lexer\<close>, \<open>SourceProperties\<close>: the lexical utilities of util.c, source.c and
      lexer.c. Every read of a byte is checked, in the order of the C operators; a read past the end of a
      text is the outcome Undefined, a fatal diagnostic is Fail.
    \<^item> \<open>Expanded\<close>, \<open>Preprocess\<close>, \<open>Directives\<close>: preprocess.c, that is, the origins of tokens, macro expansion, and
      the directives with the main loop. \<open>PreprocessInvariant\<close> and \<open>DirectivesInvariant\<close> have the invariant
      of the arenas and the bounds on nesting, \<open>TextExpansion\<close> the expansion of texts that the expansion of
      tokens refines, \<open>PreprocessProperties\<close> the properties and \<open>PreprocessSample\<close> the runs of their
      examples. The fuel is the number of macro definitions for expansions, the number of files for
      inclusion and the number of tokens for the main loop; \<open>preprocess_ends\<close> shows that it suffices.
      The loader of included files is a parameter, and its files are in the manager from the start.
    \<^item> \<open>TransferTypes\<close>: the catalogue of transfer_type.c and the keyword table of util.c.
    \<^item> \<open>SemanticModel\<close>, \<open>Scopes\<close>, \<open>Design\<close>: the types of semantic.h with their accessors, and of semantic.c the
      operations that build scopes, symbols, modules, parameters, signals, clock domains, processes and
      transfers. The constructors of shapes, expressions and lvalues in semantic.c are not modelled:
      their records occur in the model, and nothing is assumed of their contents. \<open>DesignInvariant\<close> has the invariant, the step relation of all operations and its
      preservation, \<open>DesignProperties\<close> the properties.
    \<^item> \<open>DataTypes\<close>, \<open>DataTypeInvariant\<close>: data_type.c, its interning and its capabilities.
    \<^item> \<open>ConstExprs\<close>, \<open>ConstEval\<close>: constant expressions of semantic.c, interning and evaluation.
    \<^item> \<open>PackedTypes\<close>, \<open>OperatorTypes\<close>: the widths of packed types, the validity of conversions and the typing of
      unary, binary and conditional operators in data_type.c.
    \<^item> \<open>Predicates\<close>, \<open>PredicateProperties\<close>: the guards of predicate.c as sets of literals.
    \<^item> \<open>Rtl\<close>, \<open>RtlInvariant\<close>, \<open>RtlProperties\<close>: the hardware model of rtl.c, its constructors, their invariant and
      the step relation over them, whose flag says whether processes are only added with the updates
      that were added last. \<open>RtlNames\<close>, \<open>RtlNameProperties\<close>: the allocation of names of rtl_name.c.

  Conventions. An array with its count is a list; capacities do not appear, as an allocation that
  fails ends the program. 32- and 64-bit limbs are words; counts and identities are natural numbers
  with the casts and the overflow checks of the code written out (\<open>u32\<close>, \<open>size_wrap\<close>, \<open>SIZE_MAX\<close>).
  An operation that changes the model returns it. Null-pointer guards on the model and checks that
  an enumeration value is in range hold by typing. Loops along links that the data could make
  cyclic are partial functions into options, and the properties prove that they end on consistent
  models. Recursion over identities of children takes the number of entries plus one as fuel,
  which suffices because children are older than their parents.

  Not modelled: the parsers, the constructors of shapes, expressions and lvalues, the passes after the
  semantic model, routing, the output layout, the textual prototype and the drivers, as the
  components of the manifest list them.
\<close>

end
